(* ===== verification/Prelude.thy ===== *)
theory Prelude
  imports Main "HOL-Library.Word" "HOL-Library.Product_Lexorder"
begin

text \<open>
  Shared vocabulary of the development: machine integers and byte strings as the Rust
  sources use them, the saturating operations of \<^verbatim>\<open>u64\<close>, the ordered map
  \<^verbatim>\<open>BTreeMap\<close> as a strictly sorted association list, and two interfaces the
  components rely on:
  \<^item> \<open>ordered_map\<close>: what an ordered map promises (the last write to a key wins, two
    maps with the same lookups are the same map);
  \<^item> \<open>convergent_fold\<close>: a fold whose steps commute and are idempotent, so that its
    result depends on the set of the steps only.
\<close>

section \<open>Machine integers and byte strings\<close>

type_synonym u8 = "8 word"
type_synonym u16 = "16 word"
type_synonym u32 = "32 word"
type_synonym u64 = "64 word"

text \<open>
  A \<^verbatim>\<open>[u8; 32]\<close> key or hash is read as one big-endian number: the derived
  lexicographic order of the array is then the order of the numbers, and the all-zero array
  is \<open>0\<close>.
\<close>

type_synonym key32 = "256 word"
type_synonym bytes = "8 word list"

text \<open>The \<^verbatim>\<open>?\<close> operator on a result.\<close>

definition and_then :: "'e + 'a \<Rightarrow> ('a \<Rightarrow> 'e + 'b) \<Rightarrow> 'e + 'b" where
  "and_then r f = (case r of Inl e \<Rightarrow> Inl e | Inr x \<Rightarrow> f x)"

definition sat_add :: "u64 \<Rightarrow> u64 \<Rightarrow> u64" where
  "sat_add a b = (if unat a + unat b < 2 ^ 64 then a + b else - 1)"

definition sat_mul :: "u64 \<Rightarrow> u64 \<Rightarrow> u64" where
  "sat_mul a b = (if unat a * unat b < 2 ^ 64 then a * b else - 1)"

definition sat_sub :: "u64 \<Rightarrow> u64 \<Rightarrow> u64" where
  "sat_sub a b = (if b \<le> a then a - b else 0)"

lemma and_then_simps [simp]: "and_then (Inl e) f = Inl e" "and_then (Inr x) f = f x"
  by (simp_all add: and_then_def)

lemma and_then_eq_Inr: "and_then r f = Inr y \<longleftrightarrow> (\<exists>x. r = Inr x \<and> f x = Inr y)"
  by (cases r) auto

lemma unat_sat_add: "unat (sat_add a b) = min (unat a + unat b) (2 ^ 64 - 1)"
proof (cases "unat a + unat b < 2 ^ 64")
  case True
  then have "unat (a + b) = unat a + unat b"
    by (simp add: unat_word_ariths)
  with True show ?thesis by (simp add: sat_add_def)
next
  case False
  then show ?thesis by (simp add: sat_add_def unsigned_minus_1_eq_mask mask_eq_exp_minus_1)
qed

lemma unat_sat_mul: "unat (sat_mul a b) = min (unat a * unat b) (2 ^ 64 - 1)"
proof (cases "unat a * unat b < 2 ^ 64")
  case True
  then have "unat (a * b) = unat a * unat b"
    by (simp add: unat_word_ariths)
  with True show ?thesis by (simp add: sat_mul_def)
next
  case False
  then show ?thesis by (simp add: sat_mul_def unsigned_minus_1_eq_mask mask_eq_exp_minus_1)
qed

lemma unat_sat_sub: "unat (sat_sub a b) = unat a - unat b"
  by (simp add: sat_sub_def unat_sub word_le_nat_alt)

lemma unat_u64_bound: "unat (x :: u64) \<le> 2 ^ 64 - 1"
  using unsigned_less [of x, where ?'a = nat] by simp

lemma le_sat_add1: "a \<le> sat_add a b"
  using unat_u64_bound [of a] by (simp add: word_le_nat_alt unat_sat_add)

lemma sat_add_0_right: "sat_add a 0 = a"
  unfolding word_unat_eq_iff by (use unat_u64_bound [of a] in \<open>simp add: unat_sat_add\<close>)

lemma sat_add_mono: "a \<le> a' \<Longrightarrow> sat_add a b \<le> sat_add a' b"
  by (simp add: word_le_nat_alt unat_sat_add)

lemma sat_add_window:
  "unat (sat_add a b) - unat a \<le> unat b"
  by (simp add: unat_sat_add)

section \<open>Ordered maps\<close>

text \<open>
  A \<^verbatim>\<open>BTreeMap\<close> is a list of key and value pairs in strictly increasing key
  order: iterating over the map is reading the list.
\<close>

type_synonym ('k, 'v) btmap = "('k \<times> 'v) list"

fun bt_insert :: "'k::linorder \<Rightarrow> 'v \<Rightarrow> ('k, 'v) btmap \<Rightarrow> ('k, 'v) btmap" where
  "bt_insert k v [] = [(k, v)]"
| "bt_insert k v ((l, w) # m) =
     (if k < l then (k, v) # (l, w) # m
      else if k = l then (k, v) # m
      else (l, w) # bt_insert k v m)"

definition bt_get :: "('k, 'v) btmap \<Rightarrow> 'k \<Rightarrow> 'v option" where
  "bt_get m k = map_of m k"

definition bt_inv :: "('k::linorder, 'v) btmap \<Rightarrow> bool" where
  "bt_inv m \<longleftrightarrow> sorted_wrt (<) (map fst m)"

definition bt_remove :: "'k::linorder \<Rightarrow> ('k, 'v) btmap \<Rightarrow> ('k, 'v) btmap" where
  "bt_remove k m = filter (\<lambda>e. fst e \<noteq> k) m"

definition bt_values :: "('k, 'v) btmap \<Rightarrow> 'v list" where
  "bt_values m = map snd m"

text \<open>\<^verbatim>\<open>m.entry(k).or_default()\<close> followed by a change of the entry.\<close>

definition bt_entry :: "'k::linorder \<Rightarrow> 'v \<Rightarrow> ('v \<Rightarrow> 'v) \<Rightarrow> ('k, 'v) btmap \<Rightarrow> ('k, 'v) btmap" where
  "bt_entry k d f m = bt_insert k (f (case bt_get m k of None \<Rightarrow> d | Some v \<Rightarrow> v)) m"

lemma strict_insort_insert:
  "sorted_wrt (<) xs \<Longrightarrow> sorted_wrt (<) (insort_insert (x :: 'a::linorder) xs)"
  by (auto simp: insort_insert_key_def strict_sorted_iff distinct_insort sorted_insort)

lemma bt_get_Nil [simp]: "bt_get [] k = None"
  by (simp add: bt_get_def)

lemma bt_inv_Nil [simp]: "bt_inv []"
  by (simp add: bt_inv_def)

lemma bt_get_insert: "bt_get (bt_insert k v m) = (bt_get m)(k \<mapsto> v)"
  unfolding bt_get_def fun_eq_iff
  by (induction m rule: bt_insert.induct) auto

lemma bt_get_insert_same [simp]: "bt_get (bt_insert k v m) k = Some v"
  by (simp add: bt_get_insert)

lemma bt_get_insert_other [simp]: "l \<noteq> k \<Longrightarrow> bt_get (bt_insert k v m) l = bt_get m l"
  by (simp add: bt_get_insert)

lemma fst_set_bt_insert: "fst ` set (bt_insert k v m) = insert k (fst ` set m)"
  by (induction k v m rule: bt_insert.induct) auto

lemma bt_inv_insert [simp]: "bt_inv m \<Longrightarrow> bt_inv (bt_insert k v m)"
proof (induction k v m rule: bt_insert.induct)
  case (2 k v l w m)
  have keys: "set (map fst (bt_insert k v m)) = insert k (set (map fst m))"
    using fst_set_bt_insert [of k v m] by simp
  from 2 keys show ?case
    by (auto simp: bt_inv_def simp del: set_map)
qed (simp add: bt_inv_def)

lemma bt_inv_remove [simp]: "bt_inv m \<Longrightarrow> bt_inv (bt_remove k m)"
  by (simp add: bt_inv_def bt_remove_def sorted_wrt_map sorted_wrt_filter)

lemma bt_inv_distinct: "bt_inv m \<Longrightarrow> distinct (map fst m)"
  by (simp add: bt_inv_def strict_sorted_iff)

lemma bt_get_eq_iff_mem: "bt_inv m \<Longrightarrow> bt_get m k = Some v \<longleftrightarrow> (k, v) \<in> set m"
  by (simp add: bt_get_def bt_inv_distinct)

lemma bt_get_remove: "bt_get (bt_remove k m) = (bt_get m)(k := None)"
  unfolding bt_get_def bt_remove_def fun_eq_iff by (induction m) auto

lemma bt_ext:
  assumes "bt_inv m" "bt_inv n" "bt_get m = bt_get n"
  shows "m = n"
proof -
  from assms have "map_of m = map_of n"
    by (simp add: bt_get_def fun_eq_iff)
  with assms(1,2) have "set m = set n"
    by (simp add: bt_inv_distinct map_of_inject_set)
  moreover have "inj_on fst (set m \<union> set n)"
    using assms(1) \<open>set m = set n\<close> bt_inv_distinct [of m] by (simp add: distinct_map)
  ultimately show ?thesis
    using assms(1,2)
    by (auto intro!: map_sorted_distinct_set_unique [where f = fst]
        simp: bt_inv_def strict_sorted_iff)
qed

lemma bt_values_nth: "bt_inv m \<Longrightarrow> v \<in> set (bt_values m) \<longleftrightarrow> (\<exists>k. bt_get m k = Some v)"
  by (force simp: bt_values_def bt_get_eq_iff_mem)

lemma bt_inv_entry [simp]: "bt_inv m \<Longrightarrow> bt_inv (bt_entry k d f m)"
  by (simp add: bt_entry_def)

text \<open>
  The interface of an ordered map, and what a client may use of it: writes to different keys
  commute, a write repeated is a write made once.
\<close>

locale ordered_map =
  fixes ins :: "'k \<Rightarrow> 'v \<Rightarrow> 'm \<Rightarrow> 'm"
    and get :: "'m \<Rightarrow> 'k \<Rightarrow> 'v option"
    and inv :: "'m \<Rightarrow> bool"
  assumes get_ins: "get (ins k v m) = (get m)(k \<mapsto> v)"
    and inv_ins: "inv m \<Longrightarrow> inv (ins k v m)"
    and ext: "inv m \<Longrightarrow> inv n \<Longrightarrow> get m = get n \<Longrightarrow> m = n"
begin

lemma ins_commute: "inv m \<Longrightarrow> k \<noteq> l \<Longrightarrow> ins k v (ins l w m) = ins l w (ins k v m)"
  by (rule ext) (simp_all add: get_ins inv_ins fun_upd_twist)

lemma ins_overwrite: "inv m \<Longrightarrow> ins k v (ins k w m) = ins k v m"
  by (rule ext) (simp_all add: get_ins inv_ins)

lemma ins_known: "inv m \<Longrightarrow> get m k = Some v \<Longrightarrow> ins k v m = m"
  by (rule ext) (auto simp: get_ins inv_ins)

lemma ins_consistent:
  "inv m \<Longrightarrow> (k = l \<Longrightarrow> v = w) \<Longrightarrow> ins k v (ins l w m) = ins l w (ins k v m)"
  by (cases "k = l") (simp_all add: ins_commute)

end

interpretation bt: ordered_map
  "bt_insert :: 'k::linorder \<Rightarrow> 'v \<Rightarrow> ('k, 'v) btmap \<Rightarrow> ('k, 'v) btmap" bt_get bt_inv
  by unfold_locales (simp_all add: bt_get_insert bt_ext)

lemma bt_entry_commute:
  assumes "bt_inv m"
    and "k = l \<Longrightarrow> f (g (case bt_get m k of None \<Rightarrow> d | Some v \<Rightarrow> v))
      = g (f (case bt_get m k of None \<Rightarrow> d | Some v \<Rightarrow> v))"
  shows "bt_entry k d f (bt_entry l d g m) = bt_entry l d g (bt_entry k d f m)"
proof (cases "k = l")
  case True
  with assms show ?thesis
    by (simp add: bt_entry_def bt.ins_overwrite)
next
  case False
  with assms(1) show ?thesis
    by (simp add: bt_entry_def bt.ins_commute)
qed

lemma bt_entry_idem:
  assumes "bt_inv m"
    and "f (f (case bt_get m k of None \<Rightarrow> d | Some v \<Rightarrow> v))
      = f (case bt_get m k of None \<Rightarrow> d | Some v \<Rightarrow> v)"
  shows "bt_entry k d f (bt_entry k d f m) = bt_entry k d f m"
  using assms by (simp add: bt_entry_def bt.ins_overwrite)

text \<open>A map whose values all satisfy a predicate, as a map of maps does.\<close>

definition bt_all :: "('v \<Rightarrow> bool) \<Rightarrow> ('k::linorder, 'v) btmap \<Rightarrow> bool" where
  "bt_all P m \<longleftrightarrow> bt_inv m \<and> list_all P (bt_values m)"

lemma bt_all_Nil [simp]: "bt_all P []"
  by (simp add: bt_all_def bt_values_def)

lemma bt_all_inv: "bt_all P m \<Longrightarrow> bt_inv m"
  by (simp add: bt_all_def)

lemma bt_all_get: "bt_all P m \<Longrightarrow> bt_get m k = Some v \<Longrightarrow> P v"
  by (force simp: bt_all_def list_all_iff bt_values_def bt_get_def dest: map_of_SomeD)

lemma list_all_bt_insert:
  "list_all P (bt_values m) \<Longrightarrow> P v \<Longrightarrow> list_all P (bt_values (bt_insert k v m))"
  unfolding bt_values_def by (induction k v m rule: bt_insert.induct) simp_all

lemma bt_all_insert: "bt_all P m \<Longrightarrow> P v \<Longrightarrow> bt_all P (bt_insert k v m)"
  by (simp add: bt_all_def list_all_bt_insert)

lemma bt_all_default:
  assumes "bt_all P m" "P d"
  shows "P (case bt_get m k of None \<Rightarrow> d | Some v \<Rightarrow> v)"
proof (cases "bt_get m k")
  case (Some v)
  then show ?thesis by (simp add: bt_all_get [OF assms(1) Some])
qed (simp add: assms(2))

lemma bt_all_entry:
  "bt_all P m \<Longrightarrow> P d \<Longrightarrow> (\<And>v. P v \<Longrightarrow> P (f v)) \<Longrightarrow> bt_all P (bt_entry k d f m)"
  unfolding bt_entry_def by (rule bt_all_insert) (simp_all add: bt_all_default)

section \<open>Folds that converge\<close>

text \<open>
  Replicas receive the same operations in different orders and more than once. When the
  steps of a fold keep an invariant, compatible steps commute and a repeated step changes
  nothing, the result of the fold depends on the set of the operations only.
\<close>

locale convergent_fold =
  fixes step :: "'op \<Rightarrow> 's \<Rightarrow> 's"
    and inv :: "'s \<Rightarrow> bool"
    and compat :: "'op \<Rightarrow> 'op \<Rightarrow> bool"
  assumes step_inv: "inv s \<Longrightarrow> inv (step x s)"
    and step_commute: "inv s \<Longrightarrow> compat x y \<Longrightarrow> step x (step y s) = step y (step x s)"
    and step_idem: "inv s \<Longrightarrow> step x (step x s) = step x s"
begin

lemma fold_inv: "inv s \<Longrightarrow> inv (fold step xs s)"
  by (induction xs arbitrary: s) (simp_all add: step_inv)

lemma fold_push:
  "inv s \<Longrightarrow> \<forall>y \<in> set xs. compat x y \<Longrightarrow> fold step xs (step x s) = step x (fold step xs s)"
proof (induction xs arbitrary: s)
  case (Cons y xs)
  then have "step y (step x s) = step x (step y s)"
    by (intro step_commute [symmetric]) simp_all
  with Cons show ?case by (simp add: step_inv)
qed simp

lemma fold_absorb:
  assumes "inv s" "x \<in> set xs" "\<forall>y \<in> set xs. compat x y"
  shows "step x (fold step xs s) = fold step xs s"
  using assms
proof (induction xs arbitrary: s)
  case (Cons y xs)
  show ?case
  proof (cases "x \<in> set xs")
    case True
    with Cons show ?thesis by (simp add: step_inv)
  next
    case False
    with Cons.prems have "x = y" by simp
    with Cons.prems show ?thesis
      by (metis fold_push fold_simps(2) list.set_intros(2) step_idem step_inv)
  qed
qed simp

lemma fold_absorb_all:
  assumes "inv s" "set ys \<subseteq> set xs" "\<forall>x \<in> set xs. \<forall>y \<in> set xs. compat x y"
  shows "fold step (xs @ ys) s = fold step xs s"
  using assms(2)
proof (induction ys)
  case (Cons y ys)
  have "step y (fold step xs s) = fold step xs s"
    by (rule fold_absorb) (use Cons.prems assms in auto)
  with Cons show ?case by simp
qed simp

lemma fold_swap:
  assumes "inv s" "\<forall>x \<in> set xs. \<forall>y \<in> set ys. compat x y"
  shows "fold step (xs @ ys) s = fold step (ys @ xs) s"
  using assms
proof (induction xs arbitrary: s)
  case (Cons x xs)
  then have "fold step (ys @ x # xs) s = fold step (ys @ xs) (step x s)"
    by (simp add: fold_push)
  with Cons show ?case by (simp add: step_inv)
qed simp

theorem fold_set_cong:
  assumes "inv s" "set xs = set ys" "\<forall>x \<in> set xs. \<forall>y \<in> set xs. compat x y"
  shows "fold step xs s = fold step ys s"
  using fold_absorb_all [of s ys xs] fold_absorb_all [of s xs ys] fold_swap [of s xs ys] assms
  by simp

end

section \<open>Selecting from lists\<close>

lemma find_filter: "List.find P (filter Q xs) = List.find (\<lambda>x. Q x \<and> P x) xs"
  by (induction xs) auto

lemma find_map: "List.find P (map f xs) = map_option f (List.find (P \<circ> f) xs)"
  by (induction xs) auto

lemma find_Some_mem: "List.find P xs = Some x \<Longrightarrow> x \<in> set xs \<and> P x"
  by (induction xs) (auto split: if_splits)

end
