(* ===== verification/Mesh_Ident.thy ===== *)
theory Mesh_Ident
  imports Rust_Str
begin

text \<open>
  The identifiers of \<^verbatim>\<open>crates/mesh/mesh/src/ident.rs\<close>: a resource or
  implementation name, checked against the grammar \<^verbatim>\<open>path '/' 'v' digits\<close>
  before anything is stored.
\<close>

definition MAX_IDENT_LEN :: nat where
  "MAX_IDENT_LEN = 128"

datatype ident_error =
    IdentEmpty
  | IdentTooLong
  | IdentShape string
  | IdentSegment string
  | IdentVersion string

definition edge :: "char \<Rightarrow> bool" where
  "edge b \<longleftrightarrow> is_ascii_lowercase b \<or> is_ascii_digit b"

definition valid_segment :: "string \<Rightarrow> bool" where
  "valid_segment segment =
     (case segment of
        [] \<Rightarrow> False
      | first # _ \<Rightarrow>
          edge first \<and> edge (last segment)
          \<and> list_all (\<lambda>b. edge b \<or> b = CHR ''-'' \<or> b = CHR ''_'') segment)"

definition ident_validate :: "string \<Rightarrow> ident_error + unit" where
  "ident_validate raw =
     (if raw = [] then Inl IdentEmpty
      else if length raw > MAX_IDENT_LEN then Inl IdentTooLong
      else
        (case rsplit_once (CHR ''/'') raw of
           None \<Rightarrow> Inl (IdentShape raw)
         | Some (path, version) \<Rightarrow>
             if path = [] then Inl (IdentShape raw)
             else
               (case List.find (\<lambda>segment. \<not> valid_segment segment) (split_on (CHR ''.'') path) of
                  Some segment \<Rightarrow> Inl (IdentSegment segment)
                | None \<Rightarrow>
                    (case strip_prefix ''v'' version of
                       None \<Rightarrow> Inl (IdentVersion version)
                     | Some digits \<Rightarrow>
                         if digits = [] \<or> \<not> list_all is_ascii_digit digits
                         then Inl (IdentVersion version)
                         else Inr ()))))"

text \<open>
  \<^verbatim>\<open>ResourceId\<close> and \<^verbatim>\<open>ImplementationId\<close> are two newtypes over the
  same checked string (one macro in the source).
\<close>

datatype resource_id = ResourceId (as_str: string)

datatype implementation_id = ImplementationId (impl_str: string)

definition resource_parse :: "string \<Rightarrow> ident_error + resource_id" where
  "resource_parse raw = (case ident_validate raw of Inl e \<Rightarrow> Inl e | Inr _ \<Rightarrow> Inr (ResourceId raw))"

definition resource_validate :: "resource_id \<Rightarrow> ident_error + unit" where
  "resource_validate r = ident_validate (as_str r)"

definition implementation_parse :: "string \<Rightarrow> ident_error + implementation_id" where
  "implementation_parse raw =
     (case ident_validate raw of Inl e \<Rightarrow> Inl e | Inr _ \<Rightarrow> Inr (ImplementationId raw))"

definition implementation_validate :: "implementation_id \<Rightarrow> ident_error + unit" where
  "implementation_validate i = ident_validate (impl_str i)"

section \<open>The grammar\<close>

text \<open>The documented grammar, stated without the parser.\<close>

definition ident_grammar :: "string \<Rightarrow> bool" where
  "ident_grammar raw \<longleftrightarrow>
     (\<exists>segments digits. segments \<noteq> [] \<and> list_all valid_segment segments
        \<and> digits \<noteq> [] \<and> list_all is_ascii_digit digits
        \<and> raw = join_with (CHR ''.'') segments @ ''/v'' @ digits)"

lemma edge_not_sep: "edge b \<Longrightarrow> b \<noteq> CHR ''.'' \<and> b \<noteq> CHR ''/''"
  by (auto simp: edge_def is_ascii_lowercase_def is_ascii_digit_def)

lemma valid_segment_no_sep:
  "valid_segment s \<Longrightarrow> s \<noteq> [] \<and> CHR ''.'' \<notin> set s \<and> CHR ''/'' \<notin> set s"
  by (auto simp: valid_segment_def list_all_iff split: list.splits dest: edge_not_sep)

lemma digits_no_slash: "list_all is_ascii_digit ds \<Longrightarrow> CHR ''/'' \<notin> set ds"
  by (auto simp: list_all_iff is_ascii_digit_def)

lemma find_None_list_all: "List.find (\<lambda>x. \<not> P x) xs = None \<longleftrightarrow> list_all P xs"
  by (auto simp: find_None_iff list_all_iff)

lemma join_valid_segments:
  assumes "segments \<noteq> []" "list_all valid_segment segments"
  shows "join_with (CHR ''.'') segments \<noteq> []"
    and "split_on (CHR ''.'') (join_with (CHR ''.'') segments) = segments"
proof -
  have sep: "\<forall>w \<in> set segments. CHR ''.'' \<notin> set w"
    using assms(2) by (auto simp: list_all_iff dest: valid_segment_no_sep)
  then show split: "split_on (CHR ''.'') (join_with (CHR ''.'') segments) = segments"
    using assms(1) by (simp add: split_join)
  show "join_with (CHR ''.'') segments \<noteq> []"
  proof
    assume "join_with (CHR ''.'') segments = []"
    with split have "segments = [[]]" by simp
    with assms(2) show False by (simp add: valid_segment_def)
  qed
qed

lemma ident_validate_complete:
  assumes "ident_grammar raw" "length raw \<le> MAX_IDENT_LEN"
  shows "ident_validate raw = Inr ()"
proof -
  from assms(1) obtain segments digits where segs: "segments \<noteq> []" "list_all valid_segment segments"
    and digits: "digits \<noteq> []" "list_all is_ascii_digit digits"
    and raw: "raw = join_with (CHR ''.'') segments @ ''/v'' @ digits"
    by (auto simp: ident_grammar_def)
  let ?path = "join_with (CHR ''.'') segments"
  have "rsplit_once (CHR ''/'') raw = Some (?path, ''v'' @ digits)"
    using rsplit_once_append [of "CHR ''/''" "''v'' @ digits" ?path] digits_no_slash [OF digits(2)]
    by (simp add: raw)
  moreover have "List.find (\<lambda>s. \<not> valid_segment s) (split_on (CHR ''.'') ?path) = None"
    using segs by (simp add: join_valid_segments find_None_list_all)
  ultimately show ?thesis
    using assms(2) digits join_valid_segments(1) [OF segs]
    by (simp add: ident_validate_def raw)
qed

lemma ident_validate_sound:
  assumes "ident_validate raw = Inr ()"
  shows "ident_grammar raw \<and> length raw \<le> MAX_IDENT_LEN"
proof -
  from assms obtain path version digits where
    len: "length raw \<le> MAX_IDENT_LEN"
    and split: "rsplit_once (CHR ''/'') raw = Some (path, version)"
    and segs: "list_all valid_segment (split_on (CHR ''.'') path)"
    and version: "version = ''v'' @ digits"
    and digits: "digits \<noteq> []" "list_all is_ascii_digit digits"
    by (auto simp: ident_validate_def find_None_list_all strip_prefix_Some
        split: if_splits option.splits)
  from split have "raw = path @ CHR ''/'' # version"
    by (simp add: rsplit_once_Some)
  then have "raw = join_with (CHR ''.'') (split_on (CHR ''.'') path) @ ''/v'' @ digits"
    by (simp add: join_split version)
  with segs digits have "ident_grammar raw"
    unfolding ident_grammar_def
    by (intro exI [of _ "split_on (CHR ''.'') path"] exI [of _ digits]) simp
  with len show ?thesis by simp
qed

lemma ident_validate_iff:
  "ident_validate raw = Inr () \<longleftrightarrow> ident_grammar raw \<and> length raw \<le> MAX_IDENT_LEN"
  using ident_validate_complete ident_validate_sound by blast

end
