(* ===== verification/Mesh_Lease.thy ===== *)
theory Mesh_Lease
  imports Prelude
begin

text \<open>
  The lease vocabulary of \<^verbatim>\<open>crates/mesh/mesh/src/lease.rs\<close>: the envelope a
  job author signs, the epochs a job goes through, the facts authored under a lease, and the
  resolution of the gathered facts into one chain of epochs. Every rule compares one signed
  timestamp with another; no clock is read.
\<close>

section \<open>Lease terms\<close>

definition MAX_LEASE_DURATION_MS :: u64 where
  "MAX_LEASE_DURATION_MS = 24 * 60 * 60 * 1000"

definition MIN_HEARTBEAT_MS :: u64 where
  "MIN_HEARTBEAT_MS = 1000"

definition MAX_MISS_ALLOWANCE :: u32 where
  "MAX_MISS_ALLOWANCE = 60"

record lease_terms =
  max_duration_ms :: u64
  heartbeat_ms :: u64
  miss_allowance :: u32

datatype lease_terms_error =
    TermsDuration u64
  | TermsHeartbeat u64
  | TermsMissAllowance u32

definition lease_terms_new :: "u64 \<Rightarrow> u64 \<Rightarrow> lease_terms" where
  "lease_terms_new d h = \<lparr>max_duration_ms = d, heartbeat_ms = h, miss_allowance = 3\<rparr>"

definition lease_terms_validate :: "lease_terms \<Rightarrow> lease_terms_error + unit" where
  "lease_terms_validate t =
     (if max_duration_ms t = 0 \<or> max_duration_ms t > MAX_LEASE_DURATION_MS
      then Inl (TermsDuration (max_duration_ms t))
      else if heartbeat_ms t < MIN_HEARTBEAT_MS \<or> heartbeat_ms t > max_duration_ms t
      then Inl (TermsHeartbeat (heartbeat_ms t))
      else if miss_allowance t = 0 \<or> miss_allowance t > MAX_MISS_ALLOWANCE
      then Inl (TermsMissAllowance (miss_allowance t))
      else Inr ())"

definition silence_window_ms :: "lease_terms \<Rightarrow> u64" where
  "silence_window_ms t = sat_mul (heartbeat_ms t) (ucast (miss_allowance t))"

section \<open>Epochs\<close>

datatype lease_activity = Fetching | Preparing | Running | Checkpointing

record lease_progress =
  prog_done :: u64
  prog_total :: u64
  checkpoint_held :: bool
  prog_activity :: lease_activity

definition lease_progress_default :: lease_progress where
  "lease_progress_default =
     \<lparr>prog_done = 0, prog_total = 0, checkpoint_held = False, prog_activity = Running\<rparr>"

datatype release_reason = Yielded | Failed | InputUnavailable

datatype reclaim_reason =
    ForegroundActivity | Battery | Thermal | Network | QuietHours | AtCapacity
  | PolicyChange | Manual

datatype lease_end =
    Released release_reason u64
  | Reclaimed reclaim_reason u64
  | Completed u64

fun end_at_ms :: "lease_end \<Rightarrow> u64" where
  "end_at_ms (Released _ at_ms) = at_ms"
| "end_at_ms (Reclaimed _ at_ms) = at_ms"
| "end_at_ms (Completed at_ms) = at_ms"

fun is_final :: "lease_end \<Rightarrow> bool" where
  "is_final (Completed _) = True"
| "is_final _ = False"

record lease_epoch =
  ep_epoch :: u32
  ep_lease :: key32
  ep_holder :: key32
  ep_granted_at_ms :: u64
  ep_expires_at_ms :: u64
  ep_last_seen_ms :: u64
  ep_progress :: lease_progress
  ep_end :: "lease_end option"

definition boundary_ms :: "lease_epoch \<Rightarrow> u64" where
  "boundary_ms e = (case ep_end e of None \<Rightarrow> ep_expires_at_ms e | Some x \<Rightarrow> end_at_ms x)"

definition covers :: "lease_epoch \<Rightarrow> u64 \<Rightarrow> bool" where
  "covers e at_ms \<longleftrightarrow> at_ms \<ge> ep_granted_at_ms e \<and> at_ms \<le> ep_expires_at_ms e"

datatype lapse_window = WindowExpired | WindowSilent

definition lapse_at :: "lease_epoch \<Rightarrow> u64 \<Rightarrow> lease_terms \<Rightarrow> u64 \<Rightarrow> lapse_window option" where
  "lapse_at e at_ms terms skew_ms =
     (if at_ms \<ge> sat_add (ep_expires_at_ms e) skew_ms then Some WindowExpired
      else if at_ms \<ge> sat_add (sat_add (ep_last_seen_ms e) (silence_window_ms terms)) skew_ms
      then Some WindowSilent
      else None)"

section \<open>The record of a job's epochs\<close>

type_synonym lease_record = "lease_epoch list"

definition rec_current :: "lease_record \<Rightarrow> lease_epoch option" where
  "rec_current r = (if r = [] then None else Some (last r))"

definition rec_epoch :: "lease_record \<Rightarrow> u32 \<Rightarrow> lease_epoch option" where
  "rec_epoch r n = List.find (\<lambda>e. ep_epoch e = n) r"

definition by_lease :: "lease_record \<Rightarrow> key32 \<Rightarrow> lease_epoch option" where
  "by_lease r l = List.find (\<lambda>e. ep_lease e = l) r"

text \<open>The epoch counter is a \<^verbatim>\<open>u32\<close>; its successor wraps as in a release build.\<close>

definition next_epoch :: "lease_record \<Rightarrow> (u32 \<times> u64) option" where
  "next_epoch r =
     (case rec_current r of
        None \<Rightarrow> Some (0, 0)
      | Some l \<Rightarrow>
          if (case ep_end l of None \<Rightarrow> False | Some x \<Rightarrow> is_final x) then None
          else Some (ep_epoch l + 1, boundary_ms l))"

definition accepts_grant :: "lease_record \<Rightarrow> u32 \<Rightarrow> u64 \<Rightarrow> bool" where
  "accepts_grant r n granted_at =
     (case next_epoch r of
        Some (m, boundary) \<Rightarrow> n = m \<and> granted_at \<ge> boundary
      | None \<Rightarrow> False)"

definition push_epoch :: "lease_record \<Rightarrow> lease_epoch \<Rightarrow> lease_record" where
  "push_epoch r e = r @ [e]"

section \<open>Gathered facts and their resolution\<close>

record grant_fact =
  gf_operation :: key32
  gf_author :: key32
  gf_epoch :: u32
  gf_granted_at_ms :: u64
  gf_expires_at_ms :: u64

datatype lease_fact_body = HeartbeatFact lease_progress | EndFact lease_end

record lease_fact =
  lf_operation :: key32
  lf_author :: key32
  lf_lease :: key32
  lf_at_ms :: u64
  lf_body :: lease_fact_body

record gathered_leases =
  gl_grants :: "(key32, grant_fact) btmap"
  gl_facts :: "(key32, lease_fact) btmap"

text \<open>
  The loop of \<^verbatim>\<open>apply_facts\<close> carries the newest heartbeat and the earliest end
  seen so far, both compared by timestamp and then by operation hash.
\<close>

type_synonym heartbeat_pick = "(u64 \<times> key32 \<times> lease_progress) option"
type_synonym end_pick = "(u64 \<times> key32 \<times> lease_end) option"

definition fact_applies :: "lease_epoch \<Rightarrow> lease_fact \<Rightarrow> bool" where
  "fact_applies current fct \<longleftrightarrow>
     lf_lease fct = ep_lease current \<and> lf_author fct = ep_holder current
     \<and> covers current (lf_at_ms fct)"

fun pick_fact :: "lease_epoch \<Rightarrow> lease_fact \<Rightarrow> heartbeat_pick \<times> end_pick \<Rightarrow> heartbeat_pick \<times> end_pick" where
  "pick_fact current fct (newest, earliest) =
     (if \<not> fact_applies current fct then (newest, earliest)
      else
        (case lf_body fct of
           HeartbeatFact p \<Rightarrow>
             ((case newest of
                 None \<Rightarrow> Some (lf_at_ms fct, lf_operation fct, p)
               | Some (t, oper, _) \<Rightarrow>
                   if (lf_at_ms fct, lf_operation fct) > (t, oper)
                   then Some (lf_at_ms fct, lf_operation fct, p) else newest),
              earliest)
         | EndFact x \<Rightarrow>
             (newest,
              (case earliest of
                 None \<Rightarrow> Some (lf_at_ms fct, lf_operation fct, x)
               | Some (t, oper, _) \<Rightarrow>
                   if (lf_at_ms fct, lf_operation fct) < (t, oper)
                   then Some (lf_at_ms fct, lf_operation fct, x) else earliest))))"

definition take_heartbeat :: "heartbeat_pick \<Rightarrow> lease_epoch \<Rightarrow> lease_epoch" where
  "take_heartbeat newest e =
     (case newest of
        None \<Rightarrow> e
      | Some (t, _, p) \<Rightarrow> e\<lparr>ep_last_seen_ms := max (ep_last_seen_ms e) t, ep_progress := p\<rparr>)"

definition take_end :: "end_pick \<Rightarrow> lease_epoch \<Rightarrow> lease_epoch" where
  "take_end earliest e =
     (case earliest of
        None \<Rightarrow> e
      | Some (_, _, x) \<Rightarrow>
          if (case ep_end e of None \<Rightarrow> True | Some held \<Rightarrow> end_at_ms x < end_at_ms held)
          then e\<lparr>ep_end := Some x\<rparr> else e)"

definition cap_last_seen :: "lease_epoch \<Rightarrow> lease_epoch" where
  "cap_last_seen e =
     (case ep_end e of
        None \<Rightarrow> e
      | Some x \<Rightarrow> e\<lparr>ep_last_seen_ms := min (ep_last_seen_ms e) (end_at_ms x)\<rparr>)"

definition apply_to_epoch :: "lease_fact list \<Rightarrow> lease_epoch \<Rightarrow> lease_epoch" where
  "apply_to_epoch facts current =
     (let (newest, earliest) = fold (pick_fact current) facts (None, None)
      in cap_last_seen (take_end earliest (take_heartbeat newest current)))"

definition apply_facts :: "gathered_leases \<Rightarrow> lease_record \<Rightarrow> lease_record" where
  "apply_facts g r =
     (if r = [] then r else butlast r @ [apply_to_epoch (bt_values (gl_facts g)) (last r)])"

definition epoch_of_grant :: "grant_fact \<Rightarrow> lease_epoch" where
  "epoch_of_grant gr =
     \<lparr>ep_epoch = gf_epoch gr, ep_lease = gf_operation gr, ep_holder = gf_author gr,
      ep_granted_at_ms = gf_granted_at_ms gr, ep_expires_at_ms = gf_expires_at_ms gr,
      ep_last_seen_ms = gf_granted_at_ms gr, ep_progress = lease_progress_default,
      ep_end = None\<rparr>"

definition grant_admissible ::
  "lease_record \<Rightarrow> lease_terms \<Rightarrow> (u64 \<Rightarrow> u64 \<Rightarrow> key32 option) \<Rightarrow> grant_fact \<Rightarrow> bool" where
  "grant_admissible r terms winner_for gr \<longleftrightarrow>
     accepts_grant r (gf_epoch gr) (gf_granted_at_ms gr)
     \<and> \<not> (gf_expires_at_ms gr \<le> gf_granted_at_ms gr
          \<or> gf_expires_at_ms gr - gf_granted_at_ms gr > max_duration_ms terms)
     \<and> winner_for (case next_epoch r of Some (_, b) \<Rightarrow> b | None \<Rightarrow> 0) (gf_granted_at_ms gr)
         = Some (gf_author gr)"

definition resolve_step ::
  "gathered_leases \<Rightarrow> lease_terms \<Rightarrow> (u64 \<Rightarrow> u64 \<Rightarrow> key32 option) \<Rightarrow> grant_fact
   \<Rightarrow> lease_record \<Rightarrow> lease_record" where
  "resolve_step g terms winner_for gr r =
     (if grant_admissible r terms winner_for gr
      then apply_facts g (push_epoch r (epoch_of_grant gr)) else r)"

definition pending_grants :: "gathered_leases \<Rightarrow> grant_fact list" where
  "pending_grants g =
     sort_key (\<lambda>gr. (gf_epoch gr, gf_granted_at_ms gr, gf_operation gr)) (bt_values (gl_grants g))"

definition leases_resolve ::
  "gathered_leases \<Rightarrow> lease_record \<Rightarrow> lease_terms \<Rightarrow> (u64 \<Rightarrow> u64 \<Rightarrow> key32 option)
   \<Rightarrow> lease_record" where
  "leases_resolve g r terms winner_for =
     fold (resolve_step g terms winner_for) (pending_grants g) (apply_facts g r)"

section \<open>The chain invariant\<close>

text \<open>
  An epoch is sound when its window is non-empty and inside the envelope, its end (if any)
  and its last sign of life fall inside the window, and nothing is seen after the end. A
  record is a chain when its epochs are numbered from zero, each is sound, each starts at or
  after the signed boundary of the one before, and only the last can have completed.
\<close>

definition epoch_ok :: "lease_terms \<Rightarrow> lease_epoch \<Rightarrow> bool" where
  "epoch_ok terms e \<longleftrightarrow>
     ep_granted_at_ms e < ep_expires_at_ms e
     \<and> ep_expires_at_ms e - ep_granted_at_ms e \<le> max_duration_ms terms
     \<and> ep_granted_at_ms e \<le> boundary_ms e \<and> boundary_ms e \<le> ep_expires_at_ms e
     \<and> ep_granted_at_ms e \<le> ep_last_seen_ms e \<and> ep_last_seen_ms e \<le> boundary_ms e"

definition ended_final :: "lease_epoch \<Rightarrow> bool" where
  "ended_final e = (case ep_end e of None \<Rightarrow> False | Some x \<Rightarrow> is_final x)"

definition follows :: "lease_epoch \<Rightarrow> lease_epoch \<Rightarrow> bool" where
  "follows a b \<longleftrightarrow> boundary_ms a \<le> ep_granted_at_ms b \<and> \<not> ended_final a"

definition chain_ok :: "lease_terms \<Rightarrow> lease_record \<Rightarrow> bool" where
  "chain_ok terms r \<longleftrightarrow>
     list_all (epoch_ok terms) r \<and> map ep_epoch r = map of_nat [0..<length r]
     \<and> successively follows r"

definition fact_wf :: "lease_fact \<Rightarrow> bool" where
  "fact_wf f = (case lf_body f of HeartbeatFact _ \<Rightarrow> True | EndFact x \<Rightarrow> end_at_ms x = lf_at_ms f)"

definition facts_wf :: "gathered_leases \<Rightarrow> bool" where
  "facts_wf g \<longleftrightarrow> list_all fact_wf (bt_values (gl_facts g))"

subsection \<open>Facts under an epoch\<close>

definition picks_ok :: "lease_epoch \<Rightarrow> heartbeat_pick \<times> end_pick \<Rightarrow> bool" where
  "picks_ok e p \<longleftrightarrow>
     (case fst p of None \<Rightarrow> True | Some (t, _, _) \<Rightarrow> covers e t)
     \<and> (case snd p of None \<Rightarrow> True | Some (_, _, x) \<Rightarrow> covers e (end_at_ms x))"

lemma pick_fact_ok: "fact_wf f \<Longrightarrow> picks_ok e p \<Longrightarrow> picks_ok e (pick_fact e f p)"
  by (cases p)
    (auto simp: picks_ok_def fact_wf_def fact_applies_def split: lease_fact_body.splits option.splits)

lemma fold_pick_ok: "list_all fact_wf fs \<Longrightarrow> picks_ok e p \<Longrightarrow> picks_ok e (fold (pick_fact e) fs p)"
  by (induction fs arbitrary: p) (simp_all add: pick_fact_ok del: pick_fact.simps)

text \<open>What the facts may not touch: the identity and the window of the epoch.\<close>

definition same_window :: "lease_epoch \<Rightarrow> lease_epoch \<Rightarrow> bool" where
  "same_window a b \<longleftrightarrow>
     ep_epoch a = ep_epoch b \<and> ep_lease a = ep_lease b \<and> ep_holder a = ep_holder b
     \<and> ep_granted_at_ms a = ep_granted_at_ms b \<and> ep_expires_at_ms a = ep_expires_at_ms b"

lemmas take_defs = take_heartbeat_def take_end_def cap_last_seen_def

lemma apply_to_epoch_same_window: "same_window (apply_to_epoch fs e) e"
  by (auto simp: apply_to_epoch_def take_defs same_window_def split: option.splits prod.splits)

lemma pick_fact_cong: "same_window a b \<Longrightarrow> pick_fact a f p = pick_fact b f p"
  by (cases p) (simp add: same_window_def fact_applies_def covers_def)

lemma fold_pick_cong: "same_window a b \<Longrightarrow> fold (pick_fact a) fs p = fold (pick_fact b) fs p"
  by (induction fs arbitrary: p) (simp_all add: pick_fact_cong del: pick_fact.simps)

lemma seen_settle:
  "min (max (min (max s t) b) t) b = min (max s t) (b::'a::linorder)"
  by (auto simp: max_def min_def)

lemma ep_end_take [simp]:
  "ep_end (cap_last_seen e) = ep_end e" "ep_end (take_heartbeat n e) = ep_end e"
  by (simp_all add: take_defs split: option.split prod.split)

lemma take_end_settled: "ep_end f = ep_end (take_end x e) \<Longrightarrow> take_end x f = f"
  by (cases x; cases "ep_end e") (simp_all add: take_end_def split: prod.splits if_splits)

lemma take_end_heartbeat: "take_end x (take_heartbeat n e) = take_heartbeat n (take_end x e)"
  by (cases n; cases x) (simp_all add: take_end_def take_heartbeat_def split: prod.split)

lemma heartbeat_settle:
  "cap_last_seen (take_heartbeat n (cap_last_seen (take_heartbeat n e)))
   = cap_last_seen (take_heartbeat n e)"
proof (cases n)
  case None
  then show ?thesis by (cases "ep_end e") (simp_all add: take_defs)
next
  case (Some v)
  then show ?thesis by (cases v; cases "ep_end e") (simp_all add: take_defs seen_settle)
qed

lemma picks_settle:
  "cap_last_seen (take_end x (take_heartbeat n (cap_last_seen (take_end x (take_heartbeat n e)))))
   = cap_last_seen (take_end x (take_heartbeat n e))"
proof -
  let ?f = "cap_last_seen (take_end x (take_heartbeat n e))"
  have "take_end x (take_heartbeat n ?f) = take_heartbeat n ?f"
    by (rule take_end_settled [of _ _ "take_heartbeat n e"]) simp
  then show ?thesis
    by (simp add: take_end_heartbeat heartbeat_settle)
qed

lemma apply_to_epoch_idem: "apply_to_epoch fs (apply_to_epoch fs e) = apply_to_epoch fs e"
proof -
  have "fold (pick_fact (apply_to_epoch fs e)) fs (None, None) = fold (pick_fact e) fs (None, None)"
    by (rule fold_pick_cong) (rule apply_to_epoch_same_window)
  then show ?thesis
    unfolding apply_to_epoch_def [of fs "apply_to_epoch fs e"]
    by (simp add: apply_to_epoch_def case_prod_beta picks_settle)
qed

lemma picks_epoch_ok:
  assumes "epoch_ok terms e" "picks_ok e (n, x)"
  shows "epoch_ok terms (cap_last_seen (take_end x (take_heartbeat n e)))"
  using assms
  by (auto simp: epoch_ok_def boundary_ms_def picks_ok_def covers_def take_defs max_def min_def
      split: option.splits prod.splits if_splits)

lemma apply_to_epoch_ok:
  assumes "epoch_ok terms e" "list_all fact_wf fs"
  shows "epoch_ok terms (apply_to_epoch fs e)"
proof -
  obtain n x where nx: "fold (pick_fact e) fs (None, None) = (n, x)"
    by (cases "fold (pick_fact e) fs (None, None)")
  have "picks_ok e (n, x)"
    using fold_pick_ok [OF assms(2), of e "(None, None)"] by (simp add: nx picks_ok_def)
  with assms(1) show ?thesis
    by (simp add: apply_to_epoch_def nx picks_epoch_ok)
qed

subsection \<open>Resolution keeps the chain\<close>

lemma chain_ok_Nil [simp]: "chain_ok terms []"
  by (simp add: chain_ok_def)

lemma chain_ok_snoc:
  "chain_ok terms (r @ [e]) \<longleftrightarrow>
     chain_ok terms r \<and> epoch_ok terms e \<and> ep_epoch e = of_nat (length r)
     \<and> (r = [] \<or> follows (last r) e)"
  by (auto simp: chain_ok_def successively_append_iff)

lemma follows_cong: "same_window a b \<Longrightarrow> follows x a = follows x b"
  by (simp add: follows_def same_window_def)

lemma apply_facts_snoc:
  "apply_facts g (r @ [e]) = r @ [apply_to_epoch (bt_values (gl_facts g)) e]"
  by (simp add: apply_facts_def)

lemma apply_facts_Nil [simp]: "apply_facts g [] = []"
  by (simp add: apply_facts_def)

lemma apply_facts_idem: "apply_facts g (apply_facts g r) = apply_facts g r"
  by (cases r rule: rev_cases) (simp_all add: apply_facts_snoc apply_to_epoch_idem)

lemma apply_facts_chain_ok:
  assumes "chain_ok terms r" "facts_wf g"
  shows "chain_ok terms (apply_facts g r)"
proof (cases r rule: rev_cases)
  case (snoc r' e)
  let ?e = "apply_to_epoch (bt_values (gl_facts g)) e"
  have "same_window ?e e" by (rule apply_to_epoch_same_window)
  then show ?thesis
    using assms snoc apply_to_epoch_ok [of terms e "bt_values (gl_facts g)"] follows_cong [of ?e e]
    by (simp add: apply_facts_snoc chain_ok_snoc facts_wf_def same_window_def)
qed simp

lemma next_epoch_snoc:
  "next_epoch (r @ [e]) = (if ended_final e then None else Some (ep_epoch e + 1, boundary_ms e))"
  by (simp add: next_epoch_def rec_current_def ended_final_def)

lemma next_epoch_Nil [simp]: "next_epoch [] = Some (0, 0)"
  by (simp add: next_epoch_def rec_current_def)

lemma chain_next_epoch:
  "chain_ok terms r \<Longrightarrow> next_epoch r = Some (n, b) \<Longrightarrow>
     n = of_nat (length r) \<and> (r = [] \<or> boundary_ms (last r) = b \<and> \<not> ended_final (last r))"
  by (cases r rule: rev_cases) (auto simp: next_epoch_snoc chain_ok_snoc split: if_splits)

lemma epoch_of_grant_ok:
  "gf_granted_at_ms gr < gf_expires_at_ms gr \<Longrightarrow>
   gf_expires_at_ms gr - gf_granted_at_ms gr \<le> max_duration_ms terms \<Longrightarrow>
   epoch_ok terms (epoch_of_grant gr)"
  by (simp add: epoch_ok_def epoch_of_grant_def boundary_ms_def)

lemma admissible_chain_ok:
  assumes "chain_ok terms r" "grant_admissible r terms w gr"
  shows "chain_ok terms (r @ [epoch_of_grant gr])"
proof -
  from assms(2) obtain n b where nb: "next_epoch r = Some (n, b)"
    and "gf_epoch gr = n" "b \<le> gf_granted_at_ms gr"
    by (auto simp: grant_admissible_def accepts_grant_def split: option.splits)
  moreover have "epoch_ok terms (epoch_of_grant gr)"
    by (rule epoch_of_grant_ok) (use assms(2) in \<open>auto simp: grant_admissible_def not_le not_less\<close>)
  ultimately show ?thesis
    using assms(1) chain_next_epoch [OF assms(1) nb]
    by (auto simp: chain_ok_snoc follows_def epoch_of_grant_def)
qed

lemma resolve_step_chain_ok:
  "chain_ok terms r \<Longrightarrow> facts_wf g \<Longrightarrow> chain_ok terms (resolve_step g terms w gr r)"
  by (simp add: resolve_step_def push_epoch_def admissible_chain_ok apply_facts_chain_ok)

lemma leases_resolve_chain_ok:
  assumes "chain_ok terms r" "facts_wf g"
  shows "chain_ok terms (leases_resolve g r terms w)"
  unfolding leases_resolve_def
  by (rule fold_invariant [where Q = "\<lambda>_. True"])
    (simp_all add: assms apply_facts_chain_ok resolve_step_chain_ok)

text \<open>In a chain the windows of two different epochs do not overlap.\<close>

lemma chain_sorted:
  assumes "chain_ok terms r"
  shows "sorted_wrt (\<lambda>a b. boundary_ms a \<le> ep_granted_at_ms b) r"
  using assms
proof (induction r rule: rev_induct)
  case (snoc e r)
  then have chain: "chain_ok terms r" and sorted: "sorted_wrt (\<lambda>a b. boundary_ms a \<le> ep_granted_at_ms b) r"
    and step: "r = [] \<or> follows (last r) e"
    by (simp_all add: chain_ok_snoc)
  have "boundary_ms a \<le> ep_granted_at_ms e" if "a \<in> set r" for a
  proof (cases r rule: rev_cases)
    case last: (snoc r' l)
    with chain step have "boundary_ms l \<le> ep_granted_at_ms e" "epoch_ok terms l"
      by (simp_all add: chain_ok_snoc follows_def)
    moreover have "a = l \<or> boundary_ms a \<le> ep_granted_at_ms l"
      using that last sorted by (auto simp: sorted_wrt_append)
    ultimately show ?thesis
      by (auto simp: epoch_ok_def)
  qed (use that in simp)
  with sorted show ?case
    by (simp add: sorted_wrt_append)
qed simp

subsection \<open>Who holds an epoch\<close>

fun won_from :: "(u64 \<Rightarrow> u64 \<Rightarrow> key32 option) \<Rightarrow> u64 \<Rightarrow> lease_record \<Rightarrow> bool" where
  "won_from w b [] = True"
| "won_from w b (e # es) \<longleftrightarrow>
     w b (ep_granted_at_ms e) = Some (ep_holder e) \<and> won_from w (boundary_ms e) es"

lemma won_from_snoc:
  "won_from w b (r @ [e]) \<longleftrightarrow>
     won_from w b r
     \<and> w (if r = [] then b else boundary_ms (last r)) (ep_granted_at_ms e) = Some (ep_holder e)"
  by (induction r arbitrary: b) auto

lemma won_from_apply_facts: "won_from w b r \<Longrightarrow> won_from w b (apply_facts g r)"
proof (cases r rule: rev_cases)
  case (snoc r' e)
  assume "won_from w b r"
  with snoc show ?thesis
    using apply_to_epoch_same_window [of "bt_values (gl_facts g)" e]
    by (simp add: apply_facts_snoc won_from_snoc same_window_def)
qed simp

lemma resolve_step_won:
  assumes "won_from w 0 r"
  shows "won_from w 0 (resolve_step g terms w gr r)"
proof (cases "grant_admissible r terms w gr")
  case True
  then obtain n b where nb: "next_epoch r = Some (n, b)"
    and win: "w b (gf_granted_at_ms gr) = Some (gf_author gr)"
    by (auto simp: grant_admissible_def accepts_grant_def split: option.splits)
  from nb have "b = (if r = [] then 0 else boundary_ms (last r))"
    by (cases r rule: rev_cases) (auto simp: next_epoch_snoc split: if_splits)
  with win assms have "won_from w 0 (r @ [epoch_of_grant gr])"
    by (simp add: won_from_snoc epoch_of_grant_def)
  with True show ?thesis
    by (simp add: resolve_step_def push_epoch_def won_from_apply_facts)
qed (simp add: resolve_step_def assms)

lemma leases_resolve_won: "won_from w 0 (leases_resolve g [] terms w)"
  unfolding leases_resolve_def
  by (rule fold_invariant [where Q = "\<lambda>_. True"]) (simp_all add: resolve_step_won)

end
