(* ===== verification/Proof_Types.thy ===== *)
theory Proof_Types
  imports Prelude
begin

text \<open>
  The typed digests, commitments and blob references of
  \<^verbatim>\<open>crates/system/proofs/src/lib.rs\<close>. The BLAKE3 function is a third-party
  crate: it is the parameter \<open>h\<close> of the definitions that hash.
\<close>

datatype digest_alg = Blake3Alg | P2pandaOperation | Sha256 | William3

record digest =
  dg_alg :: digest_alg
  dg_bytes :: bytes

definition digest_blake3 :: "(bytes \<Rightarrow> bytes) \<Rightarrow> bytes \<Rightarrow> digest" where
  "digest_blake3 h b = \<lparr>dg_alg = Blake3Alg, dg_bytes = h b\<rparr>"

datatype proof_type_error = WrongDigestLength nat

definition as_32 :: "digest \<Rightarrow> proof_type_error + bytes" where
  "as_32 d =
     (if length (dg_bytes d) = 32 then Inr (dg_bytes d) else Inl (WrongDigestLength (length (dg_bytes d))))"

datatype commit_scheme =
    DigestV1 | MerkleV1 | SparseMerkleV1 | MmrV1 | AccumulatorV1 | VectorCommitmentV1
  | PsiCardinalityV1

datatype commitment_domain =
    MootAdmins | MootMods | MootStakeholders | MootMembers | StandingReceipts | StorageChunks
  | StorageCheckpoints | MeshJobResults | DelegationSet

record commitment =
  cm_scheme :: commit_scheme
  cm_domain :: commitment_domain
  cm_version :: u16
  cm_digest :: digest

definition commitment_direct :: "(bytes \<Rightarrow> bytes) \<Rightarrow> commitment_domain \<Rightarrow> bytes \<Rightarrow> commitment" where
  "commitment_direct h domain b =
     \<lparr>cm_scheme = DigestV1, cm_domain = domain, cm_version = 1, cm_digest = digest_blake3 h b\<rparr>"

definition verifies_direct ::
  "(bytes \<Rightarrow> bytes) \<Rightarrow> commitment \<Rightarrow> commitment_domain \<Rightarrow> bytes \<Rightarrow> bool" where
  "verifies_direct h c domain b \<longleftrightarrow>
     cm_scheme c = DigestV1 \<and> cm_domain c = domain \<and> cm_version c = 1 \<and> cm_digest c = digest_blake3 h b"

record blob_ref =
  br_digest :: digest
  br_byte_len :: u64

definition blob_blake3 :: "(bytes \<Rightarrow> bytes) \<Rightarrow> bytes \<Rightarrow> blob_ref" where
  "blob_blake3 h b = \<lparr>br_digest = digest_blake3 h b, br_byte_len = of_nat (length b)\<rparr>"

definition blob_verifies :: "(bytes \<Rightarrow> bytes) \<Rightarrow> blob_ref \<Rightarrow> bytes \<Rightarrow> bool" where
  "blob_verifies h r b \<longleftrightarrow> br_byte_len r = of_nat (length b) \<and> br_digest r = digest_blake3 h b"

lemma blob_verifies_blake3: "blob_verifies h r b \<longleftrightarrow> r = blob_blake3 h b"
  by (cases r) (auto simp: blob_verifies_def blob_blake3_def)

lemma verifies_direct_iff: "verifies_direct h c domain b \<longleftrightarrow> c = commitment_direct h domain b"
  by (cases c) (auto simp: verifies_direct_def commitment_direct_def)

end
