(* ===== verification/Mesh_Spec.thy ===== *)
theory Mesh_Spec
  imports Mesh_Ident Mesh_Lease Proof_Types
begin

text \<open>
  The job manifest of \<^verbatim>\<open>crates/mesh/mesh/src/spec.rs\<close>: what a job asks for,
  every bound a manifest must satisfy before it may change anything, and when a committed
  result answers the manifest it claims to answer.
\<close>

section \<open>The manifest\<close>

definition MAX_INPUTS :: nat where
  "MAX_INPUTS = 32"

definition MAX_NAME_LEN :: nat where
  "MAX_NAME_LEN = 64"

definition MAX_OUTPUT_BYTES :: u64 where
  "MAX_OUTPUT_BYTES = 64 * 1024 * 1024"

record job_input =
  in_name :: string
  in_blob :: blob_ref

record output_grant =
  og_name :: string
  og_max_bytes :: u64

datatype compute_class = Cpu | Gpu

record resource_requirements =
  rq_memory_mib :: u32
  rq_compute :: compute_class

record host_facts =
  hf_memory_mib :: u32
  hf_gpu :: bool

definition requirements_cpu :: resource_requirements where
  "requirements_cpu = \<lparr>rq_memory_mib = 0, rq_compute = Cpu\<rparr>"

definition host_facts_cpu :: "u32 \<Rightarrow> host_facts" where
  "host_facts_cpu mib = \<lparr>hf_memory_mib = mib, hf_gpu = False\<rparr>"

definition satisfied_by :: "resource_requirements \<Rightarrow> host_facts \<Rightarrow> bool" where
  "satisfied_by r host \<longleftrightarrow>
     rq_memory_mib r \<le> hf_memory_mib host
     \<and> (case rq_compute r of Cpu \<Rightarrow> True | Gpu \<Rightarrow> hf_gpu host)"

datatype determinism_class = Exact | Tolerant | Observed

datatype checkpoint_class = Restart | Resumable | NonInterruptible

record job_spec =
  js_resource :: resource_id
  js_inputs :: "job_input list"
  js_output :: output_grant
  js_requirements :: resource_requirements
  js_determinism :: determinism_class
  js_checkpoint :: checkpoint_class
  js_lease :: "lease_terms option"

definition spec_simple ::
  "resource_id \<Rightarrow> string \<Rightarrow> blob_ref \<Rightarrow> string \<Rightarrow> u64 \<Rightarrow> determinism_class \<Rightarrow> job_spec" where
  "spec_simple resource input_name blob output_name max_bytes determinism =
     \<lparr>js_resource = resource, js_inputs = [\<lparr>in_name = input_name, in_blob = blob\<rparr>],
      js_output = \<lparr>og_name = output_name, og_max_bytes = max_bytes\<rparr>,
      js_requirements = requirements_cpu, js_determinism = determinism,
      js_checkpoint = Restart, js_lease = None\<rparr>"

definition spec_leased :: "job_spec \<Rightarrow> lease_terms \<Rightarrow> job_spec" where
  "spec_leased s terms = s\<lparr>js_lease := Some terms\<rparr>"

datatype spec_error =
    SpecResource ident_error
  | TooManyInputs nat
  | DuplicateInput string
  | MalformedName string
  | MalformedInputDigest string
  | OversizedGrant u64
  | SpecLease lease_terms_error

definition name_byte :: "char \<Rightarrow> bool" where
  "name_byte b \<longleftrightarrow>
     is_ascii_lowercase b \<or> is_ascii_digit b \<or> b = CHR ''-'' \<or> b = CHR ''_'' \<or> b = CHR ''.''"

definition validate_name :: "string \<Rightarrow> spec_error + unit" where
  "validate_name name =
     (if name = [] \<or> length name > MAX_NAME_LEN then Inl (MalformedName name)
      else if \<not> (is_ascii_lowercase (hd name) \<or> is_ascii_digit (hd name)) then Inl (MalformedName name)
      else if \<not> list_all name_byte name then Inl (MalformedName name)
      else Inr ())"

text \<open>The loop over the inputs, with the names seen so far.\<close>

fun validate_inputs :: "string list \<Rightarrow> job_input list \<Rightarrow> spec_error + unit" where
  "validate_inputs seen [] = Inr ()"
| "validate_inputs seen (i # is) =
     (case validate_name (in_name i) of
        Inl e \<Rightarrow> Inl e
      | Inr _ \<Rightarrow>
          if in_name i \<in> set seen then Inl (DuplicateInput (in_name i))
          else
            (case as_32 (br_digest (in_blob i)) of
               Inl _ \<Rightarrow> Inl (MalformedInputDigest (in_name i))
             | Inr _ \<Rightarrow> validate_inputs (in_name i # seen) is))"

definition spec_validate :: "job_spec \<Rightarrow> spec_error + unit" where
  "spec_validate s =
     (case resource_validate (js_resource s) of
        Inl e \<Rightarrow> Inl (SpecResource e)
      | Inr _ \<Rightarrow>
     (case (case js_lease s of None \<Rightarrow> Inr () | Some terms \<Rightarrow> lease_terms_validate terms) of
        Inl e \<Rightarrow> Inl (SpecLease e)
      | Inr _ \<Rightarrow>
     if length (js_inputs s) > MAX_INPUTS then Inl (TooManyInputs (length (js_inputs s)))
     else
     (case validate_inputs [] (js_inputs s) of
        Inl e \<Rightarrow> Inl e
      | Inr _ \<Rightarrow>
     (case validate_name (og_name (js_output s)) of
        Inl e \<Rightarrow> Inl e
      | Inr _ \<Rightarrow>
     if og_max_bytes (js_output s) = 0 \<or> og_max_bytes (js_output s) > MAX_OUTPUT_BYTES
     then Inl (OversizedGrant (og_max_bytes (js_output s)))
     else Inr ()))))"

definition spec_input :: "job_spec \<Rightarrow> string \<Rightarrow> blob_ref option" where
  "spec_input s name = map_option in_blob (List.find (\<lambda>i. in_name i = name) (js_inputs s))"

section \<open>Committed results\<close>

datatype verification_class = ExactBytes | Tolerance u32 | ProducerOnly

fun verification_determinism :: "verification_class \<Rightarrow> determinism_class" where
  "verification_determinism ExactBytes = Exact"
| "verification_determinism (Tolerance _) = Tolerant"
| "verification_determinism ProducerOnly = Observed"

definition satisfies :: "verification_class \<Rightarrow> determinism_class \<Rightarrow> bool" where
  "satisfies v requested =
     (case (verification_determinism v, requested) of
        (Exact, _) \<Rightarrow> True
      | (Tolerant, Tolerant) \<Rightarrow> True
      | (Tolerant, Observed) \<Rightarrow> True
      | (Observed, Observed) \<Rightarrow> True
      | _ \<Rightarrow> False)"

record job_output =
  jo_name :: string
  jo_blob :: blob_ref
  jo_resource :: resource_id
  jo_implementation :: implementation_id
  jo_verification :: verification_class

datatype output_error =
    OutputResource ident_error
  | OutputImplementation ident_error
  | OutputMalformedName string
  | UngrantedName string
  | WrongResource resource_id
  | OutputOverGrant u64 u64
  | MalformedDigest
  | WeakerThanAsked determinism_class determinism_class

definition output_validate_self :: "job_output \<Rightarrow> output_error + unit" where
  "output_validate_self o' =
     (case resource_validate (jo_resource o') of
        Inl e \<Rightarrow> Inl (OutputResource e)
      | Inr _ \<Rightarrow>
     (case implementation_validate (jo_implementation o') of
        Inl e \<Rightarrow> Inl (OutputImplementation e)
      | Inr _ \<Rightarrow>
     (case validate_name (jo_name o') of
        Inl _ \<Rightarrow> Inl (OutputMalformedName (jo_name o'))
      | Inr _ \<Rightarrow>
     (case as_32 (br_digest (jo_blob o')) of
        Inl _ \<Rightarrow> Inl MalformedDigest
      | Inr _ \<Rightarrow> Inr ()))))"

definition output_validate_against :: "job_output \<Rightarrow> job_spec \<Rightarrow> output_error + unit" where
  "output_validate_against o' s =
     (case output_validate_self o' of
        Inl e \<Rightarrow> Inl e
      | Inr _ \<Rightarrow>
          if jo_name o' \<noteq> og_name (js_output s) then Inl (UngrantedName (jo_name o'))
          else if jo_resource o' \<noteq> js_resource s then Inl (WrongResource (jo_resource o'))
          else if br_byte_len (jo_blob o') > og_max_bytes (js_output s)
          then Inl (OutputOverGrant (br_byte_len (jo_blob o')) (og_max_bytes (js_output s)))
          else if \<not> satisfies (jo_verification o') (js_determinism s)
          then Inl (WeakerThanAsked (verification_determinism (jo_verification o')) (js_determinism s))
          else Inr ())"

section \<open>What the checks establish\<close>

text \<open>The declarative reading of an admissible manifest and of an honoured grant.\<close>

definition name_ok :: "string \<Rightarrow> bool" where
  "name_ok name \<longleftrightarrow>
     name \<noteq> [] \<and> length name \<le> MAX_NAME_LEN
     \<and> (is_ascii_lowercase (hd name) \<or> is_ascii_digit (hd name)) \<and> list_all name_byte name"

definition terms_ok :: "lease_terms \<Rightarrow> bool" where
  "terms_ok t \<longleftrightarrow>
     0 < max_duration_ms t \<and> max_duration_ms t \<le> MAX_LEASE_DURATION_MS
     \<and> MIN_HEARTBEAT_MS \<le> heartbeat_ms t \<and> heartbeat_ms t \<le> max_duration_ms t
     \<and> 0 < miss_allowance t \<and> miss_allowance t \<le> MAX_MISS_ALLOWANCE"

definition spec_ok :: "job_spec \<Rightarrow> bool" where
  "spec_ok s \<longleftrightarrow>
     ident_grammar (as_str (js_resource s)) \<and> length (as_str (js_resource s)) \<le> MAX_IDENT_LEN
     \<and> (case js_lease s of None \<Rightarrow> True | Some t \<Rightarrow> terms_ok t)
     \<and> length (js_inputs s) \<le> MAX_INPUTS
     \<and> distinct (map in_name (js_inputs s))
     \<and> list_all (\<lambda>i. name_ok (in_name i) \<and> length (dg_bytes (br_digest (in_blob i))) = 32) (js_inputs s)
     \<and> name_ok (og_name (js_output s))
     \<and> 0 < og_max_bytes (js_output s) \<and> og_max_bytes (js_output s) \<le> MAX_OUTPUT_BYTES"

definition output_honours :: "job_output \<Rightarrow> job_spec \<Rightarrow> bool" where
  "output_honours o' s \<longleftrightarrow>
     output_validate_self o' = Inr ()
     \<and> jo_name o' = og_name (js_output s) \<and> jo_resource o' = js_resource s
     \<and> br_byte_len (jo_blob o') \<le> og_max_bytes (js_output s)
     \<and> satisfies (jo_verification o') (js_determinism s)"

lemma validate_name_iff: "validate_name n = Inr () \<longleftrightarrow> name_ok n"
  by (auto simp: validate_name_def name_ok_def)

lemma terms_validate_iff: "lease_terms_validate t = Inr () \<longleftrightarrow> terms_ok t"
  by (auto simp: lease_terms_validate_def terms_ok_def word_gt_0 not_less not_le)

lemma as_32_Inr: "(\<exists>b. as_32 d = Inr b) \<longleftrightarrow> length (dg_bytes d) = 32"
  by (simp add: as_32_def)

lemma validate_inputs_iff:
  "validate_inputs seen is = Inr () \<longleftrightarrow>
     distinct (map in_name is) \<and> set (map in_name is) \<inter> set seen = {}
     \<and> list_all (\<lambda>i. name_ok (in_name i) \<and> length (dg_bytes (br_digest (in_blob i))) = 32) is"
proof (induction seen "is" rule: validate_inputs.induct)
  case (2 seen i "is")
  show ?case
  proof (cases "name_ok (in_name i) \<and> in_name i \<notin> set seen \<and> length (dg_bytes (br_digest (in_blob i))) = 32")
    case True
    then have "validate_inputs seen (i # is) = validate_inputs (in_name i # seen) is"
      using validate_name_iff [of "in_name i"] by (simp add: as_32_def)
    moreover have "validate_inputs (in_name i # seen) is = Inr () \<longleftrightarrow>
        distinct (map in_name is) \<and> set (map in_name is) \<inter> set (in_name i # seen) = {}
        \<and> list_all (\<lambda>i. name_ok (in_name i) \<and> length (dg_bytes (br_digest (in_blob i))) = 32) is"
      using 2 True validate_name_iff [of "in_name i"] by (simp add: as_32_def)
    ultimately show ?thesis using True by auto
  next
    case False
    then have "validate_inputs seen (i # is) \<noteq> Inr ()"
      using validate_name_iff [of "in_name i"] by (auto simp: as_32_def split: sum.splits)
    with False show ?thesis by auto
  qed
qed simp

lemma unit_sum_neq: "x \<noteq> Inr () \<longleftrightarrow> (\<exists>e. x = Inl e)"
  by (cases x) auto

lemma spec_validate_iff: "spec_validate s = Inr () \<longleftrightarrow> spec_ok s"
proof -
  have inputs: "validate_inputs [] (js_inputs s) = Inr () \<longleftrightarrow>
      distinct (map in_name (js_inputs s))
      \<and> list_all (\<lambda>i. name_ok (in_name i) \<and> length (dg_bytes (br_digest (in_blob i))) = 32) (js_inputs s)"
    by (simp add: validate_inputs_iff)
  have lease: "(case js_lease s of None \<Rightarrow> Inr () | Some t \<Rightarrow> lease_terms_validate t) = Inr () \<longleftrightarrow>
      (case js_lease s of None \<Rightarrow> True | Some t \<Rightarrow> terms_ok t)"
    by (simp add: terms_validate_iff split: option.split)
  have ident: "resource_validate (js_resource s) = Inr () \<longleftrightarrow>
      ident_grammar (as_str (js_resource s)) \<and> length (as_str (js_resource s)) \<le> MAX_IDENT_LEN"
    by (simp add: resource_validate_def ident_validate_iff)
  have "spec_validate s = Inr () \<longleftrightarrow>
      resource_validate (js_resource s) = Inr ()
      \<and> (case js_lease s of None \<Rightarrow> Inr () | Some t \<Rightarrow> lease_terms_validate t) = Inr ()
      \<and> length (js_inputs s) \<le> MAX_INPUTS \<and> validate_inputs [] (js_inputs s) = Inr ()
      \<and> validate_name (og_name (js_output s)) = Inr ()
      \<and> 0 < og_max_bytes (js_output s) \<and> og_max_bytes (js_output s) \<le> MAX_OUTPUT_BYTES"
    unfolding spec_validate_def
    by (auto simp: word_gt_0 not_less not_le split: sum.splits)
  then show ?thesis
    unfolding inputs lease ident validate_name_iff spec_ok_def by blast
qed

lemma output_against_iff: "output_validate_against o' s = Inr () \<longleftrightarrow> output_honours o' s"
  by (auto simp: output_validate_against_def output_honours_def not_less split: sum.splits)

end
