(* ===== verification/Mesh_Projection.thy ===== *)
theory Mesh_Projection
  imports Mesh_Lease
begin

text \<open>
  The time-indexed lease projection of \<^verbatim>\<open>crates/mesh/mesh/src/projection.rs\<close>:
  where a job's lease stands at one observation time, with a tolerated clock skew.
\<close>

record lease_policy =
  max_skew_ms :: u64

definition lease_policy_default :: lease_policy where
  "lease_policy_default = \<lparr>max_skew_ms = 60000\<rparr>"

datatype lapse_reason = LapseExpired | HeartbeatSilence

datatype lease_phase =
    Unleased
  | Open u32
  | Held u32 key32 key32 u64 u64 lease_progress
      \<comment> \<open>epoch, lease, holder, expires, last seen, progress\<close>
  | PhaseReleased u32 key32 key32 release_reason u64
  | PhaseReclaimed u32 key32 key32 reclaim_reason u64
  | Lapsed u32 key32 key32 lapse_reason
  | PhaseDone u32 key32 key32

fun phase_holder :: "lease_phase \<Rightarrow> key32 option" where
  "phase_holder Unleased = None"
| "phase_holder (Open _) = None"
| "phase_holder (Held _ _ h _ _ _) = Some h"
| "phase_holder (PhaseReleased _ _ h _ _) = Some h"
| "phase_holder (PhaseReclaimed _ _ h _ _) = Some h"
| "phase_holder (Lapsed _ _ h _) = Some h"
| "phase_holder (PhaseDone _ _ h) = Some h"

fun phase_lease :: "lease_phase \<Rightarrow> key32 option" where
  "phase_lease Unleased = None"
| "phase_lease (Open _) = None"
| "phase_lease (Held _ l _ _ _ _) = Some l"
| "phase_lease (PhaseReleased _ l _ _ _) = Some l"
| "phase_lease (PhaseReclaimed _ l _ _ _) = Some l"
| "phase_lease (Lapsed _ l _ _) = Some l"
| "phase_lease (PhaseDone _ l _) = Some l"

fun held_by :: "lease_phase \<Rightarrow> key32 \<Rightarrow> bool" where
  "held_by (Held _ _ h _ _ _) me = (h = me)"
| "held_by _ me = False"

fun open_epoch :: "lease_phase \<Rightarrow> u32 option" where
  "open_epoch (Open n) = Some n"
| "open_epoch (PhaseReleased n _ _ _ _) = Some (n + 1)"
| "open_epoch (PhaseReclaimed n _ _ _ _) = Some (n + 1)"
| "open_epoch (Lapsed n _ _ _) = Some (n + 1)"
| "open_epoch Unleased = None"
| "open_epoch (Held _ _ _ _ _ _) = None"
| "open_epoch (PhaseDone _ _ _) = None"

text \<open>The phase of the epoch that is in force, after the search of \<^verbatim>\<open>phase_at\<close>.\<close>

definition phase_of_epoch :: "lease_epoch \<Rightarrow> lease_terms \<Rightarrow> u64 \<Rightarrow> u64 \<Rightarrow> lease_phase" where
  "phase_of_epoch e terms at_ms skew =
     (case (case ep_end e of
              None \<Rightarrow> None
            | Some x \<Rightarrow> if end_at_ms x \<le> sat_add at_ms skew then Some x else None) of
        Some (Released reason t) \<Rightarrow> PhaseReleased (ep_epoch e) (ep_lease e) (ep_holder e) reason t
      | Some (Reclaimed reason t) \<Rightarrow> PhaseReclaimed (ep_epoch e) (ep_lease e) (ep_holder e) reason t
      | Some (Completed _) \<Rightarrow> PhaseDone (ep_epoch e) (ep_lease e) (ep_holder e)
      | None \<Rightarrow>
          (case lapse_at e at_ms terms skew of
             Some WindowExpired \<Rightarrow> Lapsed (ep_epoch e) (ep_lease e) (ep_holder e) LapseExpired
           | Some WindowSilent \<Rightarrow> Lapsed (ep_epoch e) (ep_lease e) (ep_holder e) HeartbeatSilence
           | None \<Rightarrow>
               Held (ep_epoch e) (ep_lease e) (ep_holder e) (ep_expires_at_ms e) (ep_last_seen_ms e)
                 (ep_progress e)))"

definition phase_at :: "lease_record \<Rightarrow> lease_terms option \<Rightarrow> u64 \<Rightarrow> lease_policy \<Rightarrow> lease_phase" where
  "phase_at r terms at_ms policy =
     (case terms of
        None \<Rightarrow> Unleased
      | Some t \<Rightarrow>
          (case List.find (\<lambda>e. ep_granted_at_ms e \<le> sat_add at_ms (max_skew_ms policy)) (rev r) of
             None \<Rightarrow> Open 0
           | Some e \<Rightarrow> phase_of_epoch e t at_ms (max_skew_ms policy)))"

section \<open>Reading the projection\<close>

lemma phase_of_epoch_lapses:
  "phase_of_epoch e t at_ms skew = Held n l h x seen p \<Longrightarrow>
     n = ep_epoch e \<and> l = ep_lease e \<and> h = ep_holder e \<and> x = ep_expires_at_ms e
     \<and> seen = ep_last_seen_ms e
     \<and> at_ms < sat_add (ep_expires_at_ms e) skew
     \<and> at_ms < sat_add (sat_add (ep_last_seen_ms e) (silence_window_ms t)) skew"
  by (auto simp: phase_of_epoch_def lapse_at_def not_le
      split: option.splits lease_end.splits if_splits lapse_window.splits)

lemma phase_of_epoch_open:
  "open_epoch (phase_of_epoch e t at_ms skew) = Some n \<Longrightarrow> n = ep_epoch e + 1"
  by (auto simp: phase_of_epoch_def split: option.splits lease_end.splits lapse_window.splits)

lemma phase_of_epoch_cases:
  "phase_of_epoch e t at_ms skew \<noteq> Unleased \<and> phase_of_epoch e t at_ms skew \<noteq> Open n"
  by (auto simp: phase_of_epoch_def split: option.splits lease_end.splits lapse_window.splits)

text \<open>In a chain, the search finds the last epoch whenever its grant is not in the future.\<close>

lemma find_rev_snoc: "List.find P (rev (r @ [e])) = (if P e then Some e else List.find P (rev r))"
  by simp

text \<open>An epoch whose window has begun but is not over, and whose holder was heard, is held.\<close>

lemma phase_of_epoch_heldI:
  assumes "ep_end e = None" "at_ms < ep_expires_at_ms e"
    "at_ms < sat_add (ep_last_seen_ms e) (silence_window_ms t)"
  shows "held_by (phase_of_epoch e t at_ms skew) (ep_holder e)"
proof -
  have "at_ms < sat_add (ep_expires_at_ms e) skew"
    by (rule less_le_trans [OF assms(2) le_sat_add1])
  moreover have "at_ms < sat_add (sat_add (ep_last_seen_ms e) (silence_window_ms t)) skew"
    by (rule less_le_trans [OF assms(3) le_sat_add1])
  ultimately show ?thesis
    using assms(1) by (simp add: phase_of_epoch_def lapse_at_def not_le)
qed

end
