(* ===== verification/Attestation.thy ===== *)
theory Attestation
  imports Prelude
begin

text \<open>
  Derived-key attestations (\<^verbatim>\<open>crates/dramatis/personae/src/provider.rs\<close>) and the
  device directory built from them (\<^verbatim>\<open>crates/mesh/mesh/src/directory.rs\<close>). The
  Ed25519 implementation is a third-party crate: a record of its two functions is a parameter.
  \<open>vk_bytes\<close> decodes a public key and gives its canonical encoding (\<open>None\<close> when the
  bytes are no key), \<open>vk_verify\<close> checks a signature over a message.
\<close>

record ed25519 =
  vk_bytes :: "key32 \<Rightarrow> key32 option"
  vk_verify :: "key32 \<Rightarrow> bytes \<Rightarrow> bytes \<Rightarrow> bool"

section \<open>Byte encodings\<close>

definition key32_bytes :: "key32 \<Rightarrow> bytes" where
  "key32_bytes k = map (\<lambda>i. ucast (drop_bit (8 * (31 - i)) k)) [0..<32]"

definition le_bytes :: "nat \<Rightarrow> 'a::len word \<Rightarrow> bytes" where
  "le_bytes n w = map (\<lambda>i. ucast (drop_bit (8 * i) w)) [0..<n]"

definition str_bytes :: "string \<Rightarrow> bytes" where
  "str_bytes s = map (\<lambda>c. of_nat (of_char c)) s"

section \<open>Attestations\<close>

record derived_key_attestation =
  at_format_version :: u16
  at_master :: key32
  at_derived :: key32
  at_signature :: bytes

definition DERIVED_KEY_ATTESTATION_VERSION :: u16 where
  "DERIVED_KEY_ATTESTATION_VERSION = 1"

definition DERIVED_KEY_ATTESTATION_DOMAIN :: bytes where
  "DERIVED_KEY_ATTESTATION_DOMAIN = str_bytes ''personae/derived-key-attestation/v1''"

definition attestation_message :: "derived_key_attestation \<Rightarrow> bytes \<Rightarrow> bytes" where
  "attestation_message a salt =
     DERIVED_KEY_ATTESTATION_DOMAIN @ le_bytes 2 (at_format_version a)
     @ le_bytes 8 (of_nat (length salt) :: u64) @ salt
     @ key32_bytes (at_master a) @ key32_bytes (at_derived a)"

definition master_public_key :: "ed25519 \<Rightarrow> derived_key_attestation \<Rightarrow> key32 option" where
  "master_public_key ed a = vk_bytes ed (at_master a)"

definition derived_public_key :: "ed25519 \<Rightarrow> derived_key_attestation \<Rightarrow> key32 option" where
  "derived_public_key ed a = vk_bytes ed (at_derived a)"

definition attestation_verify :: "ed25519 \<Rightarrow> derived_key_attestation \<Rightarrow> bytes \<Rightarrow> bool" where
  "attestation_verify ed a salt =
     (if at_format_version a \<noteq> DERIVED_KEY_ATTESTATION_VERSION then False
      else
        (case master_public_key ed a of
           None \<Rightarrow> False
         | Some master \<Rightarrow>
             if length (at_signature a) \<noteq> 64 then False
             else vk_verify ed master (attestation_message a salt) (at_signature a)))"

section \<open>The device directory\<close>

definition MESH_AUTHOR_SALT :: bytes where
  "MESH_AUTHOR_SALT = str_bytes ''mesh-author''"

type_synonym device_directory = "(key32, key32) btmap"

definition attests :: "ed25519 \<Rightarrow> key32 \<Rightarrow> derived_key_attestation \<Rightarrow> bool" where
  "attests ed author a \<longleftrightarrow>
     (case derived_public_key ed a of None \<Rightarrow> False | Some derived \<Rightarrow> derived = author)
     \<and> attestation_verify ed a MESH_AUTHOR_SALT"

definition master_of :: "device_directory \<Rightarrow> key32 \<Rightarrow> key32 option" where
  "master_of d author = bt_get d author"

definition directory_admit ::
  "ed25519 \<Rightarrow> key32 \<Rightarrow> derived_key_attestation \<Rightarrow> device_directory \<Rightarrow> device_directory \<times> bool" where
  "directory_admit ed author a d =
     (if \<not> attests ed author a then (d, False)
      else
        (case master_public_key ed a of
           None \<Rightarrow> (d, False)
         | Some master \<Rightarrow> (bt_insert author master d, True)))"

lemma directory_admit_inv: "bt_inv d \<Longrightarrow> bt_inv (fst (directory_admit ed author a d))"
  by (simp add: directory_admit_def split: option.split)

lemma attests_master: "attests ed author a \<Longrightarrow> \<exists>m. master_public_key ed a = Some m"
  by (auto simp: attests_def attestation_verify_def split: if_splits option.splits)

text \<open>
  An entry of the directory after an admission is an old entry or the master key that
  verified the signature over the author's own key.
\<close>

lemma directory_admit_entry:
  "master_of (fst (directory_admit ed author a d)) k = Some m \<Longrightarrow>
     master_of d k = Some m
     \<or> k = author \<and> attests ed author a \<and> master_public_key ed a = Some m"
  by (auto simp: directory_admit_def master_of_def bt_get_insert split: option.splits if_splits)

end
