(* ===== verification/Mesh_Board.thy ===== *)
theory Mesh_Board
  imports Mesh_Spec Mesh_Projection Attestation
begin

text \<open>
  The job board of the mesh: the events of \<^verbatim>\<open>crates/mesh/mesh/src/wire.rs\<close>, the
  gathered facts of \<^verbatim>\<open>fold.rs\<close> and the fold of \<^verbatim>\<open>board.rs\<close>, which
  gathers every operation and then resolves claims, leases and results. The operation type
  of p2panda (signature, header validation, CBOR decoding) is third-party code: a record of
  the functions the mesh calls is a parameter.
\<close>

section \<open>Jobs\<close>

type_synonym job_id = key32

datatype job_kind = Echo | Blake3

datatype job_state =
    Posted
  | Claimed key32
  | Done key32 bytes
  | Committed key32 job_output

fun state_winner :: "job_state \<Rightarrow> key32 option" where
  "state_winner Posted = None"
| "state_winner (Claimed w) = Some w"
| "state_winner (Done w _) = Some w"
| "state_winner (Committed w _) = Some w"

fun is_terminal :: "job_state \<Rightarrow> bool" where
  "is_terminal (Done _ _) = True"
| "is_terminal (Committed _ _) = True"
| "is_terminal _ = False"

record claimant =
  cl_author :: key32
  cl_at_ms :: u64

record job =
  job_id :: job_id
  job_kind :: "job_kind option"
  job_payload :: "bytes option"
  job_spec :: "job_spec option"
  job_posted_by :: key32
  job_state :: job_state
  job_lease :: lease_record
  job_next_claimants :: "claimant list"

definition is_runnable :: "job \<Rightarrow> bool" where
  "is_runnable j \<longleftrightarrow> job_spec j \<noteq> None \<or> job_payload j \<noteq> None"

definition job_lease_terms :: "job \<Rightarrow> lease_terms option" where
  "job_lease_terms j = Option.bind (job_spec j) js_lease"

definition lease_at :: "job \<Rightarrow> u64 \<Rightarrow> lease_policy \<Rightarrow> lease_phase" where
  "lease_at j at_ms policy = phase_at (job_lease j) (job_lease_terms j) at_ms policy"

definition next_holder :: "job \<Rightarrow> u64 \<Rightarrow> key32 option" where
  "next_holder j at_ms =
     map_option cl_author (List.find (\<lambda>c. cl_at_ms c \<le> at_ms) (job_next_claimants j))"

definition has_claimed :: "job \<Rightarrow> key32 \<Rightarrow> bool" where
  "has_claimed j me \<longleftrightarrow> list_ex (\<lambda>c. cl_author c = me) (job_next_claimants j)"

record job_board =
  board_jobs :: "(job_id, job) btmap"
  board_devices :: device_directory

section \<open>Snapshots and checkpoints\<close>

type_synonym board_snapshot = "job list"

datatype mesh_log_id = Events | Checkpoints

record log_frontier =
  fr_author :: key32
  fr_log_id :: mesh_log_id
  fr_seq_num :: u64
  fr_operation :: key32

record retention_checkpoint =
  ck_version :: u16
  ck_mesh_id :: key32
  ck_policy_revision :: key32
  ck_authority_revision :: digest
  ck_frontier :: "log_frontier list"
  ck_snapshot :: board_snapshot
  ck_snapshot_ref :: blob_ref
  ck_snapshot_commitment :: commitment
  ck_at_ms :: u64

section \<open>Events and operations\<close>

datatype mesh_event =
    JobPosted job_kind bytes u64 u64
  | JobClaimed key32 u64
  | JobDone key32 bytes u64
  | JobPostedV2 job_spec u64 u64
  | JobDoneV2 key32 job_output u64
  | LeaseGranted key32 u32 u64 u64
  | LeaseHeartbeat key32 key32 lease_progress u64
  | LeaseReleased key32 key32 release_reason u64
  | LeaseRevokedByOwner key32 key32 reclaim_reason u64
  | JobCompletedUnderLease key32 key32 job_output u64
  | DeviceAttested derived_key_attestation
  | RetentionCheckpoint retention_checkpoint
  | HistoryPruned key32 u64

fun event_log_id :: "mesh_event \<Rightarrow> mesh_log_id" where
  "event_log_id (RetentionCheckpoint _) = Checkpoints"
| "event_log_id _ = Events"

record mesh_ext =
  mesh_id :: key32
  prune_flag :: bool

record 'h operation =
  op_hash :: key32
  op_header :: 'h
  op_body :: "bytes option"

record 'h p2panda =
  pp_verifying_key :: "'h \<Rightarrow> key32"
  pp_extensions :: "'h \<Rightarrow> mesh_ext"
  pp_header_hash :: "'h \<Rightarrow> key32"
  pp_seq_num :: "'h \<Rightarrow> u32"
  pp_validate_operation :: "'h operation \<Rightarrow> bool"
  pp_decode_event :: "bytes \<Rightarrow> mesh_event option"
  pp_encode_event :: "mesh_event \<Rightarrow> bytes"
  pp_build :: "key32 \<Rightarrow> bytes \<Rightarrow> u32 \<Rightarrow> key32 option \<Rightarrow> mesh_ext \<Rightarrow> 'h"

text \<open>
  Signing: the header builder encodes, signs with the seed and caches the digest; \<open>pp_build\<close>
  stands for it, with the seed, the body, the log position, the backlink and the extension.
\<close>

definition to_operation_with_prune ::
  "'h p2panda \<Rightarrow> key32 \<Rightarrow> key32 \<Rightarrow> mesh_event \<Rightarrow> u32 \<Rightarrow> key32 option \<Rightarrow> bool \<Rightarrow> 'h operation" where
  "to_operation_with_prune pp seed mesh event seq backlink prune =
     (let body = pp_encode_event pp event;
          header = pp_build pp seed body seq backlink \<lparr>mesh_id = mesh, prune_flag = prune\<rparr>
      in \<lparr>op_hash = pp_header_hash pp header, op_header = header, op_body = Some body\<rparr>)"

definition to_operation ::
  "'h p2panda \<Rightarrow> key32 \<Rightarrow> key32 \<Rightarrow> mesh_event \<Rightarrow> u32 \<Rightarrow> key32 option \<Rightarrow> 'h operation" where
  "to_operation pp seed mesh event seq backlink =
     to_operation_with_prune pp seed mesh event seq backlink False"

definition to_prune_operation ::
  "'h p2panda \<Rightarrow> key32 \<Rightarrow> key32 \<Rightarrow> key32 \<Rightarrow> u64 \<Rightarrow> u32 \<Rightarrow> key32 option \<Rightarrow> 'h operation" where
  "to_prune_operation pp seed mesh checkpoint at_ms seq backlink =
     to_operation_with_prune pp seed mesh (HistoryPruned checkpoint at_ms) seq backlink True"

datatype wire_error = MissingBody | Malformed

definition from_operation :: "'h p2panda \<Rightarrow> 'h operation \<Rightarrow> wire_error + key32 \<times> mesh_event" where
  "from_operation pp oper =
     (case op_body oper of
        None \<Rightarrow> Inl MissingBody
      | Some body \<Rightarrow>
          (case pp_decode_event pp body of
             None \<Rightarrow> Inl Malformed
           | Some event \<Rightarrow> Inr (mesh_id (pp_extensions pp (op_header oper)), event)))"

definition verify :: "'h p2panda \<Rightarrow> 'h operation \<Rightarrow> bool" where
  "verify pp oper \<longleftrightarrow>
     pp_validate_operation pp oper \<and> op_hash oper = pp_header_hash pp (op_header oper)"

section \<open>Gathered facts\<close>

record posted =
  po_kind :: "job_kind option"
  po_payload :: "bytes option"
  po_spec :: "job_spec option"
  po_by :: key32

datatype result_record = ResultInline bytes | ResultCommitted job_output

record claim_fact =
  cf_author :: key32
  cf_at_ms :: u64

record completion_fact =
  co_author :: key32
  co_lease :: key32
  co_at_ms :: u64
  co_output :: job_output

definition posted_resolve :: "posted \<Rightarrow> key32 \<Rightarrow> result_record option \<Rightarrow> job_state" where
  "posted_resolve p winner rec =
     (case (rec, po_spec p) of
        (Some (ResultInline result), None) \<Rightarrow> Done winner result
      | (Some (ResultCommitted output), Some s) \<Rightarrow>
          if js_lease s = None \<and> output_validate_against output s = Inr ()
          then Committed winner output else Claimed winner
      | _ \<Rightarrow> Claimed winner)"

record gathered_job_leases =
  gj_grants :: "(key32, grant_fact) btmap"
  gj_facts :: "(key32, lease_fact) btmap"
  gj_completions :: "(key32, completion_fact) btmap"

definition no_leases :: gathered_job_leases where
  "no_leases = \<lparr>gj_grants = [], gj_facts = [], gj_completions = []\<rparr>"

definition completion_to_fact :: "key32 \<Rightarrow> completion_fact \<Rightarrow> lease_fact" where
  "completion_to_fact operation c =
     \<lparr>lf_operation = operation, lf_author = co_author c, lf_lease = co_lease c,
      lf_at_ms = co_at_ms c, lf_body = EndFact (Completed (co_at_ms c))\<rparr>"

definition claim_winner :: "(key32, claim_fact) btmap \<Rightarrow> u64 \<Rightarrow> u64 \<Rightarrow> key32 option" where
  "claim_winner claims from_ms until_ms =
     map_option cf_author
       (List.find (\<lambda>c. cf_at_ms c \<ge> from_ms \<and> cf_at_ms c \<le> until_ms) (bt_values claims))"

definition admit_completions ::
  "job_spec \<Rightarrow> (key32, completion_fact) btmap \<Rightarrow> (key32, lease_fact) btmap \<Rightarrow> (key32, lease_fact) btmap" where
  "admit_completions s completions facts =
     fold (\<lambda>(operation, c) m.
        if output_validate_against (co_output c) s \<noteq> Inr () then m
        else bt_insert operation (completion_to_fact operation c) m) completions facts"

definition job_leases_resolve ::
  "gathered_job_leases \<Rightarrow> lease_record option \<Rightarrow> job_spec \<Rightarrow> (key32, claim_fact) btmap \<Rightarrow> lease_record" where
  "job_leases_resolve g base s claims =
     (case js_lease s of
        None \<Rightarrow> []
      | Some terms \<Rightarrow>
          leases_resolve
            \<lparr>gl_grants = gj_grants g,
             gl_facts = admit_completions s (gj_completions g) (gj_facts g)\<rparr>
            (case base of None \<Rightarrow> [] | Some r \<Rightarrow> r) terms (claim_winner claims))"

definition completed_output :: "gathered_job_leases \<Rightarrow> lease_record \<Rightarrow> (key32 \<times> job_output) option" where
  "completed_output g r =
     (case List.find (\<lambda>e. case ep_end e of Some (Completed _) \<Rightarrow> True | _ \<Rightarrow> False) r of
        None \<Rightarrow> None
      | Some e \<Rightarrow>
          (case List.find (\<lambda>c. co_lease c = ep_lease e \<and> co_author c = ep_holder e)
                  (bt_values (gj_completions g)) of
             None \<Rightarrow> None
           | Some c \<Rightarrow> Some (ep_holder e, co_output c)))"

section \<open>The fold\<close>

record gather =
  g_posted :: "(job_id, posted) btmap"
  g_claims :: "(job_id, (key32, claim_fact) btmap) btmap"
  g_results :: "(job_id, (key32, result_record) btmap) btmap"
  g_leases :: "(job_id, gathered_job_leases) btmap"
  g_retained :: "(job_id, lease_record) btmap"
  g_devices :: device_directory

definition gather_empty :: gather where
  "gather_empty =
     \<lparr>g_posted = [], g_claims = [], g_results = [], g_leases = [], g_retained = [], g_devices = []\<rparr>"

definition add_claim :: "job_id \<Rightarrow> key32 \<Rightarrow> claim_fact \<Rightarrow> gather \<Rightarrow> gather" where
  "add_claim j k c s = s\<lparr>g_claims := bt_entry j [] (bt_insert k c) (g_claims s)\<rparr>"

definition add_result :: "job_id \<Rightarrow> key32 \<Rightarrow> result_record \<Rightarrow> gather \<Rightarrow> gather" where
  "add_result j author r s = s\<lparr>g_results := bt_entry j [] (bt_insert author r) (g_results s)\<rparr>"

definition add_grant :: "job_id \<Rightarrow> key32 \<Rightarrow> grant_fact \<Rightarrow> gather \<Rightarrow> gather" where
  "add_grant j k f s =
     s\<lparr>g_leases := bt_entry j no_leases (\<lambda>g. g\<lparr>gj_grants := bt_insert k f (gj_grants g)\<rparr>) (g_leases s)\<rparr>"

definition add_fact :: "job_id \<Rightarrow> key32 \<Rightarrow> lease_fact \<Rightarrow> gather \<Rightarrow> gather" where
  "add_fact j k f s =
     s\<lparr>g_leases := bt_entry j no_leases (\<lambda>g. g\<lparr>gj_facts := bt_insert k f (gj_facts g)\<rparr>) (g_leases s)\<rparr>"

definition add_completion :: "job_id \<Rightarrow> key32 \<Rightarrow> completion_fact \<Rightarrow> gather \<Rightarrow> gather" where
  "add_completion j k f s =
     s\<lparr>g_leases := bt_entry j no_leases (\<lambda>g. g\<lparr>gj_completions := bt_insert k f (gj_completions g)\<rparr>) (g_leases s)\<rparr>"

text \<open>One retained job, seeded into the gather maps under the all-zero claim key.\<close>

definition seed_job :: "job \<Rightarrow> gather \<Rightarrow> gather" where
  "seed_job j s =
     (let s1 = s\<lparr>g_posted :=
            bt_insert (job_id j)
              \<lparr>po_kind = job_kind j, po_payload = job_payload j, po_spec = job_spec j,
               po_by = job_posted_by j\<rparr> (g_posted s)\<rparr>;
          s2 = (if job_lease j = [] then s1
                else s1\<lparr>g_retained := bt_insert (job_id j) (job_lease j) (g_retained s1)\<rparr>);
          s3 = (case state_winner (job_state j) of
                  None \<Rightarrow> s2
                | Some w \<Rightarrow> add_claim (job_id j) 0 \<lparr>cf_author = w, cf_at_ms = 0\<rparr> s2)
      in (case job_state j of
            Done w result \<Rightarrow> add_result (job_id j) w (ResultInline result) s3
          | Committed w output \<Rightarrow> add_result (job_id j) w (ResultCommitted output) s3
          | Posted \<Rightarrow> s3
          | Claimed _ \<Rightarrow> s3))"

text \<open>One decoded event of the operation with hash \<open>hash\<close> by \<open>author\<close>.\<close>

fun gather_event :: "ed25519 \<Rightarrow> key32 \<Rightarrow> key32 \<Rightarrow> mesh_event \<Rightarrow> gather \<Rightarrow> gather" where
  "gather_event ed hash author (JobPosted kind payload _ _) s =
     s\<lparr>g_posted := bt_insert hash
         \<lparr>po_kind = Some kind, po_payload = Some payload, po_spec = None, po_by = author\<rparr> (g_posted s)\<rparr>"
| "gather_event ed hash author (JobPostedV2 sp _ _) s =
     (if spec_validate sp \<noteq> Inr () then s
      else s\<lparr>g_posted := bt_insert hash
         \<lparr>po_kind = None, po_payload = None, po_spec = Some sp, po_by = author\<rparr> (g_posted s)\<rparr>)"
| "gather_event ed hash author (JobClaimed j at_ms) s =
     add_claim j hash \<lparr>cf_author = author, cf_at_ms = at_ms\<rparr> s"
| "gather_event ed hash author (JobDone j result _) s = add_result j author (ResultInline result) s"
| "gather_event ed hash author (JobDoneV2 j output _) s = add_result j author (ResultCommitted output) s"
| "gather_event ed hash author (LeaseGranted j epoch granted expires) s =
     add_grant j hash
       \<lparr>gf_operation = hash, gf_author = author, gf_epoch = epoch, gf_granted_at_ms = granted,
        gf_expires_at_ms = expires\<rparr> s"
| "gather_event ed hash author (LeaseHeartbeat j lease progress at_ms) s =
     add_fact j hash
       \<lparr>lf_operation = hash, lf_author = author, lf_lease = lease, lf_at_ms = at_ms,
        lf_body = HeartbeatFact progress\<rparr> s"
| "gather_event ed hash author (LeaseReleased j lease reason at_ms) s =
     add_fact j hash
       \<lparr>lf_operation = hash, lf_author = author, lf_lease = lease, lf_at_ms = at_ms,
        lf_body = EndFact (Released reason at_ms)\<rparr> s"
| "gather_event ed hash author (LeaseRevokedByOwner j lease reason at_ms) s =
     add_fact j hash
       \<lparr>lf_operation = hash, lf_author = author, lf_lease = lease, lf_at_ms = at_ms,
        lf_body = EndFact (Reclaimed reason at_ms)\<rparr> s"
| "gather_event ed hash author (JobCompletedUnderLease j lease output at_ms) s =
     add_completion j hash
       \<lparr>co_author = author, co_lease = lease, co_at_ms = at_ms, co_output = output\<rparr> s"
| "gather_event ed hash author (DeviceAttested a) s =
     s\<lparr>g_devices := fst (directory_admit ed author a (g_devices s))\<rparr>"
| "gather_event ed hash author (RetentionCheckpoint _) s = s"
| "gather_event ed hash author (HistoryPruned _ _) s = s"

definition gather_op ::
  "'h p2panda \<Rightarrow> ed25519 \<Rightarrow> key32 \<Rightarrow> 'h operation \<Rightarrow> gather \<Rightarrow> gather" where
  "gather_op pp ed mesh oper s =
     (if \<not> verify pp oper then s
      else
        (case from_operation pp oper of
           Inl _ \<Rightarrow> s
         | Inr (i, event) \<Rightarrow>
             if i \<noteq> mesh then s
             else gather_event ed (op_hash oper) (pp_verifying_key pp (op_header oper)) event s))"

text \<open>
  Resolution of one posted job. The source takes the job's leases and retained record out of
  their maps; each job is visited once, so reading them is the same.
\<close>

definition resolve_state ::
  "gather \<Rightarrow> job_id \<Rightarrow> posted \<Rightarrow> gathered_job_leases \<Rightarrow> lease_record \<Rightarrow> job_state" where
  "resolve_state s i post gathered lease =
     (let claims = (case bt_get (g_claims s) i of None \<Rightarrow> [] | Some c \<Rightarrow> c);
          winner = (case claims of [] \<Rightarrow> None | (_, c) # _ \<Rightarrow> Some (cf_author c))
      in (case completed_output gathered lease of
            Some (holder, output) \<Rightarrow> Committed holder output
          | None \<Rightarrow>
              (case (rec_current lease, winner) of
                 (Some epoch, _) \<Rightarrow> Claimed (ep_holder epoch)
               | (None, None) \<Rightarrow> Posted
               | (None, Some w) \<Rightarrow>
                   posted_resolve post w
                     (Option.bind (bt_get (g_results s) i) (\<lambda>r. bt_get r w)))))"

definition resolve_job :: "gather \<Rightarrow> job_id \<Rightarrow> posted \<Rightarrow> job" where
  "resolve_job s i post =
     (let claims = (case bt_get (g_claims s) i of None \<Rightarrow> [] | Some c \<Rightarrow> c);
          gathered = (case bt_get (g_leases s) i of None \<Rightarrow> no_leases | Some g \<Rightarrow> g);
          leased = (case po_spec post of None \<Rightarrow> False | Some sp \<Rightarrow> js_lease sp \<noteq> None);
          lease = (case po_spec post of
                     Some sp \<Rightarrow>
                       if leased then job_leases_resolve gathered (bt_get (g_retained s) i) sp claims
                       else []
                   | None \<Rightarrow> []);
          next_claimants =
            (case (leased, next_epoch lease) of
               (True, Some (_, from_ms)) \<Rightarrow>
                 map (\<lambda>c. \<lparr>cl_author = cf_author c, cl_at_ms = cf_at_ms c\<rparr>)
                   (filter (\<lambda>c. cf_at_ms c \<ge> from_ms) (bt_values claims))
             | _ \<Rightarrow> [])
      in \<lparr>job_id = i, job_kind = po_kind post, job_payload = po_payload post,
          job_spec = po_spec post, job_posted_by = po_by post,
          job_state = resolve_state s i post gathered lease, job_lease = lease,
          job_next_claimants = next_claimants\<rparr>)"

definition resolve_board :: "gather \<Rightarrow> job_board" where
  "resolve_board s =
     \<lparr>board_jobs = map (\<lambda>(i, post). (i, resolve_job s i post)) (g_posted s),
      board_devices = g_devices s\<rparr>"

definition fold_from_snapshot ::
  "'h p2panda \<Rightarrow> ed25519 \<Rightarrow> key32 \<Rightarrow> board_snapshot \<Rightarrow> 'h operation list \<Rightarrow> job_board" where
  "fold_from_snapshot pp ed mesh snap ops =
     resolve_board (fold (gather_op pp ed mesh) ops (fold seed_job snap gather_empty))"

definition board_fold :: "'h p2panda \<Rightarrow> ed25519 \<Rightarrow> key32 \<Rightarrow> 'h operation list \<Rightarrow> job_board" where
  "board_fold pp ed mesh ops = fold_from_snapshot pp ed mesh [] ops"

definition board_job :: "job_board \<Rightarrow> job_id \<Rightarrow> job option" where
  "board_job b i = bt_get (board_jobs b) i"

definition board_at :: "job_board \<Rightarrow> u64 \<Rightarrow> lease_policy \<Rightarrow> (job_id \<times> lease_phase) list" where
  "board_at b at_ms policy = map (\<lambda>j. (job_id j, lease_at j at_ms policy)) (bt_values (board_jobs b))"

definition board_phase_at :: "job_board \<Rightarrow> job_id \<Rightarrow> u64 \<Rightarrow> lease_policy \<Rightarrow> lease_phase option" where
  "board_phase_at b i at_ms policy = map_option (\<lambda>j. lease_at j at_ms policy) (board_job b i)"

definition snapshot_from_board :: "job_board \<Rightarrow> board_snapshot" where
  "snapshot_from_board b = bt_values (board_jobs b)"

section \<open>An instance of the parameters\<close>

text \<open>
  Concrete functions for the third-party parameters, on which the statements about the board
  can be evaluated: a header is an author and a hash, a body is an index into a list of
  events, the log position is the low part of the hash, every operation is valid and addresses
  mesh 7; every byte string is a key and no
  signature verifies.
\<close>

type_synonym demo_header = "key32 \<times> key32"

definition demo_p2panda :: "mesh_event list \<Rightarrow> demo_header p2panda" where
  "demo_p2panda events =
     \<lparr>pp_verifying_key = fst, pp_extensions = (\<lambda>_. \<lparr>mesh_id = 7, prune_flag = False\<rparr>),
      pp_header_hash = snd, pp_seq_num = (\<lambda>h. ucast (snd h)), pp_validate_operation = (\<lambda>_. True),
      pp_decode_event =
        (\<lambda>b. case b of [n] \<Rightarrow> if unat n < length events then Some (events ! unat n) else None
              | _ \<Rightarrow> None),
      pp_encode_event =
        (\<lambda>e. case List.find (\<lambda>n. events ! n = e) [0..<length events] of
               None \<Rightarrow> [] | Some n \<Rightarrow> [of_nat n]),
      pp_build = (\<lambda>seed body seq _ _. (seed, ucast seq))\<rparr>"

definition demo_ed25519 :: ed25519 where
  "demo_ed25519 = \<lparr>vk_bytes = Some, vk_verify = (\<lambda>_ _ _. False)\<rparr>"

definition demo_op :: "key32 \<Rightarrow> key32 \<Rightarrow> u8 \<Rightarrow> demo_header operation" where
  "demo_op author hash n = \<lparr>op_hash = hash, op_header = (author, hash), op_body = Some [n]\<rparr>"

lemmas demo_defs = demo_p2panda_def demo_op_def demo_ed25519_def

lemmas add_defs = add_claim_def add_result_def add_grant_def add_fact_def add_completion_def

text \<open>What evaluating the fold on concrete operations unfolds.\<close>

lemmas gather_eval =
  gather_op_def from_operation_def verify_def gather_empty_def add_defs no_leases_def bt_entry_def
  bt_get_def

lemmas resolve_eval =
  board_fold_def fold_from_snapshot_def resolve_board_def resolve_job_def resolve_state_def
  completed_output_def posted_resolve_def rec_current_def bt_values_def

end
