(* ===== verification/Mesh_Convergence.thy ===== *)
theory Mesh_Convergence
  imports Mesh_Board
begin

text \<open>
  Convergence of the job board. Every operation writes at most one slot of the gather maps;
  writes to different slots commute and a repeated write changes nothing, so two replicas
  that hold the same operations fold the same board, whatever the order of arrival, unless
  two of the operations write different values to one slot.
\<close>

section \<open>The write an operation makes\<close>

datatype slot_write =
    WPosted job_id posted
  | WClaim job_id key32 claim_fact
  | WResult job_id key32 result_record
  | WGrant job_id key32 grant_fact
  | WFact job_id key32 lease_fact
  | WCompletion job_id key32 completion_fact
  | WDevice key32 key32

datatype slot =
    SPosted job_id | SClaim job_id key32 | SResult job_id key32 | SGrant job_id key32
  | SFact job_id key32 | SCompletion job_id key32 | SDevice key32

fun write_slot :: "slot_write \<Rightarrow> slot" where
  "write_slot (WPosted j _) = SPosted j"
| "write_slot (WClaim j k _) = SClaim j k"
| "write_slot (WResult j k _) = SResult j k"
| "write_slot (WGrant j k _) = SGrant j k"
| "write_slot (WFact j k _) = SFact j k"
| "write_slot (WCompletion j k _) = SCompletion j k"
| "write_slot (WDevice a _) = SDevice a"

fun apply_write :: "slot_write \<Rightarrow> gather \<Rightarrow> gather" where
  "apply_write (WPosted j p) s = s\<lparr>g_posted := bt_insert j p (g_posted s)\<rparr>"
| "apply_write (WClaim j k c) s = add_claim j k c s"
| "apply_write (WResult j k r) s = add_result j k r s"
| "apply_write (WGrant j k f) s = add_grant j k f s"
| "apply_write (WFact j k f) s = add_fact j k f s"
| "apply_write (WCompletion j k f) s = add_completion j k f s"
| "apply_write (WDevice a m) s = s\<lparr>g_devices := bt_insert a m (g_devices s)\<rparr>"

fun event_write :: "ed25519 \<Rightarrow> key32 \<Rightarrow> key32 \<Rightarrow> mesh_event \<Rightarrow> slot_write option" where
  "event_write ed hash author (JobPosted kind payload _ _) =
     Some (WPosted hash
       \<lparr>po_kind = Some kind, po_payload = Some payload, po_spec = None, po_by = author\<rparr>)"
| "event_write ed hash author (JobPostedV2 sp _ _) =
     (if spec_validate sp \<noteq> Inr () then None
      else Some (WPosted hash
       \<lparr>po_kind = None, po_payload = None, po_spec = Some sp, po_by = author\<rparr>))"
| "event_write ed hash author (JobClaimed j at_ms) =
     Some (WClaim j hash \<lparr>cf_author = author, cf_at_ms = at_ms\<rparr>)"
| "event_write ed hash author (JobDone j result _) = Some (WResult j author (ResultInline result))"
| "event_write ed hash author (JobDoneV2 j output _) = Some (WResult j author (ResultCommitted output))"
| "event_write ed hash author (LeaseGranted j epoch granted expires) =
     Some (WGrant j hash
       \<lparr>gf_operation = hash, gf_author = author, gf_epoch = epoch, gf_granted_at_ms = granted,
        gf_expires_at_ms = expires\<rparr>)"
| "event_write ed hash author (LeaseHeartbeat j lease progress at_ms) =
     Some (WFact j hash
       \<lparr>lf_operation = hash, lf_author = author, lf_lease = lease, lf_at_ms = at_ms,
        lf_body = HeartbeatFact progress\<rparr>)"
| "event_write ed hash author (LeaseReleased j lease reason at_ms) =
     Some (WFact j hash
       \<lparr>lf_operation = hash, lf_author = author, lf_lease = lease, lf_at_ms = at_ms,
        lf_body = EndFact (Released reason at_ms)\<rparr>)"
| "event_write ed hash author (LeaseRevokedByOwner j lease reason at_ms) =
     Some (WFact j hash
       \<lparr>lf_operation = hash, lf_author = author, lf_lease = lease, lf_at_ms = at_ms,
        lf_body = EndFact (Reclaimed reason at_ms)\<rparr>)"
| "event_write ed hash author (JobCompletedUnderLease j lease output at_ms) =
     Some (WCompletion j hash
       \<lparr>co_author = author, co_lease = lease, co_at_ms = at_ms, co_output = output\<rparr>)"
| "event_write ed hash author (DeviceAttested a) =
     (if attests ed author a then map_option (WDevice author) (master_public_key ed a) else None)"
| "event_write ed hash author (RetentionCheckpoint _) = None"
| "event_write ed hash author (HistoryPruned _ _) = None"

definition op_write :: "'h p2panda \<Rightarrow> ed25519 \<Rightarrow> key32 \<Rightarrow> 'h operation \<Rightarrow> slot_write option" where
  "op_write pp ed mesh oper =
     (if \<not> verify pp oper then None
      else
        (case from_operation pp oper of
           Inl _ \<Rightarrow> None
         | Inr (i, event) \<Rightarrow>
             if i \<noteq> mesh then None
             else event_write ed (op_hash oper) (pp_verifying_key pp (op_header oper)) event))"

definition write_opt :: "slot_write option \<Rightarrow> gather \<Rightarrow> gather" where
  "write_opt w s = (case w of None \<Rightarrow> s | Some v \<Rightarrow> apply_write v s)"

lemma gather_event_write: "gather_event ed hash author ev s = write_opt (event_write ed hash author ev) s"
  by (cases ev) (auto simp: write_opt_def directory_admit_def split: option.split)

lemma gather_op_write: "gather_op pp ed mesh oper s = write_opt (op_write pp ed mesh oper) s"
  by (auto simp: gather_op_def op_write_def gather_event_write write_opt_def split: sum.split option.split)

section \<open>Writes commute\<close>

definition leases_inv :: "gathered_job_leases \<Rightarrow> bool" where
  "leases_inv g \<longleftrightarrow> bt_inv (gj_grants g) \<and> bt_inv (gj_facts g) \<and> bt_inv (gj_completions g)"

definition gather_inv :: "gather \<Rightarrow> bool" where
  "gather_inv s \<longleftrightarrow>
     bt_inv (g_posted s) \<and> bt_all bt_inv (g_claims s) \<and> bt_all bt_inv (g_results s)
     \<and> bt_all leases_inv (g_leases s) \<and> bt_inv (g_retained s) \<and> bt_inv (g_devices s)"

lemma no_leases_inv [simp]: "leases_inv no_leases"
  by (simp add: leases_inv_def no_leases_def)

lemma gather_empty_inv [simp]: "gather_inv gather_empty"
  by (simp add: gather_inv_def gather_empty_def)

lemma apply_write_inv: "gather_inv s \<Longrightarrow> gather_inv (apply_write w s)"
  by (cases w) (auto simp: gather_inv_def add_defs leases_inv_def no_leases_def intro!: bt_all_entry)

definition agree :: "slot_write \<Rightarrow> slot_write \<Rightarrow> bool" where
  "agree v w \<longleftrightarrow> (write_slot v = write_slot w \<longrightarrow> v = w)"

lemma nested_default:
  "gather_inv s \<Longrightarrow> bt_inv (case bt_get (g_claims s) j of None \<Rightarrow> [] | Some v \<Rightarrow> v)"
  "gather_inv s \<Longrightarrow> bt_inv (case bt_get (g_results s) j of None \<Rightarrow> [] | Some v \<Rightarrow> v)"
  "gather_inv s \<Longrightarrow> leases_inv (case bt_get (g_leases s) j of None \<Rightarrow> no_leases | Some v \<Rightarrow> v)"
  by (auto simp: gather_inv_def intro: bt_all_default)

lemma gather_inv_maps:
  "gather_inv s \<Longrightarrow> bt_inv (g_posted s)" "gather_inv s \<Longrightarrow> bt_inv (g_claims s)"
  "gather_inv s \<Longrightarrow> bt_inv (g_results s)" "gather_inv s \<Longrightarrow> bt_inv (g_leases s)"
  "gather_inv s \<Longrightarrow> bt_inv (g_devices s)"
  by (auto simp: gather_inv_def bt_all_inv)

lemma leases_inv_maps:
  "leases_inv g \<Longrightarrow> bt_inv (gj_grants g)" "leases_inv g \<Longrightarrow> bt_inv (gj_facts g)"
  "leases_inv g \<Longrightarrow> bt_inv (gj_completions g)"
  by (simp_all add: leases_inv_def)

text \<open>Two changes of the lease facts of a job commute when they commute on every entry.\<close>

lemma leases_entry_commute:
  assumes "gather_inv s" "\<And>g. j = i \<Longrightarrow> leases_inv g \<Longrightarrow> f (h g) = h (f g)"
  shows "bt_entry j no_leases f (bt_entry i no_leases h (g_leases s))
    = bt_entry i no_leases h (bt_entry j no_leases f (g_leases s))"
  by (rule bt_entry_commute) (auto simp: gather_inv_maps assms nested_default)

lemma nested_entry_commute:
  assumes "bt_all bt_inv m" "i = j \<Longrightarrow> k = l \<Longrightarrow> v = w"
  shows "bt_entry i [] (bt_insert k v) (bt_entry j [] (bt_insert l w) m)
    = bt_entry j [] (bt_insert l w) (bt_entry i [] (bt_insert k v) m)"
proof (rule bt_entry_commute)
  show "bt_inv m" using assms(1) by (rule bt_all_inv)
  assume "i = j"
  have "bt_inv (case bt_get m i of None \<Rightarrow> [] | Some v \<Rightarrow> v)"
    by (rule bt_all_default [OF assms(1)]) simp
  with \<open>i = j\<close> assms(2)
  show "bt_insert k v (bt_insert l w (case bt_get m i of None \<Rightarrow> [] | Some v \<Rightarrow> v))
    = bt_insert l w (bt_insert k v (case bt_get m i of None \<Rightarrow> [] | Some v \<Rightarrow> v))"
    by (intro bt.ins_consistent)
qed

lemma leases_insert_commute:
  "leases_inv g \<Longrightarrow> (k = l \<Longrightarrow> x = y) \<Longrightarrow>
     bt_insert k x (bt_insert l y (gj_grants g)) = bt_insert l y (bt_insert k x (gj_grants g))"
  "leases_inv g \<Longrightarrow> (k = l \<Longrightarrow> x' = y') \<Longrightarrow>
     bt_insert k x' (bt_insert l y' (gj_facts g)) = bt_insert l y' (bt_insert k x' (gj_facts g))"
  "leases_inv g \<Longrightarrow> (k = l \<Longrightarrow> x'' = y'') \<Longrightarrow>
     bt_insert k x'' (bt_insert l y'' (gj_completions g)) = bt_insert l y'' (bt_insert k x'' (gj_completions g))"
  by (simp_all add: leases_inv_def bt.ins_consistent)

lemma agree_same:
  "agree (WPosted j p) (WPosted i q) \<longleftrightarrow> (j = i \<longrightarrow> p = q)"
  "agree (WClaim j k c) (WClaim i l d) \<longleftrightarrow> (j = i \<longrightarrow> k = l \<longrightarrow> c = d)"
  "agree (WResult j k r) (WResult i l r') \<longleftrightarrow> (j = i \<longrightarrow> k = l \<longrightarrow> r = r')"
  "agree (WGrant j k f) (WGrant i l f') \<longleftrightarrow> (j = i \<longrightarrow> k = l \<longrightarrow> f = f')"
  "agree (WFact j k x) (WFact i l x') \<longleftrightarrow> (j = i \<longrightarrow> k = l \<longrightarrow> x = x')"
  "agree (WCompletion j k y) (WCompletion i l y') \<longleftrightarrow> (j = i \<longrightarrow> k = l \<longrightarrow> y = y')"
  "agree (WDevice a m) (WDevice b n) \<longleftrightarrow> (a = b \<longrightarrow> m = n)"
  by (auto simp: agree_def)

lemma claim_commute:
  "gather_inv s \<Longrightarrow> agree (WClaim j k c) (WClaim i l d) \<Longrightarrow>
     add_claim j k c (add_claim i l d s) = add_claim i l d (add_claim j k c s)"
  by (simp add: add_claim_def agree_same gather_inv_def nested_entry_commute)

lemma result_commute:
  "gather_inv s \<Longrightarrow> agree (WResult j k c) (WResult i l d) \<Longrightarrow>
     add_result j k c (add_result i l d s) = add_result i l d (add_result j k c s)"
  by (simp add: add_result_def agree_same gather_inv_def nested_entry_commute)

lemma lease_commute:
  assumes "gather_inv s"
  shows "agree (WGrant j k f) (WGrant i l f') \<Longrightarrow>
      add_grant j k f (add_grant i l f' s) = add_grant i l f' (add_grant j k f s)"
    and "agree (WFact j k x) (WFact i l x') \<Longrightarrow>
      add_fact j k x (add_fact i l x' s) = add_fact i l x' (add_fact j k x s)"
    and "agree (WCompletion j k y) (WCompletion i l y') \<Longrightarrow>
      add_completion j k y (add_completion i l y' s) = add_completion i l y' (add_completion j k y s)"
    and "add_grant j k f (add_fact i l x s) = add_fact i l x (add_grant j k f s)"
    and "add_grant j k f (add_completion i l y s) = add_completion i l y (add_grant j k f s)"
    and "add_fact j k x (add_completion i l y s) = add_completion i l y (add_fact j k x s)"
  unfolding add_defs agree_same
  by (simp_all add: leases_entry_commute [OF assms] leases_insert_commute)

text \<open>Writes to different maps commute because they touch different fields.\<close>

fun write_map :: "slot_write \<Rightarrow> nat" where
  "write_map (WPosted _ _) = 0"
| "write_map (WClaim _ _ _) = 1"
| "write_map (WResult _ _ _) = 2"
| "write_map (WGrant _ _ _) = 3"
| "write_map (WFact _ _ _) = 3"
| "write_map (WCompletion _ _ _) = 3"
| "write_map (WDevice _ _) = 4"

lemma apply_write_apart:
  "write_map v \<noteq> write_map w \<Longrightarrow> apply_write v (apply_write w s) = apply_write w (apply_write v s)"
  by (cases v; cases w) (simp_all add: add_defs)

lemma apply_write_commute:
  assumes "gather_inv s" "agree v w"
  shows "apply_write v (apply_write w s) = apply_write w (apply_write v s)"
proof (cases "write_map v = write_map w")
  case True
  note commutes = lease_commute [OF assms(1)] claim_commute [OF assms(1)] result_commute [OF assms(1)]
    bt.ins_consistent [OF gather_inv_maps(1) [OF assms(1)]]
    bt.ins_consistent [OF gather_inv_maps(5) [OF assms(1)]]
  from assms(2) have "agree w v" by (auto simp: agree_def)
  with True assms(2) show ?thesis
    by (cases v; cases w) (simp_all add: commutes agree_same)
qed (rule apply_write_apart)

text \<open>A write repeated is a write made once.\<close>

lemma apply_write_idem:
  assumes "gather_inv s"
  shows "apply_write w (apply_write w s) = apply_write w s"
  using nested_default [OF assms] gather_inv_maps [OF assms]
  by (cases w) (simp_all add: add_defs leases_inv_maps bt.ins_overwrite bt_entry_idem)

section \<open>The board converges\<close>

definition op_agree :: "'h p2panda \<Rightarrow> ed25519 \<Rightarrow> key32 \<Rightarrow> 'h operation \<Rightarrow> 'h operation \<Rightarrow> bool" where
  "op_agree pp ed mesh x y \<longleftrightarrow>
     (case (op_write pp ed mesh x, op_write pp ed mesh y) of
        (Some v, Some w) \<Rightarrow> agree v w
      | _ \<Rightarrow> True)"

interpretation bg: convergent_fold "gather_op pp ed mesh" gather_inv "op_agree pp ed mesh" for pp ed mesh
  by unfold_locales
    (auto simp: gather_op_write write_opt_def op_agree_def apply_write_inv apply_write_idem
      intro: apply_write_commute split: option.splits)

lemma seed_job_inv: "gather_inv s \<Longrightarrow> gather_inv (seed_job j s)"
  by (auto simp: gather_inv_def seed_job_def Let_def add_defs
      split: option.split job_state.split intro!: bt_all_entry)

lemma seed_jobs_inv: "gather_inv s \<Longrightarrow> gather_inv (fold seed_job js s)"
  by (induction js arbitrary: s) (simp_all add: seed_job_inv)

lemma gathered_inv: "gather_inv (fold (gather_op pp ed mesh) ops (fold seed_job snap gather_empty))"
  by (intro bg.fold_inv seed_jobs_inv gather_empty_inv)

text \<open>
  Slots keyed by an operation hash are only written twice by one operation. The other two
  kinds of slot, a result and a device entry, are keyed by author: an author that signs two
  different values for one of them equivocates.
\<close>

definition equivocate :: "'h p2panda \<Rightarrow> ed25519 \<Rightarrow> key32 \<Rightarrow> 'h operation \<Rightarrow> 'h operation \<Rightarrow> bool" where
  "equivocate pp ed mesh x y \<longleftrightarrow>
     (case (op_write pp ed mesh x, op_write pp ed mesh y) of
        (Some (WResult j a r), Some (WResult j' a' r')) \<Rightarrow> j = j' \<and> a = a' \<and> r \<noteq> r'
      | (Some (WDevice a m), Some (WDevice a' m')) \<Rightarrow> a = a' \<and> m \<noteq> m'
      | _ \<Rightarrow> False)"

fun keyed_by_hash :: "key32 \<Rightarrow> slot_write \<Rightarrow> bool" where
  "keyed_by_hash h (WPosted k _) = (k = h)"
| "keyed_by_hash h (WClaim _ k _) = (k = h)"
| "keyed_by_hash h (WGrant _ k _) = (k = h)"
| "keyed_by_hash h (WFact _ k _) = (k = h)"
| "keyed_by_hash h (WCompletion _ k _) = (k = h)"
| "keyed_by_hash h (WResult _ _ _) = True"
| "keyed_by_hash h (WDevice _ _) = True"

lemma event_write_keyed: "event_write ed hash author ev = Some w \<Longrightarrow> keyed_by_hash hash w"
  by (cases ev) (auto split: if_splits option.splits)

lemma op_write_keyed: "op_write pp ed mesh x = Some w \<Longrightarrow> keyed_by_hash (op_hash x) w"
  by (auto simp: op_write_def event_write_keyed split: if_splits sum.splits)

lemma op_agreeI:
  assumes "op_hash x = op_hash y \<Longrightarrow> x = y" "\<not> equivocate pp ed mesh x y"
  shows "op_agree pp ed mesh x y"
proof (cases "op_write pp ed mesh x"; cases "op_write pp ed mesh y")
  fix v w
  assume vw: "op_write pp ed mesh x = Some v" "op_write pp ed mesh y = Some w"
  have "agree v w"
    using assms vw op_write_keyed [OF vw(1)] op_write_keyed [OF vw(2)]
    by (cases v; cases w) (auto simp: agree_def equivocate_def)
  with vw show ?thesis by (simp add: op_agree_def)
qed (simp_all add: op_agree_def)

definition no_collision :: "'h operation list \<Rightarrow> bool" where
  "no_collision ops \<longleftrightarrow> (\<forall>x \<in> set ops. \<forall>y \<in> set ops. op_hash x = op_hash y \<longrightarrow> x = y)"

definition no_equivocation :: "'h p2panda \<Rightarrow> ed25519 \<Rightarrow> key32 \<Rightarrow> 'h operation list \<Rightarrow> bool" where
  "no_equivocation pp ed mesh ops \<longleftrightarrow>
     (\<forall>x \<in> set ops. \<forall>y \<in> set ops. \<not> equivocate pp ed mesh x y)"

definition demo_race :: "mesh_event list" where
  "demo_race =
     [JobPosted Echo [1] 0 10, JobClaimed 5 20, JobClaimed 5 21, JobDone 5 [1] 30, JobDone 5 [2] 31]"

definition demo_first :: "demo_header operation list" where
  "demo_first = [demo_op 1 5 0, demo_op 3 6 2, demo_op 3 8 3, demo_op 3 9 4]"

definition demo_second :: "demo_header operation list" where
  "demo_second = [demo_op 1 5 0, demo_op 3 6 2, demo_op 3 9 4, demo_op 3 8 3]"

text \<open>
  C1. The fold is order-independent: two replicas that hold the same set of operations,
  received in any order and any number of times, compute the same board from the same
  checkpoint snapshot, provided no two of the operations share a hash and no author signed
  two different results for one job or two different master keys for its device.
\<close>

theorem fold_order_independent:
  assumes "set xs = set ys" "no_collision xs" "no_equivocation pp ed mesh xs"
  shows "fold_from_snapshot pp ed mesh snap xs = fold_from_snapshot pp ed mesh snap ys"
proof -
  have "\<forall>x \<in> set xs. \<forall>y \<in> set xs. op_agree pp ed mesh x y"
    using assms(2,3) by (auto simp: no_collision_def no_equivocation_def intro!: op_agreeI)
  with assms(1) show ?thesis
    unfolding fold_from_snapshot_def
    by (intro arg_cong [where f = resolve_board] bg.fold_set_cong seed_jobs_inv gather_empty_inv)
qed

theorem fold_order_independent_witness:
  "fold_from_snapshot (demo_p2panda demo_race) demo_ed25519 7 []
     [demo_op 1 5 0, demo_op 2 9 1, demo_op 3 6 2, demo_op 3 8 3]
   = fold_from_snapshot (demo_p2panda demo_race) demo_ed25519 7 []
     [demo_op 3 8 3, demo_op 3 6 2, demo_op 1 5 0, demo_op 2 9 1, demo_op 3 6 2]"
  by (rule fold_order_independent)
    (fastforce, simp_all add: no_collision_def no_equivocation_def equivocate_def op_write_def gather_eval
      demo_defs demo_race_def)

text \<open>
  C40. The proviso on equivocation is needed: when the claim winner signs two different results
  for one job, the order of arrival can decide which one the board shows. On the demonstration
  mesh two replicas hold the same four verified operations with distinct hashes, among them the
  results 1 and 2 of device 3. Results are kept per author and the last one gathered replaces
  the first: the replica that gathers result 2 last shows the job as done with 2, and the one
  that gathers result 1 last shows it as done with 1.
\<close>

theorem fold_depends_on_order_of_results:
  "set demo_first = set demo_second
   \<and> no_collision demo_first \<and> list_all (verify (demo_p2panda demo_race)) demo_first
   \<and> map_option job_state (board_job (board_fold (demo_p2panda demo_race) demo_ed25519 7 demo_first) 5)
     = Some (Done 3 [2])
   \<and> map_option job_state (board_job (board_fold (demo_p2panda demo_race) demo_ed25519 7 demo_second) 5)
     = Some (Done 3 [1])"
proof (intro conjI)
  show "set demo_first = set demo_second"
    unfolding demo_first_def demo_second_def by fastforce
  show "no_collision demo_first"
    by (simp add: demo_first_def no_collision_def demo_op_def)
  show "list_all (verify (demo_p2panda demo_race)) demo_first"
    by (simp add: demo_first_def verify_def demo_defs)
qed (simp_all add: demo_first_def demo_second_def board_job_def gather_eval resolve_eval demo_defs demo_race_def)

end
