(* ===== verification/Mesh_Provenance.thy ===== *)
theory Mesh_Provenance
  imports Mesh_Convergence
begin

text \<open>
  Where the facts of a folded board come from: every posting, claim, result, grant, lease
  fact and completion the board rests on was written by a verified operation of the folded
  set, addressed to the mesh and signed by the author the board names. On top of it, the
  lease chain of every job of the board, its claim winner and its terminal state.
\<close>

section \<open>Facts come from operations\<close>

fun present :: "slot_write \<Rightarrow> gather \<Rightarrow> bool" where
  "present (WPosted j p) s = (bt_get (g_posted s) j = Some p)"
| "present (WClaim j k c) s =
     (case bt_get (g_claims s) j of None \<Rightarrow> False | Some m \<Rightarrow> bt_get m k = Some c)"
| "present (WResult j k r) s =
     (case bt_get (g_results s) j of None \<Rightarrow> False | Some m \<Rightarrow> bt_get m k = Some r)"
| "present (WGrant j k f) s =
     (case bt_get (g_leases s) j of None \<Rightarrow> False | Some g \<Rightarrow> bt_get (gj_grants g) k = Some f)"
| "present (WFact j k f) s =
     (case bt_get (g_leases s) j of None \<Rightarrow> False | Some g \<Rightarrow> bt_get (gj_facts g) k = Some f)"
| "present (WCompletion j k f) s =
     (case bt_get (g_leases s) j of None \<Rightarrow> False | Some g \<Rightarrow> bt_get (gj_completions g) k = Some f)"
| "present (WDevice a m) s = (bt_get (g_devices s) a = Some m)"

lemma present_empty [simp]: "\<not> present w gather_empty"
  by (cases w) (simp_all add: gather_empty_def)

lemma bt_get_Cons: "bt_get ((k, v) # m) l = (if l = k then Some v else bt_get m l)"
  by (simp add: bt_get_def)

lemma bt_get_entry:
  "bt_get (bt_entry k d f m) l =
     (if l = k then Some (f (case bt_get m k of None \<Rightarrow> d | Some v \<Rightarrow> v)) else bt_get m l)"
  by (simp add: bt_entry_def bt_get_insert)

lemma present_apply: "present w (apply_write v s) \<Longrightarrow> present w s \<or> w = v"
  by (cases v; cases w)
    (auto simp: add_defs bt_get_entry bt_get_insert bt_get_Cons no_leases_def
      split: option.splits if_splits)

lemma present_gather:
  "present w (gather_op pp ed mesh x s) \<Longrightarrow> present w s \<or> op_write pp ed mesh x = Some w"
  by (auto simp: gather_op_write write_opt_def dest: present_apply split: option.splits)

lemma present_fold:
  "present w (fold (gather_op pp ed mesh) ops s) \<Longrightarrow>
     present w s \<or> (\<exists>x \<in> set ops. op_write pp ed mesh x = Some w)"
proof (induction ops arbitrary: s)
  case (Cons x ops)
  then have "present w (gather_op pp ed mesh x s) \<or> (\<exists>y \<in> set ops. op_write pp ed mesh y = Some w)"
    by simp
  then show ?case
    using present_gather [of w pp ed mesh x s] by auto
qed simp

text \<open>The state the board resolves, and the operations behind its facts.\<close>

definition gathered :: "'h p2panda \<Rightarrow> ed25519 \<Rightarrow> key32 \<Rightarrow> 'h operation list \<Rightarrow> gather" where
  "gathered pp ed mesh ops = fold (gather_op pp ed mesh) ops gather_empty"

lemma gathered_present:
  "present w (gathered pp ed mesh ops) \<Longrightarrow> \<exists>x \<in> set ops. op_write pp ed mesh x = Some w"
  unfolding gathered_def by (drule present_fold) simp

lemma gathered_inv_empty: "gather_inv (gathered pp ed mesh ops)"
  unfolding gathered_def by (intro bg.fold_inv gather_empty_inv)

text \<open>An operation of the mesh: verified, addressed to it, carrying an event by an author.\<close>

definition says :: "'h p2panda \<Rightarrow> key32 \<Rightarrow> 'h operation \<Rightarrow> key32 \<Rightarrow> mesh_event \<Rightarrow> bool" where
  "says pp mesh x author event \<longleftrightarrow>
     verify pp x \<and> from_operation pp x = Inr (mesh, event)
     \<and> pp_verifying_key pp (op_header x) = author"

lemma op_write_says:
  "op_write pp ed mesh x = Some w \<Longrightarrow>
     \<exists>author ev. says pp mesh x author ev \<and> event_write ed (op_hash x) author ev = Some w"
  by (auto simp: op_write_def says_def split: if_splits sum.splits)

lemma event_write_claim:
  "event_write ed h a ev = Some (WClaim j k c) \<Longrightarrow>
     ev = JobClaimed j (cf_at_ms c) \<and> k = h \<and> cf_author c = a"
  by (cases ev) (auto split: if_splits option.splits)

lemma event_write_grant:
  "event_write ed h a ev = Some (WGrant j k f) \<Longrightarrow>
     ev = LeaseGranted j (gf_epoch f) (gf_granted_at_ms f) (gf_expires_at_ms f)
     \<and> k = h \<and> gf_operation f = h \<and> gf_author f = a"
  by (cases ev) (auto split: if_splits option.splits)

lemma event_write_fact: "event_write ed h a ev = Some (WFact j k f) \<Longrightarrow> fact_wf f"
  by (cases ev) (auto simp: fact_wf_def split: if_splits option.splits)

lemma event_write_completion:
  "event_write ed h a ev = Some (WCompletion j k c) \<Longrightarrow>
     ev = JobCompletedUnderLease j (co_lease c) (co_output c) (co_at_ms c) \<and> k = h \<and> co_author c = a"
  by (cases ev) (auto split: if_splits option.splits)

lemma event_write_result:
  "event_write ed h a ev = Some (WResult j k r) \<Longrightarrow>
     k = a \<and> (case r of ResultInline b \<Rightarrow> \<exists>t. ev = JobDone j b t
                        | ResultCommitted out \<Rightarrow> \<exists>t. ev = JobDoneV2 j out t)"
  by (cases ev) (auto split: if_splits option.splits)

lemma event_write_posted:
  "event_write ed h a ev = Some (WPosted k p) \<Longrightarrow>
     k = h \<and> po_by p = a \<and> (case po_spec p of None \<Rightarrow> True | Some sp \<Rightarrow> spec_validate sp = Inr ())"
  by (cases ev) (auto split: if_splits option.splits)

lemmas event_write_inv =
  event_write_claim event_write_grant event_write_fact event_write_completion event_write_result
  event_write_posted

declare present.simps [simp del]

section \<open>Jobs of the board\<close>

lemma bt_get_map_entries: "bt_get (map (\<lambda>(i, p). (i, f i p)) m) i = map_option (f i) (bt_get m i)"
  unfolding bt_get_def by (induction m) auto

lemma board_job_iff:
  "board_job (board_fold pp ed mesh ops) i = Some j \<longleftrightarrow>
     (\<exists>post. present (WPosted i post) (gathered pp ed mesh ops)
        \<and> j = resolve_job (gathered pp ed mesh ops) i post)"
  by (auto simp: board_job_def board_fold_def fold_from_snapshot_def resolve_board_def
      bt_get_map_entries gathered_def present.simps)

definition job_claims :: "gather \<Rightarrow> job_id \<Rightarrow> (key32, claim_fact) btmap" where
  "job_claims s i = (case bt_get (g_claims s) i of None \<Rightarrow> [] | Some c \<Rightarrow> c)"

definition job_facts :: "gather \<Rightarrow> job_id \<Rightarrow> gathered_job_leases" where
  "job_facts s i = (case bt_get (g_leases s) i of None \<Rightarrow> no_leases | Some g \<Rightarrow> g)"

lemma resolve_job_spec [simp]: "Mesh_Board.job_spec (resolve_job s i post) = po_spec post"
  by (simp add: resolve_job_def Let_def)

lemma resolve_job_lease:
  "job_lease (resolve_job s i post) =
     (case po_spec post of
        None \<Rightarrow> []
      | Some sp \<Rightarrow>
          if js_lease sp = None then []
          else job_leases_resolve (job_facts s i) (bt_get (g_retained s) i) sp (job_claims s i))"
  by (auto simp: resolve_job_def Let_def job_claims_def job_facts_def split: option.split)

lemma resolve_job_state:
  "job_state (resolve_job s i post) =
     resolve_state s i post (job_facts s i) (job_lease (resolve_job s i post))"
  by (auto simp: resolve_job_def Let_def job_facts_def split: option.split)

lemma apply_write_retained [simp]: "g_retained (apply_write w s) = g_retained s"
  by (cases w) (simp_all add: add_defs)

lemma gathered_retained [simp]: "g_retained (gathered pp ed mesh ops) = []"
proof -
  have "g_retained (fold (gather_op pp ed mesh) ops s) = g_retained s" for s
    by (induction ops arbitrary: s) (simp_all add: gather_op_write write_opt_def split: option.split)
  then show ?thesis by (simp add: gathered_def gather_empty_def)
qed

lemma job_claims_inv: "gather_inv s \<Longrightarrow> bt_inv (job_claims s i)"
  unfolding job_claims_def by (rule nested_default)

lemma job_facts_inv: "gather_inv s \<Longrightarrow> leases_inv (job_facts s i)"
  unfolding job_facts_def by (rule nested_default)

lemma job_claims_present: "bt_get (job_claims s i) k = Some c \<longleftrightarrow> present (WClaim i k c) s"
  by (simp add: job_claims_def present.simps split: option.split)

lemma job_facts_present:
  "bt_get (gj_grants (job_facts s i)) k = Some f \<longleftrightarrow> present (WGrant i k f) s"
  "bt_get (gj_facts (job_facts s i)) k = Some x \<longleftrightarrow> present (WFact i k x) s"
  "bt_get (gj_completions (job_facts s i)) k = Some y \<longleftrightarrow> present (WCompletion i k y) s"
  by (simp_all add: job_facts_def no_leases_def present.simps split: option.split)

section \<open>The lease chain of a job\<close>

lemma completion_to_fact_wf [simp]: "fact_wf (completion_to_fact k c)"
  by (simp add: completion_to_fact_def fact_wf_def)

lemma admit_completions_wf:
  "list_all fact_wf (bt_values facts) \<Longrightarrow> list_all fact_wf (bt_values (admit_completions sp cs facts))"
  unfolding admit_completions_def
  by (induction cs arbitrary: facts) (auto simp: list_all_bt_insert)

lemma gathered_said:
  "present w (gathered pp ed mesh ops) \<Longrightarrow>
     \<exists>x \<in> set ops. \<exists>a ev. says pp mesh x a ev \<and> event_write ed (op_hash x) a ev = Some w"
  by (drule gathered_present) (blast dest: op_write_says)

lemma gathered_fact_wf: "present (WFact i k f) (gathered pp ed mesh ops) \<Longrightarrow> fact_wf f"
  by (drule gathered_said) (blast dest: event_write_fact)

lemma job_facts_wf:
  "list_all fact_wf (bt_values (gj_facts (job_facts (gathered pp ed mesh ops) i)))"
proof -
  have "bt_inv (gj_facts (job_facts (gathered pp ed mesh ops) i))"
    by (intro leases_inv_maps job_facts_inv gathered_inv_empty)
  then show ?thesis
    by (auto simp: list_all_iff bt_values_nth job_facts_present intro: gathered_fact_wf)
qed

lemma job_leases_resolve_Some:
  "js_lease sp = Some terms \<Longrightarrow>
     job_leases_resolve g None sp claims =
       leases_resolve \<lparr>gl_grants = gj_grants g,
          gl_facts = admit_completions sp (gj_completions g) (gj_facts g)\<rparr> [] terms (claim_winner claims)"
  by (simp add: job_leases_resolve_def)

lemma gathered_chain:
  "js_lease sp = Some terms \<Longrightarrow>
     chain_ok terms
       (job_leases_resolve (job_facts (gathered pp ed mesh ops) i) None sp claims)"
  by (simp add: job_leases_resolve_Some leases_resolve_chain_ok facts_wf_def admit_completions_wf
      job_facts_wf)

lemma board_job_chain:
  assumes "board_job (board_fold pp ed mesh ops) i = Some j" "job_lease_terms j = Some terms"
  shows "chain_ok terms (job_lease j)"
proof -
  obtain post sp where "j = resolve_job (gathered pp ed mesh ops) i post"
    "po_spec post = Some sp" "js_lease sp = Some terms"
    using assms by (auto simp: board_job_iff job_lease_terms_def Option.bind_eq_Some_conv)
  then show ?thesis
    by (simp add: resolve_job_lease gathered_chain)
qed

lemma board_job_unleased:
  assumes "board_job (board_fold pp ed mesh ops) i = Some j" "job_lease_terms j = None"
  shows "job_lease j = []"
  using assms by (auto simp: board_job_iff job_lease_terms_def resolve_job_lease split: option.splits)

text \<open>Every epoch of a resolved record is one of the gathered grants.\<close>

definition granted_by :: "gathered_leases \<Rightarrow> lease_epoch \<Rightarrow> bool" where
  "granted_by g e \<longleftrightarrow> (\<exists>gr \<in> set (bt_values (gl_grants g)). same_window e (epoch_of_grant gr))"

lemma same_window_trans: "same_window a b \<Longrightarrow> same_window b c \<Longrightarrow> same_window a c"
  by (simp add: same_window_def)

lemma apply_facts_granted:
  assumes "\<forall>e \<in> set r. granted_by g e"
  shows "\<forall>e \<in> set (apply_facts g r). granted_by g e"
proof (cases r rule: rev_cases)
  case (snoc r' l)
  with assms obtain gr where "gr \<in> set (bt_values (gl_grants g))" "same_window l (epoch_of_grant gr)"
    by (auto simp: granted_by_def)
  then have "granted_by g (apply_to_epoch (bt_values (gl_facts g)) l)"
    unfolding granted_by_def by (blast intro: same_window_trans apply_to_epoch_same_window)
  with assms snoc show ?thesis by (simp add: apply_facts_snoc)
qed simp

lemma resolve_step_granted:
  assumes "gr \<in> set (bt_values (gl_grants g))" "\<forall>e \<in> set r. granted_by g e"
  shows "\<forall>e \<in> set (resolve_step g terms w gr r). granted_by g e"
proof (cases "grant_admissible r terms w gr")
  case True
  have "granted_by g (epoch_of_grant gr)"
    unfolding granted_by_def using assms(1) by (rule bexI [rotated]) (simp add: same_window_def)
  with assms(2) have "\<forall>e \<in> set (r @ [epoch_of_grant gr]). granted_by g e"
    by simp
  from apply_facts_granted [OF this] True show ?thesis
    by (simp only: resolve_step_def push_epoch_def if_True)
qed (use assms(2) in \<open>simp add: resolve_step_def\<close>)

lemma leases_resolve_granted: "\<forall>e \<in> set (leases_resolve g [] terms w). granted_by g e"
  unfolding leases_resolve_def
  by (rule fold_invariant [where Q = "\<lambda>gr. gr \<in> set (bt_values (gl_grants g))"])
    (simp_all add: pending_grants_def resolve_step_granted)

section \<open>Claims and results behind a state\<close>

lemma claim_winner_Some:
  assumes "claim_winner claims a b = Some w"
  shows "\<exists>c \<in> set (bt_values claims). cf_author c = w \<and> a \<le> cf_at_ms c \<and> cf_at_ms c \<le> b"
proof -
  from assms obtain c where c: "List.find (\<lambda>c. cf_at_ms c \<ge> a \<and> cf_at_ms c \<le> b) (bt_values claims) = Some c"
    and w: "cf_author c = w"
    by (auto simp: claim_winner_def)
  from find_Some_mem [OF c] w show ?thesis by blast
qed

lemma won_from_mem:
  "won_from w b r \<Longrightarrow> e \<in> set r \<Longrightarrow> \<exists>a. w a (ep_granted_at_ms e) = Some (ep_holder e)"
  by (induction r arbitrary: b) auto

lemma claims_present:
  "gather_inv s \<Longrightarrow> c \<in> set (bt_values (job_claims s i)) \<Longrightarrow> \<exists>k. present (WClaim i k c) s"
  by (simp add: bt_values_nth job_claims_inv job_claims_present)

lemma grants_present:
  "gather_inv s \<Longrightarrow> f \<in> set (bt_values (gj_grants (job_facts s i))) \<Longrightarrow> \<exists>k. present (WGrant i k f) s"
  by (simp add: bt_values_nth job_facts_inv leases_inv_maps job_facts_present)

lemma completions_present:
  "gather_inv s \<Longrightarrow> c \<in> set (bt_values (gj_completions (job_facts s i))) \<Longrightarrow>
     \<exists>k. present (WCompletion i k c) s"
  by (simp add: bt_values_nth job_facts_inv leases_inv_maps job_facts_present)

lemma claim_said:
  "present (WClaim i k c) (gathered pp ed mesh ops) \<Longrightarrow>
     \<exists>x \<in> set ops. op_hash x = k \<and> says pp mesh x (cf_author c) (JobClaimed i (cf_at_ms c))"
  by (auto dest!: gathered_said event_write_claim)

lemma grant_said:
  "present (WGrant i k f) (gathered pp ed mesh ops) \<Longrightarrow>
     \<exists>x \<in> set ops. op_hash x = gf_operation f
       \<and> says pp mesh x (gf_author f)
           (LeaseGranted i (gf_epoch f) (gf_granted_at_ms f) (gf_expires_at_ms f))"
  by (auto dest!: gathered_said event_write_grant)

lemma completion_said:
  "present (WCompletion i k c) (gathered pp ed mesh ops) \<Longrightarrow>
     \<exists>x \<in> set ops. says pp mesh x (co_author c)
       (JobCompletedUnderLease i (co_lease c) (co_output c) (co_at_ms c))"
  by (auto dest!: gathered_said event_write_completion)

lemma result_said:
  assumes "present (WResult i a r) (gathered pp ed mesh ops)"
  shows "\<exists>x \<in> set ops. \<exists>ev. says pp mesh x a ev
    \<and> (case r of ResultInline b \<Rightarrow> \<exists>t. ev = JobDone i b t
        | ResultCommitted out \<Rightarrow> \<exists>t. ev = JobDoneV2 i out t)"
  using gathered_said [OF assms] by (auto dest!: event_write_result)

text \<open>Every claim of the set is a key of the gathered claims.\<close>

lemma claim_key_step:
  "bt_get (job_claims s i) k \<noteq> None \<Longrightarrow> bt_get (job_claims (apply_write w s) i) k \<noteq> None"
  by (cases w) (auto simp: job_claims_def add_defs bt_get_entry bt_get_insert split: option.splits)

lemma claim_key_fold:
  "bt_get (job_claims s i) k \<noteq> None \<Longrightarrow>
     bt_get (job_claims (fold (gather_op pp ed mesh) ops s) i) k \<noteq> None"
proof (induction ops arbitrary: s)
  case (Cons x ops)
  have "bt_get (job_claims (gather_op pp ed mesh x s) i) k \<noteq> None"
    using Cons.prems claim_key_step [of s i k]
    by (simp add: gather_op_write write_opt_def split: option.split)
  with Cons.IH show ?case by simp
qed simp

lemma claim_key_own:
  assumes "says pp mesh x a (JobClaimed i t)"
  shows "bt_get (job_claims (gather_op pp ed mesh x s) i) (op_hash x) \<noteq> None"
  using assms
  by (simp add: says_def gather_op_def add_defs job_claims_def bt_get_entry bt_get_insert)

lemma claim_key_complete:
  assumes "x \<in> set ops" "says pp mesh x a (JobClaimed i t)"
  shows "bt_get (job_claims (gathered pp ed mesh ops) i) (op_hash x) \<noteq> None"
proof -
  from split_list [OF assms(1)] obtain us vs where ops: "ops = us @ x # vs" by blast
  let ?s = "gather_op pp ed mesh x (fold (gather_op pp ed mesh) us gather_empty)"
  have "bt_get (job_claims ?s i) (op_hash x) \<noteq> None"
    by (rule claim_key_own) (rule assms(2))
  from claim_key_fold [OF this, of pp ed mesh vs] show ?thesis
    by (simp add: gathered_def ops)
qed

lemma bt_first_least:
  "bt_inv ((k, v) # m) \<Longrightarrow> bt_get ((k, v) # m) l \<noteq> None \<Longrightarrow> k \<le> l"
  by (fastforce simp: bt_inv_def bt_get_def dest: map_of_SomeD split: if_splits)

text \<open>The winner of a claim race: the author of the claim with the lowest hash.\<close>

definition race_winner :: "'h p2panda \<Rightarrow> key32 \<Rightarrow> 'h operation list \<Rightarrow> job_id \<Rightarrow> key32 \<Rightarrow> bool" where
  "race_winner pp mesh ops i w \<longleftrightarrow>
     (\<exists>x \<in> set ops. (\<exists>t. says pp mesh x w (JobClaimed i t))
        \<and> (\<forall>y \<in> set ops. \<forall>a t. says pp mesh y a (JobClaimed i t) \<longrightarrow> op_hash x \<le> op_hash y))"

lemma first_claim_wins:
  assumes "job_claims (gathered pp ed mesh ops) i = (k, c) # m"
  shows "race_winner pp mesh ops i (cf_author c)"
proof -
  have "present (WClaim i k c) (gathered pp ed mesh ops)"
    unfolding job_claims_present [symmetric] using assms by (simp add: bt_get_Cons)
  then obtain x where x: "x \<in> set ops" "op_hash x = k"
    "says pp mesh x (cf_author c) (JobClaimed i (cf_at_ms c))"
    using claim_said by blast
  have "k \<le> op_hash y" if "y \<in> set ops" "says pp mesh y a (JobClaimed i t)" for y a t
    using claim_key_complete [OF that, of ed] job_claims_inv [OF gathered_inv_empty, of pp ed mesh ops i]
    unfolding assms by (rule bt_first_least [rotated])
  with x show ?thesis
    unfolding race_winner_def by (intro bexI [of _ x]) auto
qed

lemma resolve_state_unleased:
  "resolve_state s i post g [] =
     (case job_claims s i of
        [] \<Rightarrow> Posted
      | (k, c) # m \<Rightarrow>
          posted_resolve post (cf_author c)
            (Option.bind (bt_get (g_results s) i) (\<lambda>r. bt_get r (cf_author c))))"
  by (auto simp: resolve_state_def completed_output_def rec_current_def job_claims_def Let_def
      split: list.split)

lemma resolve_state_leased:
  "r \<noteq> [] \<Longrightarrow> resolve_state s i post g r =
     (case completed_output g r of
        Some (holder, out) \<Rightarrow> Committed holder out
      | None \<Rightarrow> Claimed (ep_holder (last r)))"
  by (auto simp: resolve_state_def rec_current_def Let_def split: option.split)

lemma posted_resolve_Done:
  "posted_resolve p w rec = Done w' b \<longleftrightarrow> w' = w \<and> rec = Some (ResultInline b) \<and> po_spec p = None"
  by (auto simp: posted_resolve_def split: option.splits result_record.splits)

lemma posted_resolve_Committed:
  "posted_resolve p w rec = Committed w' out \<longleftrightarrow>
     w' = w \<and> rec = Some (ResultCommitted out)
     \<and> (\<exists>sp. po_spec p = Some sp \<and> js_lease sp = None \<and> output_validate_against out sp = Inr ())"
  by (auto simp: posted_resolve_def split: option.splits result_record.splits)

lemma result_present:
  "Option.bind (bt_get (g_results s) i) (\<lambda>r. bt_get r w) = Some rec \<longleftrightarrow> present (WResult i w rec) s"
  by (simp add: present.simps split: option.split)

lemma completed_output_Some:
  assumes "completed_output g r = Some (h, out)"
  shows "\<exists>e \<in> set r. \<exists>c \<in> set (bt_values (gj_completions g)).
    (\<exists>t. ep_end e = Some (Completed t)) \<and> ep_holder e = h
    \<and> co_lease c = ep_lease e \<and> co_author c = h \<and> co_output c = out"
proof -
  from assms obtain e c
    where e: "List.find (\<lambda>e. case ep_end e of Some (Completed _) \<Rightarrow> True | _ \<Rightarrow> False) r = Some e"
      and c: "List.find (\<lambda>c. co_lease c = ep_lease e \<and> co_author c = ep_holder e)
        (bt_values (gj_completions g)) = Some c"
      and "h = ep_holder e" "out = co_output c"
    by (auto simp: completed_output_def split: option.splits)
  with find_Some_mem [OF e] find_Some_mem [OF c] show ?thesis
    by (auto split: option.splits lease_end.splits)
qed

section \<open>What ended an epoch\<close>

text \<open>An epoch ends by a fact its holder authored under it, inside its window.\<close>

definition ended_by :: "gathered_leases \<Rightarrow> lease_epoch \<Rightarrow> bool" where
  "ended_by g e \<longleftrightarrow>
     (\<forall>x. ep_end e = Some x \<longrightarrow>
        (\<exists>f \<in> set (bt_values (gl_facts g)). lf_body f = EndFact x \<and> fact_applies e f))"

lemma pick_fact_end:
  "snd (pick_fact e f p) = Some (t, oper, x) \<Longrightarrow>
     snd p = Some (t, oper, x) \<or> lf_body f = EndFact x \<and> fact_applies e f"
  by (cases p) (auto split: if_splits lease_fact_body.splits option.splits)

lemma fold_pick_end:
  "snd (fold (pick_fact e) fs p) = Some (t, oper, x) \<Longrightarrow>
     snd p = Some (t, oper, x) \<or> (\<exists>f \<in> set fs. lf_body f = EndFact x \<and> fact_applies e f)"
proof (induction fs arbitrary: p)
  case (Cons f fs)
  then have "snd (pick_fact e f p) = Some (t, oper, x)
    \<or> (\<exists>f \<in> set fs. lf_body f = EndFact x \<and> fact_applies e f)"
    by simp
  with pick_fact_end [of e f p t oper x] show ?case by auto
qed simp

lemma take_end_Some:
  "ep_end (take_end p e) = Some x \<Longrightarrow> ep_end e = Some x \<or> (\<exists>t oper. p = Some (t, oper, x))"
  by (auto simp: take_end_def split: option.splits if_splits)

lemma fact_applies_cong: "same_window a b \<Longrightarrow> fact_applies a f = fact_applies b f"
  by (simp add: same_window_def fact_applies_def covers_def)

lemma apply_to_epoch_ended:
  assumes "ended_by g e"
  shows "ended_by g (apply_to_epoch (bt_values (gl_facts g)) e)"
  unfolding ended_by_def
proof (intro allI impI)
  fix x
  let ?fs = "bt_values (gl_facts g)"
  obtain n p where np: "fold (pick_fact e) ?fs (None, None) = (n, p)" by force
  assume "ep_end (apply_to_epoch ?fs e) = Some x"
  then have "ep_end e = Some x \<or> (\<exists>t oper. p = Some (t, oper, x))"
    using take_end_Some [of p "take_heartbeat n e" x] by (simp add: apply_to_epoch_def np)
  then have "\<exists>f \<in> set ?fs. lf_body f = EndFact x \<and> fact_applies e f"
    using assms fold_pick_end [of e ?fs "(None, None)"] by (auto simp: ended_by_def np)
  then show "\<exists>f \<in> set ?fs. lf_body f = EndFact x \<and> fact_applies (apply_to_epoch ?fs e) f"
    by (simp add: fact_applies_cong [OF apply_to_epoch_same_window])
qed

lemma apply_facts_ended:
  "\<forall>e \<in> set r. ended_by g e \<Longrightarrow> \<forall>e \<in> set (apply_facts g r). ended_by g e"
  by (cases r rule: rev_cases) (simp_all add: apply_facts_snoc apply_to_epoch_ended)

lemma resolve_step_ended:
  assumes "\<forall>e \<in> set r. ended_by g e"
  shows "\<forall>e \<in> set (resolve_step g terms w gr r). ended_by g e"
proof (cases "grant_admissible r terms w gr")
  case True
  have "\<forall>e \<in> set (r @ [epoch_of_grant gr]). ended_by g e"
    using assms by (simp add: ended_by_def epoch_of_grant_def)
  from apply_facts_ended [OF this] True show ?thesis
    by (simp only: resolve_step_def push_epoch_def if_True)
qed (use assms in \<open>simp add: resolve_step_def\<close>)

lemma leases_resolve_ended: "\<forall>e \<in> set (leases_resolve g [] terms w). ended_by g e"
  unfolding leases_resolve_def
  by (rule fold_invariant [where Q = "\<lambda>_. True"]) (simp_all add: resolve_step_ended)

lemma bt_values_insert: "v \<in> set (bt_values (bt_insert k w m)) \<Longrightarrow> v = w \<or> v \<in> set (bt_values m)"
  unfolding bt_values_def by (induction k w m rule: bt_insert.induct) (auto split: if_splits)

lemma admit_completions_mem:
  "f \<in> set (bt_values (admit_completions sp cs facts)) \<Longrightarrow>
     f \<in> set (bt_values facts)
     \<or> (\<exists>k c. (k, c) \<in> set cs \<and> output_validate_against (co_output c) sp = Inr ()
          \<and> f = completion_to_fact k c)"
  unfolding admit_completions_def
proof (induction cs arbitrary: facts)
  case (Cons kc cs)
  obtain k c where kc: "kc = (k, c)" by (cases kc)
  let ?m = "if output_validate_against (co_output c) sp \<noteq> Inr () then facts
    else bt_insert k (completion_to_fact k c) facts"
  from Cons.IH [of ?m] Cons.prems have "f \<in> set (bt_values ?m)
    \<or> (\<exists>k c. (k, c) \<in> set cs \<and> output_validate_against (co_output c) sp = Inr ()
         \<and> f = completion_to_fact k c)"
    by (simp add: kc)
  moreover have "f \<in> set (bt_values ?m) \<Longrightarrow> f \<in> set (bt_values facts)
    \<or> output_validate_against (co_output c) sp = Inr () \<and> f = completion_to_fact k c"
    using bt_values_insert [of f k "completion_to_fact k c" facts] by (simp split: if_splits) blast
  ultimately show ?case
    unfolding kc by auto
qed simp

lemma event_write_no_completion:
  "event_write ed h a ev = Some (WFact j k f) \<Longrightarrow> lf_body f \<noteq> EndFact (Completed t)"
  by (cases ev) (auto split: if_splits option.splits)

lemma gathered_fact_not_completed:
  "f \<in> set (bt_values (gj_facts (job_facts (gathered pp ed mesh ops) i))) \<Longrightarrow>
     lf_body f \<noteq> EndFact (Completed t)"
proof -
  assume "f \<in> set (bt_values (gj_facts (job_facts (gathered pp ed mesh ops) i)))"
  moreover have "bt_inv (gj_facts (job_facts (gathered pp ed mesh ops) i))"
    by (intro leases_inv_maps job_facts_inv gathered_inv_empty)
  ultimately obtain k where "present (WFact i k f) (gathered pp ed mesh ops)"
    by (auto simp: bt_values_nth job_facts_present)
  then show ?thesis
    by (auto dest!: gathered_said event_write_no_completion)
qed

end
