(* ===== verification/Mesh_Guarantees.thy ===== *)
theory Mesh_Guarantees
  imports Mesh_Provenance
begin

text \<open>
  What a folded board guarantees about its jobs: who holds a lease and when, whose result
  counts, and what a committed output has passed. A small leased mesh on which the
  guarantees are evaluated comes first.
\<close>

section \<open>A leased job\<close>

definition demo_spec :: Mesh_Spec.job_spec where
  "demo_spec =
     spec_leased
       (spec_simple (ResourceId ''mesh.echo/v1'') ''in''
          \<lparr>br_digest = \<lparr>dg_alg = Blake3Alg, dg_bytes = replicate 32 0\<rparr>, br_byte_len = 3\<rparr>
          ''out'' 1024 Exact)
       (lease_terms_new 100000 1000)"

definition demo_output :: "u64 \<Rightarrow> job_output" where
  "demo_output n =
     \<lparr>jo_name = ''out'',
      jo_blob = \<lparr>br_digest = \<lparr>dg_alg = Blake3Alg, dg_bytes = replicate 32 1\<rparr>, br_byte_len = n\<rparr>,
      jo_resource = ResourceId ''mesh.echo/v1'',
      jo_implementation = ImplementationId ''mesh.echo.native/v1'', jo_verification = ExactBytes\<rparr>"

definition demo_leases :: "mesh_event list" where
  "demo_leases =
     [JobPostedV2 demo_spec 0 10, JobClaimed 5 20, LeaseGranted 5 0 30 5000,
      LeaseReleased 5 11 Yielded 1000, JobClaimed 5 1100, LeaseGranted 5 1 1200 6000,
      JobCompletedUnderLease 5 14 (demo_output 3) 2000,
      JobCompletedUnderLease 5 14 (demo_output 3000) 2500]"

text \<open>Device 2 takes epoch 0 and yields it; device 3 takes epoch 1 and completes the job.\<close>

definition demo_leased_ops :: "demo_header operation list" where
  "demo_leased_ops =
     [demo_op 1 5 0, demo_op 2 10 1, demo_op 2 11 2, demo_op 2 12 3, demo_op 3 13 4, demo_op 3 14 5,
      demo_op 3 15 6]"

definition demo_epochs :: lease_record where
  "demo_epochs =
     [\<lparr>ep_epoch = 0, ep_lease = 11, ep_holder = 2, ep_granted_at_ms = 30, ep_expires_at_ms = 5000,
       ep_last_seen_ms = 30, ep_progress = lease_progress_default,
       ep_end = Some (Released Yielded 1000)\<rparr>,
      \<lparr>ep_epoch = 1, ep_lease = 14, ep_holder = 3, ep_granted_at_ms = 1200, ep_expires_at_ms = 6000,
       ep_last_seen_ms = 1200, ep_progress = lease_progress_default, ep_end = Some (Completed 2000)\<rparr>]"

definition demo_job :: job where
  "demo_job =
     \<lparr>job_id = 5, job_kind = None, job_payload = None, job_spec = Some demo_spec, job_posted_by = 1,
      job_state = Committed 3 (demo_output 3), job_lease = demo_epochs, job_next_claimants = []\<rparr>"

definition demo_board :: job_board where
  "demo_board = board_fold (demo_p2panda demo_leases) demo_ed25519 7 demo_leased_ops"

lemma demo_spec_valid [simp]: "spec_validate demo_spec = Inr ()"
  by code_simp

lemma demo_output_valid [simp]: "output_validate_against (demo_output 3) demo_spec = Inr ()"
  by code_simp

lemma demo_output_invalid [simp]:
  "output_validate_against (demo_output 3000) demo_spec = Inl (OutputOverGrant 3000 1024)"
  by code_simp

lemma demo_spec_lease [simp]: "js_lease demo_spec = Some (lease_terms_new 100000 1000)"
  by (simp add: demo_spec_def spec_leased_def)

lemmas chain_eval =
  job_leases_resolve_def leases_resolve_def admit_completions_def pending_grants_def
  resolve_step_def grant_admissible_def accepts_grant_def next_epoch_def boundary_ms_def
  claim_winner_def push_epoch_def apply_facts_def apply_to_epoch_def fact_applies_def covers_def
  take_defs epoch_of_grant_def completion_to_fact_def lease_terms_new_def

lemma demo_board_eval: "demo_board = \<lparr>board_jobs = [(5, demo_job)], board_devices = []\<rparr>"
  by (simp add: demo_board_def demo_job_def demo_epochs_def demo_defs demo_leases_def
      demo_leased_ops_def gather_eval resolve_eval chain_eval)

lemma demo_board_job: "board_job demo_board 5 = Some demo_job"
  by (simp add: demo_board_eval board_job_def bt_get_def)

section \<open>Leases\<close>

text \<open>
  C5. On a folded board the leases of a job form a chain under the terms its poster signed:
  epochs are numbered from zero, every window is non-empty and no longer than the signed
  maximum, the end and the last sign of life of an epoch lie in its window, each epoch begins
  at or after the signed end of the one before, and none follows a completed one.
\<close>

theorem board_leases_form_chain:
  assumes "board_job (board_fold pp ed mesh ops) i = Some j" "job_lease_terms j = Some terms"
  shows "chain_ok terms (job_lease j)"
  using assms by (rule board_job_chain)

theorem board_leases_form_chain_witness:
  "chain_ok (lease_terms_new 100000 1000) demo_epochs"
  using board_leases_form_chain [OF demo_board_job [unfolded demo_board_def]]
  by (simp add: demo_job_def job_lease_terms_def)

definition in_force :: "lease_epoch \<Rightarrow> u64 \<Rightarrow> bool" where
  "in_force e t \<longleftrightarrow> ep_granted_at_ms e \<le> t \<and> t < boundary_ms e"

text \<open>
  C2. A job is never lent twice at one time: no two different epochs of a job are in force at one
  instant, whatever operations the replicas signed. An epoch is in force from its grant until
  its boundary, which is its signed end or, without one, the expiry it was granted to; the
  signed windows themselves may overlap when a holder ends its lease early.
\<close>

theorem leases_exclusive:
  assumes "board_job (board_fold pp ed mesh ops) i = Some j"
    and "m < length (job_lease j)" "n < length (job_lease j)" "m \<noteq> n"
  shows "\<not> (in_force (job_lease j ! m) t \<and> in_force (job_lease j ! n) t)"
proof -
  from assms(2) board_job_unleased [OF assms(1)] obtain terms where "job_lease_terms j = Some terms"
    by (cases "job_lease_terms j") auto
  from chain_sorted [OF board_job_chain [OF assms(1) this]]
  have later: "boundary_ms (job_lease j ! a) \<le> ep_granted_at_ms (job_lease j ! b)"
    if "a < b" "b < length (job_lease j)" for a b
    using that by (simp add: sorted_wrt_iff_nth_less)
  show ?thesis
    using later [of m n] later [of n m] assms(2-4) by (fastforce simp: in_force_def)
qed

theorem leases_exclusive_witness:
  "\<not> (in_force (demo_epochs ! 0) 1100 \<and> in_force (demo_epochs ! 1) 1100)"
  using leases_exclusive [OF demo_board_job [unfolded demo_board_def], of 0 1 1100]
  by (simp add: demo_job_def demo_epochs_def)

text \<open>
  C4. Nobody is a holder without having asked and granted: behind every epoch of a job there
  is a verified grant of this mesh whose hash is the lease's identity and whose signed epoch
  and window are the epoch's, and a verified claim of the same device for the same job signed
  no later than the grant.
\<close>

theorem epoch_has_signed_grant_and_claim:
  assumes "board_job (board_fold pp ed mesh ops) i = Some j" "e \<in> set (job_lease j)"
  shows "(\<exists>x \<in> set ops. op_hash x = ep_lease e
      \<and> says pp mesh x (ep_holder e)
          (LeaseGranted i (ep_epoch e) (ep_granted_at_ms e) (ep_expires_at_ms e)))
    \<and> (\<exists>y \<in> set ops. \<exists>t \<le> ep_granted_at_ms e. says pp mesh y (ep_holder e) (JobClaimed i t))"
proof
  let ?s = "gathered pp ed mesh ops"
  let ?w = "claim_winner (job_claims ?s i)"
  from assms obtain sp terms where r: "js_lease sp = Some terms"
    "e \<in> set (job_leases_resolve (job_facts ?s i) None sp (job_claims ?s i))"
    by (auto simp: board_job_iff resolve_job_lease split: option.splits if_splits)
  then obtain gr where "gr \<in> set (bt_values (gj_grants (job_facts ?s i)))"
    and win: "same_window e (epoch_of_grant gr)"
    using leases_resolve_granted by (fastforce simp: job_leases_resolve_Some granted_by_def)
  then obtain k where "present (WGrant i k gr) ?s"
    using grants_present [OF gathered_inv_empty] by blast
  from grant_said [OF this] win show "\<exists>x \<in> set ops. op_hash x = ep_lease e
      \<and> says pp mesh x (ep_holder e)
          (LeaseGranted i (ep_epoch e) (ep_granted_at_ms e) (ep_expires_at_ms e))"
    by (simp add: same_window_def epoch_of_grant_def)
  have "won_from ?w 0 (job_leases_resolve (job_facts ?s i) None sp (job_claims ?s i))"
    using r(1) by (simp add: job_leases_resolve_Some leases_resolve_won)
  from won_from_mem [OF this r(2)] obtain c where "c \<in> set (bt_values (job_claims ?s i))"
    and c: "cf_author c = ep_holder e" "cf_at_ms c \<le> ep_granted_at_ms e"
    by (blast dest: claim_winner_Some)
  then obtain k' where "present (WClaim i k' c) ?s"
    using claims_present [OF gathered_inv_empty] by blast
  from claim_said [OF this] c
  show "\<exists>y \<in> set ops. \<exists>t \<le> ep_granted_at_ms e. says pp mesh y (ep_holder e) (JobClaimed i t)"
    by auto
qed

theorem epoch_has_signed_grant_and_claim_witness:
  "\<exists>y \<in> set demo_leased_ops. \<exists>t \<le> 1200. says (demo_p2panda demo_leases) 7 y 3 (JobClaimed 5 t)"
  using epoch_has_signed_grant_and_claim
    [OF demo_board_job [unfolded demo_board_def], of "demo_epochs ! 1"]
  by (simp add: demo_job_def demo_epochs_def)

text \<open>
  C3. A lease is completed only by its holder and only with an output that honours the
  grant: when an epoch of a job is closed by a completion, the folded operations contain a
  completion of that job under that lease, signed by the holder at the recorded instant
  inside the window, whose output passes every check against the posted manifest.
\<close>

theorem completion_honours_grant:
  assumes "board_job (board_fold pp ed mesh ops) i = Some j" "job_spec j = Some sp"
    and "e \<in> set (job_lease j)" "ep_end e = Some (Completed t)"
  shows "covers e t \<and> (\<exists>x \<in> set ops. \<exists>out.
    says pp mesh x (ep_holder e) (JobCompletedUnderLease i (ep_lease e) out t)
    \<and> output_honours out sp)"
proof -
  let ?s = "gathered pp ed mesh ops"
  let ?g = "job_facts ?s i"
  let ?facts = "admit_completions sp (gj_completions ?g) (gj_facts ?g)"
  from assms(1-3) obtain terms where r: "js_lease sp = Some terms"
    "e \<in> set (job_leases_resolve ?g None sp (job_claims ?s i))"
    by (auto simp: board_job_iff resolve_job_lease split: option.splits if_splits)
  then obtain f where f: "f \<in> set (bt_values ?facts)" "lf_body f = EndFact (Completed t)"
    "fact_applies e f"
    using leases_resolve_ended assms(4)
    by (fastforce simp: job_leases_resolve_Some ended_by_def)
  from admit_completions_mem [OF f(1)] gathered_fact_not_completed f(2)
  obtain k c where kc: "(k, c) \<in> set (gj_completions ?g)"
    and ok: "output_validate_against (co_output c) sp = Inr ()" and "f = completion_to_fact k c"
    by blast
  with f have c: "co_lease c = ep_lease e" "co_author c = ep_holder e" "co_at_ms c = t" "covers e t"
    by (auto simp: completion_to_fact_def fact_applies_def)
  have "bt_inv (gj_completions ?g)"
    by (intro leases_inv_maps job_facts_inv gathered_inv_empty)
  with kc have "present (WCompletion i k c) ?s"
    by (simp add: bt_get_eq_iff_mem flip: job_facts_present)
  from completion_said [OF this] c ok show ?thesis
    by (auto simp: output_against_iff)
qed

theorem completion_honours_grant_witness:
  "\<exists>x \<in> set demo_leased_ops. \<exists>out.
     says (demo_p2panda demo_leases) 7 x 3 (JobCompletedUnderLease 5 14 out 2000)
     \<and> output_honours out demo_spec"
  using completion_honours_grant
    [OF demo_board_job [unfolded demo_board_def], of demo_spec "demo_epochs ! 1" 2000]
  by (simp add: demo_job_def demo_epochs_def)

section \<open>Results\<close>

lemma board_job_state:
  assumes "board_job (board_fold pp ed mesh ops) i = Some j" "job_lease j = []"
    "job_state j = st" "st \<noteq> Posted"
  shows "\<exists>post k c m. job_claims (gathered pp ed mesh ops) i = (k, c) # m
    \<and> po_spec post = job_spec j
    \<and> st = posted_resolve post (cf_author c)
        (Option.bind (bt_get (g_results (gathered pp ed mesh ops)) i) (\<lambda>r. bt_get r (cf_author c)))"
  using assms
  by (auto simp: board_job_iff resolve_job_state resolve_state_unleased split: list.splits)

lemma resolve_state_Done: "resolve_state s i post g r = Done w b \<Longrightarrow> r = []"
  by (rule ccontr) (simp add: resolve_state_leased split: option.splits prod.splits)

definition demo_single :: "demo_header operation list" where
  "demo_single = [demo_op 1 5 0, demo_op 2 9 1, demo_op 3 6 2, demo_op 3 8 3, demo_op 2 7 4]"

definition demo_echo_job :: job where
  "demo_echo_job =
     \<lparr>job_id = 5, job_kind = Some Echo, job_payload = Some [1], job_spec = None, job_posted_by = 1,
      job_state = Done 3 [1], job_lease = [], job_next_claimants = []\<rparr>"

lemma demo_single_eval:
  "board_fold (demo_p2panda demo_race) demo_ed25519 7 demo_single
   = \<lparr>board_jobs = [(5, demo_echo_job)], board_devices = []\<rparr>"
  by (simp add: demo_single_def demo_echo_job_def demo_defs demo_race_def gather_eval resolve_eval)

text \<open>
  C6. Only the winner's result counts: a job shown as done carries a result that its claim
  winner signed for it in a verified operation, and the winner is the author of the claim with
  the lowest operation hash of all the claims for that job.
\<close>

theorem done_result_is_the_winners:
  assumes "board_job (board_fold pp ed mesh ops) i = Some j" "job_state j = Done w b"
  shows "race_winner pp mesh ops i w \<and> (\<exists>x \<in> set ops. \<exists>t. says pp mesh x w (JobDone i b t))"
proof -
  from assms have "job_lease j = []"
    by (auto simp: board_job_iff resolve_job_state dest: resolve_state_Done)
  from board_job_state [OF assms(1) this assms(2)] obtain k c m
    where first: "job_claims (gathered pp ed mesh ops) i = (k, c) # m"
      and "cf_author c = w" "present (WResult i w (ResultInline b)) (gathered pp ed mesh ops)"
    by (auto simp: posted_resolve_Done result_present dest!: sym [of "Done w b"])
  with first_claim_wins [OF first] result_said show ?thesis
    by fastforce
qed

theorem done_result_is_the_winners_witness:
  "\<exists>x \<in> set demo_single. \<exists>t. says (demo_p2panda demo_race) 7 x 3 (JobDone 5 [1] t)"
  using done_result_is_the_winners
    [of "demo_p2panda demo_race" demo_ed25519 7 demo_single 5 demo_echo_job 3 "[1]"]
  by (simp add: demo_single_eval board_job_def bt_get_def) (simp add: demo_echo_job_def)

definition demo_plain_spec :: Mesh_Spec.job_spec where
  "demo_plain_spec = demo_spec\<lparr>js_lease := None\<rparr>"

definition demo_plain :: "mesh_event list" where
  "demo_plain = [JobPostedV2 demo_plain_spec 0 10, JobClaimed 5 20, JobDoneV2 5 (demo_output 3) 30]"

definition demo_plain_ops :: "demo_header operation list" where
  "demo_plain_ops = [demo_op 1 5 0, demo_op 2 10 1, demo_op 2 11 2]"

definition demo_plain_job :: job where
  "demo_plain_job =
     \<lparr>job_id = 5, job_kind = None, job_payload = None, job_spec = Some demo_plain_spec,
      job_posted_by = 1, job_state = Committed 2 (demo_output 3), job_lease = [],
      job_next_claimants = []\<rparr>"

lemma demo_plain_valid [simp]:
  "spec_validate demo_plain_spec = Inr ()" "js_lease demo_plain_spec = None"
  "output_validate_against (demo_output 3) demo_plain_spec = Inr ()"
  by (code_simp, simp add: demo_plain_spec_def, code_simp)

lemma demo_plain_eval:
  "board_fold (demo_p2panda demo_plain) demo_ed25519 7 demo_plain_ops
   = \<lparr>board_jobs = [(5, demo_plain_job)], board_devices = []\<rparr>"
  by (simp add: demo_plain_ops_def demo_plain_job_def demo_defs demo_plain_def gather_eval resolve_eval)

text \<open>
  On a job posted without lease terms, a committed output honours the signed manifest:
  it was signed by the claim winner, it fills the granted slot for the asked resource, its
  length is within the grant and its determinism is at least what was asked.
\<close>

theorem unleased_commit_honours_grant:
  assumes "board_job (board_fold pp ed mesh ops) i = Some j" "job_state j = Committed w out"
    and "job_lease_terms j = None"
  shows "race_winner pp mesh ops i w
    \<and> (\<exists>sp. job_spec j = Some sp \<and> output_honours out sp)
    \<and> (\<exists>x \<in> set ops. \<exists>t. says pp mesh x w (JobDoneV2 i out t))"
proof -
  from board_job_unleased [OF assms(1,3)] have "job_lease j = []" .
  from board_job_state [OF assms(1) this assms(2)] obtain post k c m
    where first: "job_claims (gathered pp ed mesh ops) i = (k, c) # m"
      and "cf_author c = w" "present (WResult i w (ResultCommitted out)) (gathered pp ed mesh ops)"
      and "\<exists>sp. job_spec j = Some sp \<and> output_honours out sp"
    by (auto simp: posted_resolve_Committed result_present output_against_iff
        dest!: sym [of "Committed w out"])
  with first_claim_wins [OF first] result_said show ?thesis
    by fastforce
qed

theorem unleased_commit_honours_grant_witness:
  "output_honours (demo_output 3) demo_plain_spec"
  using unleased_commit_honours_grant
    [of "demo_p2panda demo_plain" demo_ed25519 7 demo_plain_ops 5 demo_plain_job 2 "demo_output 3"]
  by (simp add: demo_plain_eval board_job_def bt_get_def)
    (simp add: demo_plain_job_def job_lease_terms_def)

end
