(* ===== verification/Mesh_Retention.thy ===== *)
theory Mesh_Retention
  imports Mesh_Guarantees
begin

text \<open>
  Retention of mesh history (\<^verbatim>\<open>crates/mesh/mesh/src/retention.rs\<close>): snapshots,
  the checks a checkpoint passes before it may authorise pruning, and which blobs a device
  may stop holding. BLAKE3 (\<open>h\<close>) and the CBOR encoding of a snapshot (\<open>enc\<close>) are
  parameters.
\<close>

section \<open>Policies\<close>

datatype keep_bound = Forever | ForAgeMs u64 | UntilCheckpoint

record availability_policy =
  promised_floor :: keep_bound

datatype payload_rule = Keep | EraseTerminalAtCheckpoint

record erasure_policy =
  privacy_ceiling :: keep_bound
  terminal_job_payload :: payload_rule

record mesh_retention_policy =
  rp_revision :: key32
  rp_checkpoint_authority :: key32
  rp_availability :: availability_policy
  rp_erasure :: erasure_policy
  rp_lease :: lease_policy

definition authority_revision :: "(bytes \<Rightarrow> bytes) \<Rightarrow> mesh_retention_policy \<Rightarrow> digest" where
  "authority_revision h p =
     digest_blake3 h
       (str_bytes ''mere/mesh-checkpoint-authority/v1'' @ [0] @ key32_bytes (rp_checkpoint_authority p))"

definition permits_checkpoint ::
  "(bytes \<Rightarrow> bytes) \<Rightarrow> mesh_retention_policy \<Rightarrow> key32 \<Rightarrow> digest \<Rightarrow> bool" where
  "permits_checkpoint h p author named \<longleftrightarrow>
     author = rp_checkpoint_authority p \<and> named = authority_revision h p"

section \<open>Snapshots\<close>

fun is_held :: "lease_phase \<Rightarrow> bool" where
  "is_held (Held _ _ _ _ _ _) = True"
| "is_held _ = False"

definition live_leases :: "board_snapshot \<Rightarrow> u64 \<Rightarrow> lease_policy \<Rightarrow> job_id list" where
  "live_leases snap at_ms policy = map job_id (filter (\<lambda>j. is_held (lease_at j at_ms policy)) snap)"

definition erase_payload :: "job \<Rightarrow> job" where
  "erase_payload j = (if is_terminal (job_state j) then j\<lparr>job_payload := None\<rparr> else j)"

text \<open>The loop: \<^verbatim>\<open>take()\<close> runs on terminal jobs only and counts the payloads it took.\<close>

fun erase_terminal_payloads :: "board_snapshot \<Rightarrow> board_snapshot \<times> u64" where
  "erase_terminal_payloads [] = ([], 0)"
| "erase_terminal_payloads (j # js) =
     (let (js', n) = erase_terminal_payloads js
      in (erase_payload j # js',
          if is_terminal (job_state j) \<and> job_payload j \<noteq> None then n + 1 else n))"

section \<open>Checkpoints\<close>

definition checkpoint_new ::
  "(bytes \<Rightarrow> bytes) \<Rightarrow> (board_snapshot \<Rightarrow> bytes) \<Rightarrow> key32 \<Rightarrow> key32 \<Rightarrow> digest \<Rightarrow> log_frontier list
   \<Rightarrow> board_snapshot \<Rightarrow> u64 \<Rightarrow> retention_checkpoint" where
  "checkpoint_new h enc mesh revision authority frontier snap at_ms =
     \<lparr>ck_version = 1, ck_mesh_id = mesh, ck_policy_revision = revision,
      ck_authority_revision = authority, ck_frontier = frontier, ck_snapshot = snap,
      ck_snapshot_ref = blob_blake3 h (enc snap),
      ck_snapshot_commitment = commitment_direct h StorageCheckpoints (enc snap), ck_at_ms = at_ms\<rparr>"

datatype checkpoint_error =
    UnsupportedVersion u16
  | ForeignMesh
  | UnauthorizedAuthority
  | StalePolicy
  | FalseSnapshotReference
  | FalseSnapshotCommitment
  | DuplicateFrontier
  | FrontierRewind
  | LiveLease job_id

text \<open>\<^verbatim>\<open>MeshLogId\<close> derives its order from the order of its variants.\<close>

instantiation mesh_log_id :: linorder
begin

definition less_eq_mesh_log_id :: "mesh_log_id \<Rightarrow> mesh_log_id \<Rightarrow> bool" where
  "less_eq_mesh_log_id a b \<longleftrightarrow> a = Events \<or> b = Checkpoints"

definition less_mesh_log_id :: "mesh_log_id \<Rightarrow> mesh_log_id \<Rightarrow> bool" where
  "less_mesh_log_id a b \<longleftrightarrow> a = Events \<and> b = Checkpoints"

instance
proof
  fix x y z :: mesh_log_id
  show "(x < y) = (x \<le> y \<and> \<not> y \<le> x)"
    by (cases x; cases y) (simp_all add: less_eq_mesh_log_id_def less_mesh_log_id_def)
  show "x \<le> x" by (cases x) (simp_all add: less_eq_mesh_log_id_def)
  show "x \<le> y \<Longrightarrow> y \<le> z \<Longrightarrow> x \<le> z"
    by (cases x; cases y; cases z) (simp_all add: less_eq_mesh_log_id_def)
  show "x \<le> y \<Longrightarrow> y \<le> x \<Longrightarrow> x = y"
    by (cases x; cases y) (simp_all add: less_eq_mesh_log_id_def)
  show "x \<le> y \<or> y \<le> x"
    by (cases x; cases y) (simp_all add: less_eq_mesh_log_id_def)
qed

end

type_synonym frontier_map = "(key32 \<times> mesh_log_id, log_frontier) btmap"

definition frontier_key :: "log_frontier \<Rightarrow> key32 \<times> mesh_log_id" where
  "frontier_key f = (fr_author f, fr_log_id f)"

fun frontier_index :: "log_frontier list \<Rightarrow> frontier_map \<Rightarrow> checkpoint_error + frontier_map" where
  "frontier_index [] m = Inr m"
| "frontier_index (f # fs) m =
     (if bt_get m (frontier_key f) \<noteq> None then Inl DuplicateFrontier
      else frontier_index fs (bt_insert (frontier_key f) f m))"

definition keeps_frontier :: "frontier_map \<Rightarrow> log_frontier \<Rightarrow> bool" where
  "keeps_frontier m previous =
     (case bt_get m (frontier_key previous) of
        None \<Rightarrow> False
      | Some f \<Rightarrow>
          \<not> (fr_seq_num f < fr_seq_num previous
             \<or> fr_seq_num f = fr_seq_num previous \<and> fr_operation f \<noteq> fr_operation previous))"

definition validate_frontier ::
  "retention_checkpoint option \<Rightarrow> log_frontier list \<Rightarrow> checkpoint_error + unit" where
  "validate_frontier current candidate =
     (case frontier_index candidate [] of
        Inl e \<Rightarrow> Inl e
      | Inr m \<Rightarrow>
          (case current of
             None \<Rightarrow> Inr ()
           | Some c \<Rightarrow>
               if list_all (keeps_frontier m) (ck_frontier c) then Inr () else Inl FrontierRewind))"

definition validate_checkpoint ::
  "(bytes \<Rightarrow> bytes) \<Rightarrow> (board_snapshot \<Rightarrow> bytes) \<Rightarrow> mesh_retention_policy \<Rightarrow> key32 \<Rightarrow> key32
   \<Rightarrow> retention_checkpoint option \<Rightarrow> retention_checkpoint \<Rightarrow> checkpoint_error + unit" where
  "validate_checkpoint h enc p expected_mesh author current c =
     (if ck_version c \<noteq> 1 then Inl (UnsupportedVersion (ck_version c))
      else if ck_mesh_id c \<noteq> expected_mesh then Inl ForeignMesh
      else if \<not> permits_checkpoint h p author (ck_authority_revision c) then Inl UnauthorizedAuthority
      else if ck_policy_revision c \<noteq> rp_revision p then Inl StalePolicy
      else
        (case live_leases (ck_snapshot c) (ck_at_ms c) (rp_lease p) of
           j # _ \<Rightarrow> Inl (LiveLease j)
         | [] \<Rightarrow>
             if \<not> blob_verifies h (ck_snapshot_ref c) (enc (ck_snapshot c)) then Inl FalseSnapshotReference
             else if \<not> verifies_direct h (ck_snapshot_commitment c) StorageCheckpoints (enc (ck_snapshot c))
             then Inl FalseSnapshotCommitment
             else validate_frontier current (ck_frontier c)))"

section \<open>Blobs\<close>

definition job_blobs :: "job \<Rightarrow> blob_ref list" where
  "job_blobs j =
     (case job_spec j of None \<Rightarrow> [] | Some sp \<Rightarrow> map in_blob (js_inputs sp))
     @ (case job_state j of Committed _ out \<Rightarrow> [jo_blob out] | _ \<Rightarrow> [])"

text \<open>The filter that emits a blob the first time it passes.\<close>

fun emit_once :: "blob_ref list \<Rightarrow> blob_ref list \<Rightarrow> blob_ref list \<Rightarrow> blob_ref list" where
  "emit_once protected emitted [] = []"
| "emit_once protected emitted (b # bs) =
     (if b \<notin> set protected \<and> b \<notin> set emitted then b # emit_once protected (b # emitted) bs
      else emit_once protected emitted bs)"

definition collectable_blobs :: "retention_checkpoint option \<Rightarrow> job_board \<Rightarrow> blob_ref list" where
  "collectable_blobs checkpoint current =
     (case checkpoint of
        None \<Rightarrow> []
      | Some c \<Rightarrow>
          let terminal = filter (\<lambda>j. is_terminal (job_state j)) (ck_snapshot c);
              settled = map job_id terminal;
              protected = concat (map job_blobs
                (filter (\<lambda>j. job_id j \<notin> set settled) (bt_values (board_jobs current))))
          in emit_once protected [] (concat (map job_blobs terminal)))"

end
