(* ===== verification/Mesh_Replay.thy ===== *)
theory Mesh_Replay
  imports Mesh_Retention
begin

text \<open>
  What a checkpoint keeps: replaying a snapshot, erasing payloads from one, accepting one and
  collecting blobs under one.
\<close>

section \<open>Collecting blobs\<close>

lemma set_emit_once: "set (emit_once protected emitted bs) = set bs - set protected - set emitted"
  by (induction bs arbitrary: emitted) auto

lemma distinct_emit_once: "distinct (emit_once protected emitted bs)"
  by (induction bs arbitrary: emitted) (auto simp: set_emit_once)

lemma collectable_set:
  "set (collectable_blobs (Some c) b) =
     {x. (\<exists>j \<in> set (ck_snapshot c). is_terminal (job_state j) \<and> x \<in> set (job_blobs j))
       \<and> (\<forall>j \<in> set (bt_values (board_jobs b)). x \<in> set (job_blobs j) \<longrightarrow>
            (\<exists>k \<in> set (ck_snapshot c). is_terminal (job_state k) \<and> job_id k = job_id j))}"
  (is "_ = {x. ?finished x \<and> ?free x}")
proof -
  have settled: "job_id j \<in> job_id ` {k \<in> set (ck_snapshot c). is_terminal (job_state k)} \<longleftrightarrow>
    (\<exists>k \<in> set (ck_snapshot c). is_terminal (job_state k) \<and> job_id k = job_id j)" for j
    by force
  show ?thesis
    by (auto simp: collectable_blobs_def Let_def set_emit_once settled)
qed

text \<open>
  C10. A device drops a blob only when nobody can still need it: under an accepted checkpoint
  the collectable blobs are exactly those of jobs the checkpoint records as finished that no
  job of the current board refers to, other than jobs the checkpoint records as finished;
  each is listed once, and without a checkpoint nothing is collectable.
\<close>

theorem collectable_blobs_unreferenced:
  "collectable_blobs None b = [] \<and> distinct (collectable_blobs (Some c) b)
   \<and> set (collectable_blobs (Some c) b) =
     {x. (\<exists>j \<in> set (ck_snapshot c). is_terminal (job_state j) \<and> x \<in> set (job_blobs j))
       \<and> (\<forall>j \<in> set (bt_values (board_jobs b)). x \<in> set (job_blobs j) \<longrightarrow>
            (\<exists>k \<in> set (ck_snapshot c). is_terminal (job_state k) \<and> job_id k = job_id j))}"
  by (simp only: collectable_set) (simp add: collectable_blobs_def Let_def distinct_emit_once)

definition demo_checkpoint :: retention_checkpoint where
  "demo_checkpoint =
     checkpoint_new (\<lambda>b. replicate 32 0) (\<lambda>s. []) 7 1 \<lparr>dg_alg = Blake3Alg, dg_bytes = replicate 32 0\<rparr> []
       [demo_job] 9000"

theorem collectable_blobs_unreferenced_witness:
  "jo_blob (demo_output 3) \<in> set (collectable_blobs (Some demo_checkpoint) demo_board)"
proof -
  have "ck_snapshot demo_checkpoint = [demo_job]" "bt_values (board_jobs demo_board) = [demo_job]"
    by (simp_all add: demo_checkpoint_def checkpoint_new_def demo_board_eval bt_values_def)
  moreover have "is_terminal (job_state demo_job)" "jo_blob (demo_output 3) \<in> set (job_blobs demo_job)"
    by (simp_all add: demo_job_def job_blobs_def)
  ultimately show ?thesis
    using collectable_blobs_unreferenced [of demo_board demo_checkpoint] by simp
qed

section \<open>Accepting a checkpoint\<close>

lemma frontier_index_Inr:
  "frontier_index fs m = Inr m' \<Longrightarrow> bt_get m' k = Some f \<Longrightarrow>
     bt_get m k = Some f \<or> f \<in> set fs \<and> frontier_key f = k"
  by (induction fs m rule: frontier_index.induct) (auto simp: bt_get_insert split: if_splits)

lemma live_leases_Nil:
  "live_leases snap t p = [] \<longleftrightarrow> (\<forall>j \<in> set snap. \<not> is_held (lease_at j t p))"
  by (simp add: live_leases_def filter_empty_conv)

lemma validate_frontier_keeps:
  assumes "validate_frontier (Some c) fs = Inr ()" "p \<in> set (ck_frontier c)"
  shows "\<exists>f \<in> set fs. frontier_key f = frontier_key p \<and> fr_seq_num p \<le> fr_seq_num f
    \<and> (fr_seq_num f = fr_seq_num p \<longrightarrow> fr_operation f = fr_operation p)"
proof -
  from assms(1) obtain m where m: "frontier_index fs [] = Inr m" "list_all (keeps_frontier m) (ck_frontier c)"
    by (auto simp: validate_frontier_def split: sum.splits if_splits)
  with assms(2) obtain f where f: "bt_get m (frontier_key p) = Some f"
    "\<not> fr_seq_num f < fr_seq_num p" "fr_seq_num f = fr_seq_num p \<longrightarrow> fr_operation f = fr_operation p"
    by (auto simp: list_all_iff keeps_frontier_def split: option.splits)
  with frontier_index_Inr [OF m(1) f(1)] show ?thesis by (auto simp: not_less)
qed

text \<open>
  C7. An accepted checkpoint is authorised, describes its snapshot, strands no live lease and
  never rewinds: its author is the configured authority under the current policy revision,
  the reference and the commitment are those of the snapshot's bytes, no job of the snapshot
  is held at the checkpoint's time, and every log position of the checkpoint before it is kept
  or advanced, an equal position naming the same operation.
\<close>

theorem accepted_checkpoint_is_sound:
  assumes "validate_checkpoint h enc p mesh author current c = Inr ()"
  shows "author = rp_checkpoint_authority p \<and> ck_mesh_id c = mesh
    \<and> ck_policy_revision c = rp_revision p
    \<and> ck_snapshot_ref c = blob_blake3 h (enc (ck_snapshot c))
    \<and> ck_snapshot_commitment c = commitment_direct h StorageCheckpoints (enc (ck_snapshot c))
    \<and> (\<forall>j \<in> set (ck_snapshot c). \<not> is_held (lease_at j (ck_at_ms c) (rp_lease p)))
    \<and> (\<forall>old. current = Some old \<longrightarrow> (\<forall>e \<in> set (ck_frontier old). \<exists>f \<in> set (ck_frontier c).
         frontier_key f = frontier_key e \<and> fr_seq_num e \<le> fr_seq_num f
         \<and> (fr_seq_num f = fr_seq_num e \<longrightarrow> fr_operation f = fr_operation e)))"
proof -
  from assms have live: "live_leases (ck_snapshot c) (ck_at_ms c) (rp_lease p) = []"
    and frontier: "validate_frontier current (ck_frontier c) = Inr ()"
    and rest: "permits_checkpoint h p author (ck_authority_revision c)" "ck_mesh_id c = mesh"
      "ck_policy_revision c = rp_revision p"
      "blob_verifies h (ck_snapshot_ref c) (enc (ck_snapshot c))"
      "verifies_direct h (ck_snapshot_commitment c) StorageCheckpoints (enc (ck_snapshot c))"
    by (auto simp: validate_checkpoint_def split: if_splits list.splits)
  have "\<forall>old. current = Some old \<longrightarrow> (\<forall>e \<in> set (ck_frontier old). \<exists>f \<in> set (ck_frontier c).
         frontier_key f = frontier_key e \<and> fr_seq_num e \<le> fr_seq_num f
         \<and> (fr_seq_num f = fr_seq_num e \<longrightarrow> fr_operation f = fr_operation e))"
    using frontier validate_frontier_keeps by blast
  with live rest show ?thesis
    by (simp add: permits_checkpoint_def blob_verifies_blake3 verifies_direct_iff live_leases_Nil)
qed

definition demo_policy :: mesh_retention_policy where
  "demo_policy =
     \<lparr>rp_revision = 1, rp_checkpoint_authority = 9, rp_availability = \<lparr>promised_floor = Forever\<rparr>,
      rp_erasure = \<lparr>privacy_ceiling = UntilCheckpoint, terminal_job_payload = EraseTerminalAtCheckpoint\<rparr>,
      rp_lease = \<lparr>max_skew_ms = 0\<rparr>\<rparr>"

lemma demo_checkpoint_accepted:
  "validate_checkpoint (\<lambda>b. replicate 32 0) (\<lambda>s. []) demo_policy 7 9 None demo_checkpoint = Inr ()"
  by (simp add: validate_checkpoint_def demo_checkpoint_def checkpoint_new_def demo_policy_def
      permits_checkpoint_def authority_revision_def digest_blake3_def live_leases_def lease_at_def
      phase_at_def phase_of_epoch_def job_lease_terms_def demo_job_def demo_epochs_def sat_add_def
      blob_verifies_blake3 verifies_direct_iff validate_frontier_def)

theorem accepted_checkpoint_is_sound_witness:
  "\<not> is_held (lease_at demo_job 9000 (rp_lease demo_policy))"
  using accepted_checkpoint_is_sound [OF demo_checkpoint_accepted]
  by (simp add: demo_checkpoint_def checkpoint_new_def)

section \<open>Replaying a snapshot\<close>

definition posted_of :: "job \<Rightarrow> posted" where
  "posted_of j =
     \<lparr>po_kind = job_kind j, po_payload = job_payload j, po_spec = job_spec j, po_by = job_posted_by j\<rparr>"

lemma seed_job_other:
  assumes "i \<noteq> job_id j"
  shows "bt_get (g_posted (seed_job j s)) i = bt_get (g_posted s) i"
    and "bt_get (g_claims (seed_job j s)) i = bt_get (g_claims s) i"
    and "bt_get (g_results (seed_job j s)) i = bt_get (g_results s) i"
  using assms
  by (cases "job_state j"; simp add: seed_job_def Let_def add_defs bt_entry_def)+

lemma seed_job_same:
  "bt_get (g_posted (seed_job j s)) (job_id j) = Some (posted_of j)"
  "bt_get (g_claims s) (job_id j) = None \<Longrightarrow>
     bt_get (g_claims (seed_job j s)) (job_id j) =
       map_option (\<lambda>w. [(0, \<lparr>cf_author = w, cf_at_ms = 0\<rparr>)]) (state_winner (job_state j))"
  "bt_get (g_results s) (job_id j) = None \<Longrightarrow>
     bt_get (g_results (seed_job j s)) (job_id j) =
       (case job_state j of
          Done w b \<Rightarrow> Some [(w, ResultInline b)]
        | Committed w out \<Rightarrow> Some [(w, ResultCommitted out)]
        | _ \<Rightarrow> None)"
  by (cases "job_state j"; simp add: seed_job_def Let_def add_defs bt_entry_def posted_of_def)+

lemma seed_job_leases [simp]: "g_leases (seed_job j s) = g_leases s" "g_devices (seed_job j s) = g_devices s"
  by (cases "job_state j"; simp add: seed_job_def Let_def add_defs)+

abbreviation seeded :: "job list \<Rightarrow> gather" where
  "seeded js \<equiv> fold seed_job js gather_empty"

lemma seeded_leases [simp]: "g_leases (seeded js) = []" "g_devices (seeded js) = []"
proof -
  have "g_leases (fold seed_job js s) = g_leases s" "g_devices (fold seed_job js s) = g_devices s" for s
    by (induction js arbitrary: s) simp_all
  then show "g_leases (seeded js) = []" "g_devices (seeded js) = []"
    by (simp_all add: gather_empty_def)
qed

lemma seeded_fresh:
  "i \<notin> job_id ` set js \<Longrightarrow>
     bt_get (g_posted (seeded js)) i = None \<and> bt_get (g_claims (seeded js)) i = None
     \<and> bt_get (g_results (seeded js)) i = None"
  by (induction js rule: rev_induct) (auto simp: seed_job_other gather_empty_def)

lemma seeded_job:
  assumes "distinct (map job_id js)" "j \<in> set js"
  shows "bt_get (g_posted (seeded js)) (job_id j) = Some (posted_of j)
    \<and> bt_get (g_claims (seeded js)) (job_id j) =
        map_option (\<lambda>w. [(0, \<lparr>cf_author = w, cf_at_ms = 0\<rparr>)]) (state_winner (job_state j))
    \<and> bt_get (g_results (seeded js)) (job_id j) =
       (case job_state j of
          Done w b \<Rightarrow> Some [(w, ResultInline b)]
        | Committed w out \<Rightarrow> Some [(w, ResultCommitted out)]
        | _ \<Rightarrow> None)"
  using assms
proof (induction js rule: rev_induct)
  case (snoc k js)
  show ?case
  proof (cases "j = k")
    case True
    with snoc.prems(1) have "bt_get (g_claims (seeded js)) (job_id j) = None"
      "bt_get (g_results (seeded js)) (job_id j) = None"
      using seeded_fresh [of "job_id j" js] by simp_all
    with True show ?thesis by (simp add: seed_job_same)
  next
    case False
    with snoc.prems have mem: "j \<in> set js" by simp
    then have "job_id j \<in> job_id ` set js" by (rule imageI)
    moreover have "job_id k \<notin> job_id ` set js" using snoc.prems(1) by simp
    ultimately have "job_id j \<noteq> job_id k" by metis
    with mem snoc show ?thesis by (simp add: seed_job_other)
  qed
qed simp

text \<open>
  A job the fold can resolve again from itself alone: no lease terms, and a terminal state
  that answers the generation it was posted in.
\<close>

definition self_contained :: "job \<Rightarrow> bool" where
  "self_contained j \<longleftrightarrow>
     job_lease_terms j = None \<and> job_lease j = [] \<and> job_next_claimants j = []
     \<and> (case job_state j of
          Done _ _ \<Rightarrow> job_spec j = None
        | Committed _ out \<Rightarrow>
            (case job_spec j of None \<Rightarrow> False | Some sp \<Rightarrow> output_validate_against out sp = Inr ())
        | _ \<Rightarrow> True)"

lemma resolve_seeded:
  assumes "distinct (map job_id js)" "j \<in> set js" "self_contained j"
  shows "resolve_job (seeded js) (job_id j) (posted_of j) = j"
proof (rule job.equality)
  note seed = seeded_job [OF assms(1,2)]
  have unleased: "job_lease_terms j = None" "job_lease j = []" "job_next_claimants j = []"
    using assms(3) by (simp_all add: self_contained_def)
  then have lease: "job_lease (resolve_job (seeded js) (job_id j) (posted_of j)) = []"
    by (auto simp: resolve_job_lease posted_of_def job_lease_terms_def split: option.splits)
  with unleased show "job_lease (resolve_job (seeded js) (job_id j) (posted_of j)) = job_lease j"
    by simp
  show "job_next_claimants (resolve_job (seeded js) (job_id j) (posted_of j)) = job_next_claimants j"
    using unleased by (auto simp: resolve_job_def Let_def posted_of_def job_lease_terms_def split: option.splits)
  show "job_state (resolve_job (seeded js) (job_id j) (posted_of j)) = job_state j"
    using seed assms(3) unfolding resolve_job_state lease resolve_state_unleased
    by (cases "job_state j")
      (auto simp: job_claims_def self_contained_def posted_resolve_def posted_of_def bt_get_def
        job_lease_terms_def split: option.splits)
qed (simp_all add: resolve_job_def Let_def posted_of_def)

lemma replay_self_contained:
  assumes "bt_inv m" "\<forall>(i, j) \<in> set m. job_id j = i \<and> self_contained j"
  shows "board_jobs (fold_from_snapshot pp ed mesh (bt_values m) []) = m"
proof -
  let ?js = "bt_values m"
  have ids: "map job_id ?js = map fst m"
    using assms(2) by (auto simp: bt_values_def)
  then have dist: "distinct (map job_id ?js)"
    using assms(1) by (simp add: bt_inv_distinct)
  have "bt_inv (g_posted (seeded ?js))"
    using seed_jobs_inv [OF gather_empty_inv, of ?js] by (rule gather_inv_maps)
  then have inv: "bt_inv (map (\<lambda>(i, post). (i, resolve_job (seeded ?js) i post)) (g_posted (seeded ?js)))"
    by (simp add: bt_inv_def case_prod_beta comp_def)
  have "map_option (resolve_job (seeded ?js) i) (bt_get (g_posted (seeded ?js)) i) = bt_get m i" for i
  proof (cases "bt_get m i")
    case None
    then have "i \<notin> job_id ` set ?js"
      by (metis bt_get_def ids list.set_map map_of_eq_None_iff)
    with None show ?thesis by (simp add: seeded_fresh)
  next
    case (Some j)
    with assms have "j \<in> set ?js" "job_id j = i" "self_contained j"
      by (auto simp: bt_get_eq_iff_mem bt_values_def) force
    with Some dist seeded_job [OF dist] resolve_seeded [OF dist] show ?thesis by fastforce
  qed
  with inv assms(1) show ?thesis
    unfolding fold_from_snapshot_def resolve_board_def
    by (intro bt_ext) (simp_all add: bt_get_map_entries fun_eq_iff)
qed

lemma bt_inv_map_entries: "bt_inv (map (\<lambda>(i, p). (i, f i p)) m) \<longleftrightarrow> bt_inv m"
  by (simp add: bt_inv_def case_prod_beta comp_def)

lemma board_jobs_inv: "bt_inv (board_jobs (board_fold pp ed mesh ops))"
  using gather_inv_maps(1) [OF gathered_inv_empty, of pp ed mesh ops]
  by (simp add: board_fold_def fold_from_snapshot_def resolve_board_def gathered_def bt_inv_map_entries)

lemma board_job_id:
  "board_job (board_fold pp ed mesh ops) i = Some j \<Longrightarrow> job_id j = i"
  by (auto simp: board_job_iff resolve_job_def Let_def)

lemma board_job_self_contained:
  assumes "board_job (board_fold pp ed mesh ops) i = Some j" "job_lease_terms j = None"
  shows "self_contained j"
proof -
  have lease: "job_lease j = []" using assms by (rule board_job_unleased)
  have "job_next_claimants j = []"
    using assms by (auto simp: board_job_iff resolve_job_def Let_def job_lease_terms_def split: option.splits)
  moreover have "job_spec j = None" if "job_state j = Done w b" for w b
    using board_job_state [OF assms(1) lease that] by (auto simp: posted_resolve_Done dest!: sym [of "Done w b"])
  moreover have "\<exists>sp. job_spec j = Some sp \<and> output_validate_against out sp = Inr ()"
    if "job_state j = Committed w out" for w out
    using board_job_state [OF assms(1) lease that]
    by (auto simp: posted_resolve_Committed dest!: sym [of "Committed w out"])
  ultimately show ?thesis
    using assms(2) lease by (auto simp: self_contained_def split: job_state.splits option.splits)
qed

text \<open>
  C11. Replaying a checkpoint gives the board back: on a mesh whose jobs carry no lease terms,
  folding the snapshot of a board with no further operations yields the same jobs.
\<close>

theorem snapshot_round_trip:
  assumes "\<forall>j \<in> set (snapshot_from_board (board_fold pp ed mesh ops)). job_lease_terms j = None"
  shows "board_jobs (fold_from_snapshot pp ed mesh (snapshot_from_board (board_fold pp ed mesh ops)) [])
    = board_jobs (board_fold pp ed mesh ops)"
  unfolding snapshot_from_board_def
proof (rule replay_self_contained [OF board_jobs_inv], clarify)
  fix i j
  assume ij: "(i, j) \<in> set (board_jobs (board_fold pp ed mesh ops))"
  then have "board_job (board_fold pp ed mesh ops) i = Some j"
    by (simp add: board_job_def bt_get_eq_iff_mem board_jobs_inv)
  moreover from ij assms have "job_lease_terms j = None"
    by (force simp: snapshot_from_board_def bt_values_def)
  ultimately show "job_id j = i \<and> self_contained j"
    by (simp add: board_job_id board_job_self_contained)
qed

theorem snapshot_round_trip_witness:
  "board_jobs (fold_from_snapshot (demo_p2panda demo_plain) demo_ed25519 7 [demo_plain_job] [])
   = [(5, demo_plain_job)]"
  using snapshot_round_trip [of "demo_p2panda demo_plain" demo_ed25519 7 demo_plain_ops]
  by (simp add: demo_plain_eval snapshot_from_board_def bt_values_def)
    (simp add: demo_plain_job_def job_lease_terms_def)

text \<open>
  C33. A holder can have an output committed that breaks the grant. The demo job grants 1024
  bytes; its holder signs a valid completion and another one of 3000 bytes under the same
  lease, whose operation hash is lower. The valid one closes the epoch, but the board commits
  the output of the other, since the output is looked up by lease and holder alone.
\<close>

theorem leased_commit_can_break_grant:
  "map_option job_state
     (board_job
        (board_fold (demo_p2panda demo_leases) demo_ed25519 7 (demo_leased_ops @ [demo_op 3 9 7])) 5)
   = Some (Committed 3 (demo_output 3000))
   \<and> output_validate_against (demo_output 3000) demo_spec = Inl (OutputOverGrant 3000 1024)"
  by (simp add: demo_leased_ops_def demo_defs demo_leases_def board_job_def gather_eval resolve_eval
      chain_eval)

end
