(* ===== verification/Stickleback_Admission.thy ===== *)
theory Stickleback_Admission
  imports Prelude
begin

text \<open>
  What a domain policy answers about an operation (\<^verbatim>\<open>crates/stickleback/src/processor.rs\<close>):
  the topic and log it belongs to, what becomes of the log before it, and the payloads to erase with
  it. Of a rejection only its stable code is modelled, not the diagnostic text.
\<close>

section \<open>Admission\<close>

datatype history_action = KeepHistory | PruneBeforeCurrent

record 'l store_target =
  st_topic :: key32
  st_log_id :: 'l

record 'l admission =
  ad_target :: "'l store_target"
  ad_history :: history_action
  ad_erase_payloads :: "key32 list"

definition admission_keep :: "'l store_target \<Rightarrow> 'l admission" where
  "admission_keep t = \<lparr>ad_target = t, ad_history = KeepHistory, ad_erase_payloads = []\<rparr>"

definition prune_before_current :: "'l store_target \<Rightarrow> 'l admission" where
  "prune_before_current t = \<lparr>ad_target = t, ad_history = PruneBeforeCurrent, ad_erase_payloads = []\<rparr>"

definition erasing_payloads :: "'l admission \<Rightarrow> key32 list \<Rightarrow> 'l admission" where
  "erasing_payloads a ps = a\<lparr>ad_erase_payloads := ad_erase_payloads a @ ps\<rparr>"

type_synonym reject = string

end
