(* ===== verification/Mesh_Store.thy ===== *)
theory Mesh_Store
  imports Mesh_Replay Stickleback_Admission
begin

text \<open>
  What the mesh decides about its store of record (\<^verbatim>\<open>crates/mesh/mesh/src/store.rs\<close>):
  which operations may be stored, how the board is folded from the retained operations under the
  latest checkpoint, and how the next checkpoint is built. The operations of the mesh are a list,
  in the order the store yields them; the key-value backend itself is not part of this theory.
\<close>

section \<open>Admission\<close>

fun checkpoint_reject :: "checkpoint_error \<Rightarrow> reject" where
  "checkpoint_reject (UnsupportedVersion _) = ''checkpoint-version''"
| "checkpoint_reject ForeignMesh = ''checkpoint-foreign-mesh''"
| "checkpoint_reject UnauthorizedAuthority = ''checkpoint-unauthorized''"
| "checkpoint_reject StalePolicy = ''checkpoint-stale-policy''"
| "checkpoint_reject FalseSnapshotReference = ''checkpoint-false-snapshot-ref''"
| "checkpoint_reject FalseSnapshotCommitment = ''checkpoint-false-commitment''"
| "checkpoint_reject DuplicateFrontier = ''checkpoint-duplicate-frontier''"
| "checkpoint_reject FrontierRewind = ''checkpoint-frontier-rewind''"
| "checkpoint_reject (LiveLease _) = ''checkpoint-live-lease''"

record stored_checkpoint =
  sc_operation :: key32
  sc_checkpoint :: retention_checkpoint

record mesh_policy =
  mp_mesh_id :: key32
  mp_retention :: "mesh_retention_policy option"
  mp_current :: "stored_checkpoint option"

text \<open>The bounds one operation can be judged on alone.\<close>

fun admit_body :: "ed25519 \<Rightarrow> key32 \<Rightarrow> mesh_event \<Rightarrow> reject + unit" where
  "admit_body ed author (JobPostedV2 sp _ _) =
     (case spec_validate sp of Inl _ \<Rightarrow> Inl ''invalid-job-spec'' | Inr _ \<Rightarrow> Inr ())"
| "admit_body ed author (JobDoneV2 _ out _) =
     (case output_validate_self out of Inl _ \<Rightarrow> Inl ''invalid-job-result'' | Inr _ \<Rightarrow> Inr ())"
| "admit_body ed author (JobCompletedUnderLease _ _ out _) =
     (case output_validate_self out of Inl _ \<Rightarrow> Inl ''invalid-job-result'' | Inr _ \<Rightarrow> Inr ())"
| "admit_body ed author (LeaseGranted _ _ granted expires) =
     (if expires \<le> granted then Inl ''invalid-lease-window''
      else if expires - granted > MAX_LEASE_DURATION_MS then Inl ''invalid-lease-window''
      else Inr ())"
| "admit_body ed author (DeviceAttested a) =
     (if \<not> attests ed author a then Inl ''invalid-device-attestation'' else Inr ())"
| "admit_body ed author _ = Inr ()"

definition erased_jobs :: "board_snapshot \<Rightarrow> key32 list" where
  "erased_jobs snap =
     map job_id (filter (\<lambda>j. job_spec j = None \<and> is_terminal (job_state j) \<and> job_payload j = None) snap)"

definition mesh_admit ::
  "'h p2panda \<Rightarrow> ed25519 \<Rightarrow> (bytes \<Rightarrow> bytes) \<Rightarrow> (board_snapshot \<Rightarrow> bytes) \<Rightarrow> mesh_policy
   \<Rightarrow> 'h operation \<Rightarrow> reject + mesh_log_id admission" where
  "mesh_admit pp ed h enc mp oper =
     (let ext = pp_extensions pp (op_header oper);
          author = pp_verifying_key pp (op_header oper)
      in
      if mesh_id ext \<noteq> mp_mesh_id mp then Inl ''wrong-mesh''
      else
        (case from_operation pp oper of
           Inl _ \<Rightarrow> Inl ''invalid-mesh-event''
         | Inr (_, event) \<Rightarrow>
             let target = \<lparr>st_topic = mp_mesh_id mp, st_log_id = event_log_id event\<rparr> in
             (case event of
                RetentionCheckpoint c \<Rightarrow>
                  if prune_flag ext then Inl ''checkpoint-cannot-prune''
                  else
                    (case mp_retention mp of
                       None \<Rightarrow> Inl ''retention-unconfigured''
                     | Some policy \<Rightarrow>
                         (case validate_checkpoint h enc policy (mp_mesh_id mp) author
                                 (map_option sc_checkpoint (mp_current mp)) c of
                            Inl e \<Rightarrow> Inl (checkpoint_reject e)
                          | Inr _ \<Rightarrow>
                              Inr (erasing_payloads (admission_keep target) (erased_jobs (ck_snapshot c)))))
              | HistoryPruned checkpoint _ \<Rightarrow>
                  if \<not> prune_flag ext then Inl ''missing-prune-flag''
                  else
                    (case mp_current mp of
                       None \<Rightarrow> Inl ''checkpoint-missing''
                     | Some current \<Rightarrow>
                         if checkpoint \<noteq> sc_operation current then Inl ''checkpoint-stale''
                         else Inr (prune_before_current target))
              | _ \<Rightarrow>
                  if prune_flag ext then Inl ''unexpected-prune-flag''
                  else
                    (case admit_body ed author event of
                       Inl e \<Rightarrow> Inl e
                     | Inr _ \<Rightarrow> Inr (admission_keep target)))))"

section \<open>The board under a checkpoint\<close>

type_synonym 'h decoded_op = "'h operation \<times> mesh_event"

definition decode_ops :: "'h p2panda \<Rightarrow> 'h operation list \<Rightarrow> 'h decoded_op list" where
  "decode_ops pp ops =
     List.map_filter
       (\<lambda>x. case from_operation pp x of Inl _ \<Rightarrow> None | Inr (_, event) \<Rightarrow> Some (x, event)) ops"

definition op_position :: "'h p2panda \<Rightarrow> 'h decoded_op \<Rightarrow> key32 \<times> mesh_log_id" where
  "op_position pp d = (pp_verifying_key pp (op_header (fst d)), event_log_id (snd d))"

definition frontier_seqs :: "log_frontier list \<Rightarrow> (key32 \<times> mesh_log_id, u64) btmap" where
  "frontier_seqs fs = fold (\<lambda>f. bt_insert (frontier_key f) (fr_seq_num f)) fs []"

definition in_tail :: "'h p2panda \<Rightarrow> (key32 \<times> mesh_log_id, u64) btmap \<Rightarrow> 'h decoded_op \<Rightarrow> bool" where
  "in_tail pp m d =
     (case bt_get m (op_position pp d) of
        None \<Rightarrow> True
      | Some seq \<Rightarrow> ucast (pp_seq_num pp (op_header (fst d))) > seq)"

definition board_from ::
  "'h p2panda \<Rightarrow> ed25519 \<Rightarrow> key32 \<Rightarrow> 'h decoded_op list \<Rightarrow> stored_checkpoint option \<Rightarrow> job_board" where
  "board_from pp ed mesh decoded current =
     (case current of
        None \<Rightarrow> board_fold pp ed mesh (map fst decoded)
      | Some stored \<Rightarrow>
          fold_from_snapshot pp ed mesh (ck_snapshot (sc_checkpoint stored))
            (map fst
               (filter (in_tail pp (frontier_seqs (ck_frontier (sc_checkpoint stored)))) decoded)))"

section \<open>Checkpoints of the store\<close>

datatype mesh_store_error = RetentionUnconfigured | RetentionRefused checkpoint_error

definition checkpoint_ops :: "'h decoded_op list \<Rightarrow> ('h operation \<times> retention_checkpoint) list" where
  "checkpoint_ops decoded =
     List.map_filter
       (\<lambda>(x, event). case event of RetentionCheckpoint c \<Rightarrow> Some (x, c) | _ \<Rightarrow> None) decoded"

fun replay_checkpoints ::
  "'h p2panda \<Rightarrow> (bytes \<Rightarrow> bytes) \<Rightarrow> (board_snapshot \<Rightarrow> bytes) \<Rightarrow> mesh_retention_policy \<Rightarrow> key32
   \<Rightarrow> stored_checkpoint option \<Rightarrow> ('h operation \<times> retention_checkpoint) list
   \<Rightarrow> mesh_store_error + stored_checkpoint option" where
  "replay_checkpoints pp h enc p mesh current [] = Inr current"
| "replay_checkpoints pp h enc p mesh current ((x, c) # cs) =
     (case validate_checkpoint h enc p mesh (pp_verifying_key pp (op_header x))
             (map_option sc_checkpoint current) c of
        Inl e \<Rightarrow> Inl (RetentionRefused e)
      | Inr _ \<Rightarrow>
          replay_checkpoints pp h enc p mesh
            (Some \<lparr>sc_operation = op_hash x, sc_checkpoint = c\<rparr>) cs)"

definition latest_checkpoint_from_decoded ::
  "'h p2panda \<Rightarrow> (bytes \<Rightarrow> bytes) \<Rightarrow> (board_snapshot \<Rightarrow> bytes) \<Rightarrow> mesh_retention_policy option \<Rightarrow> key32
   \<Rightarrow> 'h decoded_op list \<Rightarrow> mesh_store_error + stored_checkpoint option" where
  "latest_checkpoint_from_decoded pp h enc retention mesh decoded =
     (case retention of
        None \<Rightarrow> Inr None
      | Some p \<Rightarrow>
          replay_checkpoints pp h enc p mesh None
            (sort_key (\<lambda>(x, _). pp_seq_num pp (op_header x)) (checkpoint_ops decoded)))"

definition store_board ::
  "'h p2panda \<Rightarrow> ed25519 \<Rightarrow> (bytes \<Rightarrow> bytes) \<Rightarrow> (board_snapshot \<Rightarrow> bytes) \<Rightarrow> mesh_retention_policy option
   \<Rightarrow> key32 \<Rightarrow> 'h operation list \<Rightarrow> mesh_store_error + job_board" where
  "store_board pp ed h enc retention mesh ops =
     (let decoded = decode_ops pp ops
      in (case latest_checkpoint_from_decoded pp h enc retention mesh decoded of
            Inl e \<Rightarrow> Inl e
          | Inr current \<Rightarrow> Inr (board_from pp ed mesh decoded current)))"

definition op_frontier :: "'h p2panda \<Rightarrow> 'h decoded_op \<Rightarrow> log_frontier" where
  "op_frontier pp d =
     \<lparr>fr_author = pp_verifying_key pp (op_header (fst d)), fr_log_id = event_log_id (snd d),
      fr_seq_num = ucast (pp_seq_num pp (op_header (fst d))), fr_operation = op_hash (fst d)\<rparr>"

definition frontier_start :: "stored_checkpoint option \<Rightarrow> frontier_map" where
  "frontier_start current =
     (case current of
        None \<Rightarrow> []
      | Some s \<Rightarrow> fold (\<lambda>f. bt_insert (frontier_key f) f) (ck_frontier (sc_checkpoint s)) [])"

definition frontier_advance :: "'h p2panda \<Rightarrow> 'h decoded_op \<Rightarrow> frontier_map \<Rightarrow> frontier_map" where
  "frontier_advance pp d m =
     (if event_log_id (snd d) \<noteq> Events then m
      else bt_insert (op_position pp d) (op_frontier pp d) m)"

definition build_checkpoint ::
  "'h p2panda \<Rightarrow> ed25519 \<Rightarrow> (bytes \<Rightarrow> bytes) \<Rightarrow> (board_snapshot \<Rightarrow> bytes) \<Rightarrow> mesh_retention_policy option
   \<Rightarrow> key32 \<Rightarrow> 'h operation list \<Rightarrow> u64 \<Rightarrow> mesh_store_error + retention_checkpoint" where
  "build_checkpoint pp ed h enc retention mesh ops at_ms =
     (case retention of
        None \<Rightarrow> Inl RetentionUnconfigured
      | Some p \<Rightarrow>
          let decoded = decode_ops pp ops in
          (case latest_checkpoint_from_decoded pp h enc retention mesh decoded of
             Inl e \<Rightarrow> Inl e
           | Inr current \<Rightarrow>
               let board = board_from pp ed mesh decoded current;
                   snap0 = snapshot_from_board board;
                   snap = (if terminal_job_payload (rp_erasure p) = EraseTerminalAtCheckpoint
                           then fst (erase_terminal_payloads snap0) else snap0)
               in (case live_leases snap at_ms (rp_lease p) of
                     j # _ \<Rightarrow> Inl (RetentionRefused (LiveLease j))
                   | [] \<Rightarrow>
                       Inr (checkpoint_new h enc mesh (rp_revision p) (authority_revision h p)
                         (bt_values (fold (frontier_advance pp) decoded (frontier_start current)))
                         snap at_ms))))"

section \<open>What admission guarantees\<close>

text \<open>A result that names its resource and its implementation properly, and a blob by 32 bytes.\<close>

definition output_self_ok :: "job_output \<Rightarrow> bool" where
  "output_self_ok out \<longleftrightarrow>
     ident_grammar (as_str (jo_resource out)) \<and> length (as_str (jo_resource out)) \<le> MAX_IDENT_LEN
     \<and> ident_grammar (impl_str (jo_implementation out))
     \<and> length (impl_str (jo_implementation out)) \<le> MAX_IDENT_LEN
     \<and> name_ok (jo_name out) \<and> length (dg_bytes (br_digest (jo_blob out))) = 32"

lemma output_validate_self_iff: "output_validate_self out = Inr () \<longleftrightarrow> output_self_ok out"
  using validate_name_iff [of "jo_name out"] ident_validate_iff [of "as_str (jo_resource out)"]
    ident_validate_iff [of "impl_str (jo_implementation out)"]
  by (auto simp: output_validate_self_def output_self_ok_def resource_validate_def implementation_validate_def
      as_32_def split: sum.splits)

text \<open>
  C8. Nothing unbounded is stored: an admitted operation addresses this mesh and goes to its
  event's log. A stored job manifest satisfies every bound; a stored result, leased or not,
  names a well-formed resource, implementation and output and a blob by a 32-byte digest; a
  stored grant has a non-empty window of at most 24 hours; a stored attestation is the author's
  own; a stored checkpoint passes every check of the retention policy, from its author and
  against the latest accepted checkpoint. The prune flag is carried by exactly the events that
  announce pruning, these name the latest accepted checkpoint, and they alone prune; payloads
  are erased by a checkpoint alone, and only those of jobs its snapshot records as finished,
  posted without a manifest, and without their payload.
\<close>

theorem admitted_operation_is_bounded:
  assumes "mesh_admit pp ed h enc mp oper = Inr a" "from_operation pp oper = Inr (m, ev)"
  shows "m = mp_mesh_id mp \<and> st_topic (ad_target a) = m \<and> st_log_id (ad_target a) = event_log_id ev
    \<and> (case ev of
         JobPostedV2 sp _ _ \<Rightarrow> spec_ok sp
       | JobDoneV2 _ out _ \<Rightarrow> output_self_ok out
       | JobCompletedUnderLease _ _ out _ \<Rightarrow> output_self_ok out
       | LeaseGranted _ _ granted expires \<Rightarrow>
           granted < expires \<and> expires - granted \<le> MAX_LEASE_DURATION_MS
       | DeviceAttested at \<Rightarrow> attests ed (pp_verifying_key pp (op_header oper)) at
       | RetentionCheckpoint c \<Rightarrow>
           (\<exists>p. mp_retention mp = Some p
              \<and> validate_checkpoint h enc p m (pp_verifying_key pp (op_header oper))
                  (map_option sc_checkpoint (mp_current mp)) c = Inr ())
       | HistoryPruned c _ \<Rightarrow> (\<exists>s. mp_current mp = Some s \<and> sc_operation s = c)
       | _ \<Rightarrow> True)
    \<and> (prune_flag (pp_extensions pp (op_header oper)) \<longleftrightarrow> (\<exists>c t. ev = HistoryPruned c t))
    \<and> (ad_history a = PruneBeforeCurrent \<longleftrightarrow> (\<exists>c t. ev = HistoryPruned c t))
    \<and> (\<forall>i \<in> set (ad_erase_payloads a). \<exists>c j. ev = RetentionCheckpoint c \<and> j \<in> set (ck_snapshot c)
         \<and> job_id j = i \<and> is_terminal (job_state j) \<and> job_spec j = None \<and> job_payload j = None)"
proof -
  have "m = mesh_id (pp_extensions pp (op_header oper))"
    using assms(2) by (auto simp: from_operation_def split: option.splits)
  with assms show ?thesis
    by (cases ev)
      (auto simp: mesh_admit_def Let_def admission_keep_def erasing_payloads_def erased_jobs_def
        prune_before_current_def spec_validate_iff output_validate_self_iff not_le not_less
        split: if_splits sum.splits option.splits)
qed

definition demo_mesh_policy :: mesh_policy where
  "demo_mesh_policy = \<lparr>mp_mesh_id = 7, mp_retention = None, mp_current = None\<rparr>"

theorem admitted_operation_is_bounded_witness: "spec_ok demo_spec \<and> output_self_ok (demo_output 3)"
proof -
  have admit: "mesh_admit (demo_p2panda demo_leases) demo_ed25519 id (\<lambda>s. []) demo_mesh_policy x
      = Inr (admission_keep \<lparr>st_topic = 7, st_log_id = Events\<rparr>)"
    if "x = demo_op 1 5 0 \<or> x = demo_op 3 15 6" for x
  proof -
    have "output_validate_self (demo_output 3) = Inr ()" by code_simp
    with that show ?thesis
      by (auto simp: mesh_admit_def demo_mesh_policy_def demo_defs demo_leases_def from_operation_def)
  qed
  have "from_operation (demo_p2panda demo_leases) (demo_op 1 5 0) = Inr (7, JobPostedV2 demo_spec 0 10)"
    "from_operation (demo_p2panda demo_leases) (demo_op 3 15 6)
      = Inr (7, JobCompletedUnderLease 5 14 (demo_output 3) 2000)"
    by (simp_all add: demo_defs demo_leases_def from_operation_def)
  note event = this
  show ?thesis
    using admitted_operation_is_bounded [OF admit event(1)] admitted_operation_is_bounded [OF admit event(2)]
    by simp
qed

section \<open>A built checkpoint is accepted\<close>

definition keyed_by_position :: "frontier_map \<Rightarrow> bool" where
  "keyed_by_position m \<longleftrightarrow> bt_inv m \<and> (\<forall>k f. bt_get m k = Some f \<longrightarrow> frontier_key f = k)"

lemma keyed_get: "keyed_by_position m \<Longrightarrow> bt_get m k = Some f \<Longrightarrow> frontier_key f = k"
  unfolding keyed_by_position_def by blast

lemma keyed_insert: "keyed_by_position m \<Longrightarrow> frontier_key f = k \<Longrightarrow> keyed_by_position (bt_insert k f m)"
  by (simp add: keyed_by_position_def bt_get_insert)

lemma keyed_start_fold:
  "keyed_by_position m \<Longrightarrow> keyed_by_position (fold (\<lambda>f. bt_insert (frontier_key f) f) fs m)"
  by (induction fs arbitrary: m) (simp_all add: keyed_insert)

lemma keyed_start: "keyed_by_position (frontier_start current)"
  using keyed_start_fold [of "[]"]
  by (cases current) (simp_all add: frontier_start_def keyed_by_position_def)

lemma op_frontier_key [simp]: "frontier_key (op_frontier pp d) = op_position pp d"
  by (simp add: frontier_key_def op_frontier_def op_position_def)

lemma keyed_advance: "keyed_by_position m \<Longrightarrow> keyed_by_position (fold (frontier_advance pp) ds m)"
  by (induction ds arbitrary: m) (simp_all add: frontier_advance_def keyed_insert)

text \<open>Listing a keyed map and indexing the list again gives the map back.\<close>

lemma bt_insert_last:
  "\<forall>(l, _) \<in> set m. l < k \<Longrightarrow> bt_insert k v m = m @ [(k, v)]"
  by (induction k v m rule: bt_insert.induct) auto

lemma frontier_index_append:
  "keyed_by_position (m @ n) \<Longrightarrow> frontier_index (bt_values n) m = Inr (m @ n)"
proof (induction n arbitrary: m)
  case (Cons kf n)
  obtain k f where kf: "kf = (k, f)" by (cases kf)
  from Cons.prems have "bt_inv (m @ (k, f) # n)" by (simp add: kf keyed_by_position_def)
  then have below: "\<forall>(l, _) \<in> set m. l < k" and "bt_get (m @ (k, f) # n) k = Some f"
    by (auto simp: bt_get_eq_iff_mem) (auto simp: bt_inv_def sorted_wrt_append)
  with Cons.prems have k: "frontier_key f = k"
    unfolding kf by (blast dest: keyed_get)
  from below have "bt_get m k = None"
    by (auto simp: bt_get_def map_of_eq_None_iff)
  moreover have "frontier_index (bt_values n) (m @ [(k, f)]) = Inr ((m @ [(k, f)]) @ n)"
    by (rule Cons.IH) (use Cons.prems in \<open>simp add: kf\<close>)
  ultimately show ?case
    by (simp add: kf bt_values_def k bt_insert_last [OF below])
qed (simp add: bt_values_def)

lemma frontier_index_keyed: "keyed_by_position m \<Longrightarrow> frontier_index (bt_values m) [] = Inr m"
  using frontier_index_append [of "[]" m] by simp

lemma frontier_index_distinct:
  "frontier_index fs m = Inr m' \<Longrightarrow>
     distinct (map frontier_key fs) \<and> (\<forall>f \<in> set fs. bt_get m (frontier_key f) = None)"
  by (induction fs m rule: frontier_index.induct)
    (fastforce simp: bt_get_insert split: if_splits)+

lemma start_get:
  "distinct (map frontier_key fs) \<Longrightarrow> f \<in> set fs \<Longrightarrow>
     bt_get (fold (\<lambda>f. bt_insert (frontier_key f) f) fs m) (frontier_key f) = Some f"
proof (induction fs rule: rev_induct)
  case (snoc g fs)
  show ?case
  proof (cases "f = g")
    case False
    with snoc.prems have "f \<in> set fs" by simp
    then have "frontier_key f \<in> frontier_key ` set fs" by (rule imageI)
    moreover have "frontier_key g \<notin> frontier_key ` set fs" using snoc.prems(1) by simp
    ultimately have "frontier_key f \<noteq> frontier_key g" by metis
    with snoc \<open>f \<in> set fs\<close> show ?thesis by simp
  qed simp
qed simp

definition own_events :: "'h p2panda \<Rightarrow> 'h decoded_op list \<Rightarrow> key32 \<times> mesh_log_id \<Rightarrow> 'h decoded_op list" where
  "own_events pp ds k = filter (\<lambda>d. event_log_id (snd d) = Events \<and> op_position pp d = k) ds"

lemma advance_get:
  "bt_get (fold (frontier_advance pp) ds m) k =
     (if own_events pp ds k = [] then bt_get m k
      else Some (op_frontier pp (last (own_events pp ds k))))"
  by (induction ds rule: rev_induct)
    (auto simp: own_events_def frontier_advance_def bt_get_insert)

text \<open>
  The retained events of an author, as a log that only ever loses a prefix has them: in
  increasing sequence, and either still with the operation the frontier names or with later
  ones only.
\<close>

definition log_kept :: "'h p2panda \<Rightarrow> 'h decoded_op list \<Rightarrow> log_frontier \<Rightarrow> bool" where
  "log_kept pp ds f \<longleftrightarrow>
     (let own = map (op_frontier pp) (own_events pp ds (frontier_key f))
      in sorted_wrt (\<lambda>x y. fr_seq_num x < fr_seq_num y) own
         \<and> (f \<in> set own \<or> (\<forall>g \<in> set own. fr_seq_num f < fr_seq_num g)))"

lemma sorted_wrt_last:
  "sorted_wrt (\<lambda>x y. fr_seq_num x < fr_seq_num y) fs \<Longrightarrow> f \<in> set fs \<Longrightarrow>
     f = last fs \<or> fr_seq_num f < fr_seq_num (last fs)"
  by (induction fs) auto

lemma log_kept_last:
  assumes "log_kept pp ds f" "own_events pp ds (frontier_key f) \<noteq> []"
  shows "f = op_frontier pp (last (own_events pp ds (frontier_key f)))
    \<or> fr_seq_num f < fr_seq_num (op_frontier pp (last (own_events pp ds (frontier_key f))))"
  using assms sorted_wrt_last [of "map (op_frontier pp) (own_events pp ds (frontier_key f))" f]
  by (auto simp: log_kept_def Let_def last_map)

lemma replay_checkpoints_valid:
  "replay_checkpoints pp h enc p mesh current cs = Inr (Some s) \<Longrightarrow>
     (\<And>c. current = Some c \<Longrightarrow> \<exists>m. frontier_index (ck_frontier (sc_checkpoint c)) [] = Inr m) \<Longrightarrow>
     \<exists>m. frontier_index (ck_frontier (sc_checkpoint s)) [] = Inr m"
proof (induction pp h enc p mesh current cs rule: replay_checkpoints.induct)
  case (2 pp h enc p mesh current x c cs)
  then have ok: "validate_checkpoint h enc p mesh (pp_verifying_key pp (op_header x))
      (map_option sc_checkpoint current) c = Inr ()"
    by (auto split: sum.splits)
  then have "validate_frontier (map_option sc_checkpoint current) (ck_frontier c) = Inr ()"
    by (auto simp: validate_checkpoint_def split: if_splits list.splits)
  then have "\<exists>m. frontier_index (ck_frontier c) [] = Inr m"
    by (auto simp: validate_frontier_def split: sum.splits)
  with 2 ok show ?case by simp
qed auto

lemma latest_checkpoint_frontier:
  assumes "latest_checkpoint_from_decoded pp h enc (Some p) mesh ds = Inr (Some s)"
  shows "distinct (map frontier_key (ck_frontier (sc_checkpoint s)))"
  using assms replay_checkpoints_valid frontier_index_distinct
  unfolding latest_checkpoint_from_decoded_def by fastforce

lemma advance_keeps_frontier:
  assumes "distinct (map frontier_key (ck_frontier (sc_checkpoint s)))"
    and "f \<in> set (ck_frontier (sc_checkpoint s))" "log_kept pp ds f"
  shows "keeps_frontier (fold (frontier_advance pp) ds (frontier_start (Some s))) f"
  using start_get [OF assms(1,2), of "[]"] log_kept_last [OF assms(3)]
  by (auto simp: keeps_frontier_def advance_get frontier_start_def)

text \<open>
  C9. A host does not author a checkpoint its peers refuse: a checkpoint the store builds from
  its operations is accepted from the configured authority, against the latest accepted
  checkpoint, by every peer with the same policy, provided that for every log position of that
  latest checkpoint the retained events of its author are listed in increasing sequence and
  still contain the operation of that position, or only later ones.
\<close>

theorem built_checkpoint_is_accepted:
  assumes "build_checkpoint pp ed h enc (Some p) mesh ops at_ms = Inr c"
    and "latest_checkpoint_from_decoded pp h enc (Some p) mesh (decode_ops pp ops) = Inr current"
    and "\<forall>s. current = Some s \<longrightarrow>
      list_all (log_kept pp (decode_ops pp ops)) (ck_frontier (sc_checkpoint s))"
  shows "validate_checkpoint h enc p mesh (rp_checkpoint_authority p) (map_option sc_checkpoint current) c
    = Inr ()"
proof -
  let ?m = "fold (frontier_advance pp) (decode_ops pp ops) (frontier_start current)"
  from assms(1,2) obtain snap where
    c: "c = checkpoint_new h enc mesh (rp_revision p) (authority_revision h p) (bt_values ?m) snap at_ms"
    and live: "live_leases snap at_ms (rp_lease p) = []"
    by (auto simp: build_checkpoint_def Let_def split: list.splits)
  have index: "frontier_index (bt_values ?m) [] = Inr ?m"
    by (intro frontier_index_keyed keyed_advance keyed_start)
  have "list_all (keeps_frontier ?m) (ck_frontier (sc_checkpoint s))" if "current = Some s" for s
    using that assms(3) latest_checkpoint_frontier assms(2)
    by (auto simp: list_all_iff intro!: advance_keeps_frontier)
  then have "validate_frontier (map_option sc_checkpoint current) (bt_values ?m) = Inr ()"
    unfolding validate_frontier_def index by (simp split: option.split)
  with live show ?thesis
    by (simp add: c validate_checkpoint_def checkpoint_new_def permits_checkpoint_def
        blob_verifies_blake3 verifies_direct_iff)
qed

section \<open>A checkpoint over a leased job\<close>

text \<open>
  The checkpoint the store builds at time 9000 over the completed job of the demonstration
  mesh, the log of the mesh once device 9, the authority, has authored it, and a further claim.
\<close>

definition demo_hash32 :: "bytes \<Rightarrow> bytes" where
  "demo_hash32 b = replicate 32 0"

definition demo_frontier :: "key32 \<Rightarrow> key32 \<Rightarrow> log_frontier" where
  "demo_frontier author hash =
     \<lparr>fr_author = author, fr_log_id = Events, fr_seq_num = ucast hash, fr_operation = hash\<rparr>"

definition demo_built :: retention_checkpoint where
  "demo_built =
     checkpoint_new demo_hash32 (\<lambda>s. []) 7 1 (authority_revision demo_hash32 demo_policy)
       [demo_frontier 1 5, demo_frontier 2 12, demo_frontier 3 15] [demo_job] 9000"

definition demo_kept_p2panda :: "demo_header p2panda" where
  "demo_kept_p2panda = demo_p2panda (demo_leases @ [RetentionCheckpoint demo_built])"

definition demo_kept_ops :: "demo_header operation list" where
  "demo_kept_ops = demo_leased_ops @ [demo_op 9 16 8]"

abbreviation demo_build :: "demo_header operation list \<Rightarrow> u64 \<Rightarrow> mesh_store_error + retention_checkpoint" where
  "demo_build \<equiv> build_checkpoint demo_kept_p2panda demo_ed25519 demo_hash32 (\<lambda>s. []) (Some demo_policy) 7"

abbreviation demo_store_board :: "demo_header operation list \<Rightarrow> mesh_store_error + job_board" where
  "demo_store_board \<equiv> store_board demo_kept_p2panda demo_ed25519 demo_hash32 (\<lambda>s. []) (Some demo_policy) 7"

lemmas kept_defs = demo_kept_p2panda_def demo_kept_ops_def demo_leased_ops_def demo_defs demo_leases_def

lemma demo_decoded:
  "decode_ops demo_kept_p2panda demo_leased_ops = zip demo_leased_ops demo_leases"
  "decode_ops demo_kept_p2panda demo_kept_ops =
     zip demo_leased_ops demo_leases @ [(demo_op 9 16 8, RetentionCheckpoint demo_built)]"
  "decode_ops demo_kept_p2panda (demo_kept_ops @ [demo_op 3 17 4]) =
     zip demo_leased_ops demo_leases
     @ [(demo_op 9 16 8, RetentionCheckpoint demo_built), (demo_op 3 17 4, JobClaimed 5 1100)]"
  by (simp_all add: decode_ops_def kept_defs from_operation_def map_filter_simps)

lemma demo_built_accepted: "validate_checkpoint demo_hash32 (\<lambda>s. []) demo_policy 7 9 None demo_built = Inr ()"
  by (simp add: validate_checkpoint_def demo_built_def checkpoint_new_def demo_policy_def
      permits_checkpoint_def live_leases_def lease_at_def phase_at_def phase_of_epoch_def
      job_lease_terms_def demo_job_def demo_epochs_def sat_add_def blob_verifies_blake3
      verifies_direct_iff validate_frontier_def demo_frontier_def frontier_key_def bt_get_def)

abbreviation demo_latest :: "demo_header decoded_op list \<Rightarrow> mesh_store_error + stored_checkpoint option" where
  "demo_latest \<equiv>
     latest_checkpoint_from_decoded demo_kept_p2panda demo_hash32 (\<lambda>s. []) (Some demo_policy) 7"

lemma demo_latest_eval:
  "demo_latest (zip demo_leased_ops demo_leases) = Inr None"
  "checkpoint_ops later = [] \<Longrightarrow>
     demo_latest (zip demo_leased_ops demo_leases @ (demo_op 9 16 8, RetentionCheckpoint demo_built) # later) =
     Inr (Some \<lparr>sc_operation = 16, sc_checkpoint = demo_built\<rparr>)"
  using demo_built_accepted
  by (simp_all add: latest_checkpoint_from_decoded_def checkpoint_ops_def map_filter_simps kept_defs)

lemma demo_kept_board:
  "board_from demo_kept_p2panda demo_ed25519 7 (zip demo_leased_ops demo_leases) None = demo_board"
  by (simp add: board_from_def demo_board_eval kept_defs demo_job_def demo_epochs_def gather_eval
      resolve_eval chain_eval)

lemma demo_build_eval: "demo_build demo_leased_ops 9000 = Inr demo_built"
proof -
  have "live_leases [demo_job] 9000 (rp_lease demo_policy) = []"
    by (simp add: live_leases_def lease_at_def phase_at_def phase_of_epoch_def job_lease_terms_def
        demo_job_def demo_epochs_def sat_add_def demo_policy_def)
  moreover have "erase_payload demo_job = demo_job"
    by (simp add: erase_payload_def demo_job_def)
  moreover have "bt_values (fold (frontier_advance demo_kept_p2panda) (zip demo_leased_ops demo_leases) [])
      = [demo_frontier 1 5, demo_frontier 2 12, demo_frontier 3 15]"
    by (simp add: kept_defs frontier_advance_def op_frontier_def op_position_def demo_frontier_def bt_values_def)
  ultimately show ?thesis
    by (simp add: build_checkpoint_def demo_decoded demo_latest_eval demo_kept_board Let_def
        demo_board_eval snapshot_from_board_def bt_values_def frontier_start_def demo_built_def)
      (simp add: demo_policy_def)
qed

text \<open>Every operation of the leased job lies at or below the frontier; only later ones are replayed.\<close>

lemma demo_tail:
  "filter (in_tail demo_kept_p2panda (frontier_seqs (ck_frontier demo_built))) (zip demo_leased_ops demo_leases)
   = []"
  "in_tail demo_kept_p2panda (frontier_seqs (ck_frontier demo_built))
     (demo_op 9 16 8, RetentionCheckpoint demo_built)"
  "in_tail demo_kept_p2panda (frontier_seqs (ck_frontier demo_built)) (demo_op 3 17 4, JobClaimed 5 1100)"
  by (simp_all add: kept_defs in_tail_def frontier_seqs_def demo_built_def checkpoint_new_def
      demo_frontier_def frontier_key_def op_position_def bt_get_def)

lemma demo_replayed:
  "map_option job_state
     (board_job
        (board_from demo_kept_p2panda demo_ed25519 7
           (zip demo_leased_ops demo_leases @ [(demo_op 9 16 8, RetentionCheckpoint demo_built)])
           (Some \<lparr>sc_operation = 16, sc_checkpoint = demo_built\<rparr>)) 5) = Some (Claimed 3)"
  by (simp add: board_from_def demo_tail)
    (simp add: demo_built_def checkpoint_new_def kept_defs board_job_def demo_job_def demo_epochs_def
      seed_job_def gather_eval resolve_eval chain_eval)

text \<open>
  C34. The round trip through a checkpoint can lose the output of a leased job. On the
  demonstration mesh the store shows the job as committed with its output, builds a checkpoint
  over its operations, and admits that checkpoint from the authority. Every operation of the
  job then lies at or below the checkpoint's frontier, and the store shows the job from the
  snapshot alone: merely claimed, with the output gone.
\<close>

theorem checkpoint_loses_leased_output:
  "(\<exists>b. demo_store_board demo_leased_ops = Inr b
      \<and> map_option job_state (board_job b 5) = Some (Committed 3 (demo_output 3)))
   \<and> demo_build demo_leased_ops 9000 = Inr demo_built
   \<and> mesh_admit demo_kept_p2panda demo_ed25519 demo_hash32 (\<lambda>s. [])
       \<lparr>mp_mesh_id = 7, mp_retention = Some demo_policy, mp_current = None\<rparr> (demo_op 9 16 8)
     = Inr (admission_keep \<lparr>st_topic = 7, st_log_id = Checkpoints\<rparr>)
   \<and> (\<exists>b. demo_store_board (demo_leased_ops @ [demo_op 9 16 8]) = Inr b
      \<and> map_option job_state (board_job b 5) = Some (Claimed 3))"
proof (intro conjI)
  show "\<exists>b. demo_store_board demo_leased_ops = Inr b
      \<and> map_option job_state (board_job b 5) = Some (Committed 3 (demo_output 3))"
    by (simp add: store_board_def demo_decoded demo_latest_eval demo_kept_board demo_board_job)
      (simp add: demo_job_def)
  show "demo_build demo_leased_ops 9000 = Inr demo_built"
    by (rule demo_build_eval)
  show "mesh_admit demo_kept_p2panda demo_ed25519 demo_hash32 (\<lambda>s. [])
       \<lparr>mp_mesh_id = 7, mp_retention = Some demo_policy, mp_current = None\<rparr> (demo_op 9 16 8)
     = Inr (admission_keep \<lparr>st_topic = 7, st_log_id = Checkpoints\<rparr>)"
    using demo_built_accepted
    by (simp add: mesh_admit_def kept_defs from_operation_def erasing_payloads_def admission_keep_def)
      (simp add: erased_jobs_def demo_built_def checkpoint_new_def demo_job_def)
  show "\<exists>b. demo_store_board (demo_leased_ops @ [demo_op 9 16 8]) = Inr b
      \<and> map_option job_state (board_job b 5) = Some (Claimed 3)"
    using demo_decoded(2) demo_latest_eval(2) [of "[]"] demo_replayed
    by (simp add: store_board_def demo_kept_ops_def checkpoint_ops_def map_filter_simps)
qed

theorem built_checkpoint_is_accepted_witness:
  "\<exists>c. demo_build (demo_kept_ops @ [demo_op 3 17 4]) 10000 = Inr c
     \<and> validate_checkpoint demo_hash32 (\<lambda>s. []) demo_policy 7 9 (Some demo_built) c = Inr ()"
proof -
  let ?ops = "demo_kept_ops @ [demo_op 3 17 4]"
  have latest: "demo_latest (decode_ops demo_kept_p2panda ?ops)
      = Inr (Some \<lparr>sc_operation = 16, sc_checkpoint = demo_built\<rparr>)"
    using demo_latest_eval(2) [of "[(demo_op 3 17 4, JobClaimed 5 1100)]"]
    by (simp add: demo_decoded checkpoint_ops_def map_filter_simps)
  let ?b = "board_from demo_kept_p2panda demo_ed25519 7 (decode_ops demo_kept_p2panda ?ops)
    (Some \<lparr>sc_operation = 16, sc_checkpoint = demo_built\<rparr>)"
  have tail: "?b = fold_from_snapshot demo_kept_p2panda demo_ed25519 7 [demo_job] [demo_op 9 16 8, demo_op 3 17 4]"
    by (simp add: board_from_def demo_decoded demo_tail) (simp add: demo_built_def checkpoint_new_def)
  have "snapshot_from_board ?b = [demo_job\<lparr>job_state := Claimed 3\<rparr>]"
    unfolding tail
    by (simp add: demo_kept_p2panda_def demo_defs demo_leases_def demo_job_def demo_epochs_def seed_job_def
        gather_eval resolve_eval chain_eval snapshot_from_board_def)
  then have "live_leases (fst (erase_terminal_payloads (snapshot_from_board ?b))) 10000 (rp_lease demo_policy) = []"
    by (simp add: erase_payload_def live_leases_def lease_at_def phase_at_def phase_of_epoch_def
        job_lease_terms_def demo_job_def demo_epochs_def sat_add_def demo_policy_def)
  then obtain c where c: "demo_build ?ops 10000 = Inr c"
    by (simp add: build_checkpoint_def latest Let_def) (simp add: demo_policy_def)
  have "list_all (log_kept demo_kept_p2panda (decode_ops demo_kept_p2panda ?ops)) (ck_frontier demo_built)"
    unfolding demo_decoded
    by (simp add: log_kept_def own_events_def demo_built_def checkpoint_new_def demo_frontier_def
        frontier_key_def op_position_def op_frontier_def kept_defs)
  then show ?thesis
    using built_checkpoint_is_accepted [OF c latest] c by (simp add: demo_policy_def)
qed

end
