(* ===== verification/Muniment.thy ===== *)
theory Muniment
  imports Rust_Str "HOL-Library.Char_ord" "HOL-Library.List_Lexorder" "HOL-Library.Sublist"
begin

text \<open>
  The persistence floor of \<^verbatim>\<open>crates/eidetic/muniment/src\<close>: the byte store a host
  supplies (\<^verbatim>\<open>backend.rs\<close>), the in-memory store, the zip archive store
  (\<^verbatim>\<open>zip_backend.rs\<close>), and what is built on any of them: content-addressed blobs
  (\<^verbatim>\<open>blob.rs\<close>) and typed slots (\<^verbatim>\<open>slot.rs\<close>). The trait is a record
  of its methods; the locale \<open>backend_laws\<close> states its contract, the clients are proved in
  it, and both stores interpret it. BLAKE3, the zip format, the codecs and the file system are
  parameters. Rust compares strings bytewise, which is the lexicographic order used here.
\<close>

section \<open>The storage interface\<close>

datatype store_error = BackendError string | CodecError string

datatype write_op = PutOp string bytes | DeleteOp string

record 's backend =
  be_get :: "string \<Rightarrow> 's \<Rightarrow> store_error + bytes option"
  be_put :: "string \<Rightarrow> bytes \<Rightarrow> 's \<Rightarrow> (store_error + unit) \<times> 's"
  be_delete :: "string \<Rightarrow> 's \<Rightarrow> (store_error + unit) \<times> 's"
  be_list :: "string \<Rightarrow> 's \<Rightarrow> store_error + string list"
  be_scan :: "string \<Rightarrow> string \<Rightarrow> 's \<Rightarrow> store_error + string list"
  be_apply :: "write_op list \<Rightarrow> 's \<Rightarrow> (store_error + unit) \<times> 's"

section \<open>The in-memory store\<close>

text \<open>The iteration order of the hash map is unspecified; the model lists keys in order.\<close>

type_synonym memory = "(string, bytes) btmap"

fun write_entry :: "write_op \<Rightarrow> memory \<Rightarrow> memory" where
  "write_entry (PutOp k v) m = bt_insert k v m"
| "write_entry (DeleteOp k) m = bt_remove k m"

definition memory_get :: "string \<Rightarrow> memory \<Rightarrow> store_error + bytes option" where
  "memory_get k m = Inr (bt_get m k)"

definition memory_put :: "string \<Rightarrow> bytes \<Rightarrow> memory \<Rightarrow> (store_error + unit) \<times> memory" where
  "memory_put k v m = (Inr (), bt_insert k v m)"

definition memory_delete :: "string \<Rightarrow> memory \<Rightarrow> (store_error + unit) \<times> memory" where
  "memory_delete k m = (Inr (), bt_remove k m)"

definition memory_list :: "string \<Rightarrow> memory \<Rightarrow> store_error + string list" where
  "memory_list p m = Inr (filter (prefix p) (map fst m))"

definition memory_scan :: "string \<Rightarrow> string \<Rightarrow> memory \<Rightarrow> store_error + string list" where
  "memory_scan a b m = Inr (sort (filter (\<lambda>k. k \<ge> a \<and> k < b) (map fst m)))"

definition memory_apply :: "write_op list \<Rightarrow> memory \<Rightarrow> (store_error + unit) \<times> memory" where
  "memory_apply ops m = (Inr (), fold write_entry ops m)"

definition memory_backend :: "memory backend" where
  "memory_backend =
     \<lparr>be_get = memory_get, be_put = memory_put, be_delete = memory_delete, be_list = memory_list,
      be_scan = memory_scan, be_apply = memory_apply\<rparr>"

section \<open>The zip archive store\<close>

text \<open>
  The archive is held in memory and each mutation rewrites the file: encode the entries, write
  a temporary file, rename it over the archive. \<open>zio_encode\<close> and \<open>zio_decode\<close> stand
  for the zip library (a decoded entry has a name, its directory mark and its bytes);
  \<open>zio_write\<close> and \<open>zio_rename\<close> say what the file system answers to the temporary
  file with a given number.
\<close>

record zip_io =
  zio_encode :: "memory \<Rightarrow> store_error + bytes"
  zio_decode :: "bytes \<Rightarrow> store_error + (string \<times> bool \<times> bytes) list"
  zio_write :: "u64 \<Rightarrow> store_error option"
  zio_rename :: "u64 \<Rightarrow> store_error option"

record zip_inner =
  zp_entries :: memory
  zp_file :: "bytes option"
  zp_counter :: u64

definition read_entries :: "zip_io \<Rightarrow> bytes \<Rightarrow> store_error + memory" where
  "read_entries io file =
     (case zio_decode io file of
        Inl e \<Rightarrow> Inl e
      | Inr es \<Rightarrow>
          Inr (fold (\<lambda>(name, is_dir, b) m.
                 if is_dir \<and> length b = 0 then m else bt_insert name b m) es []))"

definition zip_open :: "zip_io \<Rightarrow> bytes option \<Rightarrow> u64 \<Rightarrow> store_error + zip_inner" where
  "zip_open io file counter =
     (case (case file of Some b \<Rightarrow> read_entries io b | None \<Rightarrow> Inr []) of
        Inl e \<Rightarrow> Inl e
      | Inr es \<Rightarrow> Inr \<lparr>zp_entries = es, zp_file = file, zp_counter = counter\<rparr>)"

definition write_entries :: "zip_io \<Rightarrow> memory \<Rightarrow> zip_inner \<Rightarrow> (store_error + unit) \<times> zip_inner" where
  "write_entries io es s =
     (case zio_encode io es of
        Inl e \<Rightarrow> (Inl e, s)
      | Inr buffer \<Rightarrow>
          (let s' = s\<lparr>zp_counter := zp_counter s + 1\<rparr>
           in (case zio_write io (zp_counter s) of
                 Some e \<Rightarrow> (Inl e, s')
               | None \<Rightarrow>
                   (case zio_rename io (zp_counter s) of
                      Some e \<Rightarrow> (Inl e, s')
                    | None \<Rightarrow> (Inr (), s'\<lparr>zp_file := Some buffer\<rparr>)))))"

definition zip_get :: "string \<Rightarrow> zip_inner \<Rightarrow> store_error + bytes option" where
  "zip_get k s = Inr (bt_get (zp_entries s) k)"

definition zip_put :: "zip_io \<Rightarrow> string \<Rightarrow> bytes \<Rightarrow> zip_inner \<Rightarrow> (store_error + unit) \<times> zip_inner" where
  "zip_put io k v s =
     (let previous = bt_get (zp_entries s) k;
          s1 = s\<lparr>zp_entries := bt_insert k v (zp_entries s)\<rparr>
      in (case write_entries io (zp_entries s1) s1 of
            (Inl e, s2) \<Rightarrow>
              (Inl e,
               (case previous of
                  Some old \<Rightarrow> s2\<lparr>zp_entries := bt_insert k old (zp_entries s2)\<rparr>
                | None \<Rightarrow> s2\<lparr>zp_entries := bt_remove k (zp_entries s2)\<rparr>))
          | (Inr _, s2) \<Rightarrow> (Inr (), s2)))"

definition zip_delete :: "zip_io \<Rightarrow> string \<Rightarrow> zip_inner \<Rightarrow> (store_error + unit) \<times> zip_inner" where
  "zip_delete io k s =
     (case bt_get (zp_entries s) k of
        None \<Rightarrow> (Inr (), s)
      | Some previous \<Rightarrow>
          (let s1 = s\<lparr>zp_entries := bt_remove k (zp_entries s)\<rparr>
           in (case write_entries io (zp_entries s1) s1 of
                 (Inl e, s2) \<Rightarrow> (Inl e, s2\<lparr>zp_entries := bt_insert k previous (zp_entries s2)\<rparr>)
               | (Inr _, s2) \<Rightarrow> (Inr (), s2))))"

definition zip_list :: "string \<Rightarrow> zip_inner \<Rightarrow> store_error + string list" where
  "zip_list p s =
     Inr (takeWhile (prefix p) (filter (\<lambda>k. p \<le> k) (map fst (zp_entries s))))"

definition zip_scan :: "string \<Rightarrow> string \<Rightarrow> zip_inner \<Rightarrow> store_error + string list" where
  "zip_scan a b s =
     (if a \<ge> b then Inr []
      else Inr (filter (\<lambda>k. a \<le> k \<and> k < b) (map fst (zp_entries s))))"

definition zip_apply :: "zip_io \<Rightarrow> write_op list \<Rightarrow> zip_inner \<Rightarrow> (store_error + unit) \<times> zip_inner" where
  "zip_apply io ops s =
     (let next = fold write_entry ops (zp_entries s)
      in (case write_entries io next s of
            (Inl e, s') \<Rightarrow> (Inl e, s')
          | (Inr _, s') \<Rightarrow> (Inr (), s'\<lparr>zp_entries := next\<rparr>)))"

definition zip_backend :: "zip_io \<Rightarrow> zip_inner backend" where
  "zip_backend io =
     \<lparr>be_get = zip_get, be_put = zip_put io, be_delete = zip_delete io, be_list = zip_list,
      be_scan = zip_scan, be_apply = zip_apply io\<rparr>"

section \<open>Blobs and slots\<close>

definition BLOB_PREFIX :: string where
  "BLOB_PREFIX = ''blob/''"

definition blob_key :: "(bytes \<Rightarrow> string) \<Rightarrow> bytes \<Rightarrow> string" where
  "blob_key hex hash = BLOB_PREFIX @ hex hash"

definition blob_put ::
  "(bytes \<Rightarrow> bytes) \<Rightarrow> (bytes \<Rightarrow> string) \<Rightarrow> 's backend \<Rightarrow> bytes \<Rightarrow> 's \<Rightarrow> (store_error + bytes) \<times> 's" where
  "blob_put h hex B b s =
     (let hash = h b
      in (case be_put B (blob_key hex hash) b s of
            (Inl e, s') \<Rightarrow> (Inl e, s')
          | (Inr _, s') \<Rightarrow> (Inr hash, s')))"

definition blob_get :: "(bytes \<Rightarrow> string) \<Rightarrow> 's backend \<Rightarrow> bytes \<Rightarrow> 's \<Rightarrow> store_error + bytes option" where
  "blob_get hex B hash s = be_get B (blob_key hex hash) s"

definition blob_has :: "(bytes \<Rightarrow> string) \<Rightarrow> 's backend \<Rightarrow> bytes \<Rightarrow> 's \<Rightarrow> store_error + bool" where
  "blob_has hex B hash s =
     (case be_get B (blob_key hex hash) s of Inl e \<Rightarrow> Inl e | Inr r \<Rightarrow> Inr (r \<noteq> None))"

definition slot_save ::
  "('a \<Rightarrow> store_error + bytes) \<Rightarrow> 's backend \<Rightarrow> string \<Rightarrow> 'a \<Rightarrow> 's \<Rightarrow> (store_error + unit) \<times> 's" where
  "slot_save enc B k v s =
     (case enc v of Inl e \<Rightarrow> (Inl e, s) | Inr b \<Rightarrow> be_put B k b s)"

definition slot_load ::
  "(bytes \<Rightarrow> store_error + 'a) \<Rightarrow> 's backend \<Rightarrow> string \<Rightarrow> 's \<Rightarrow> store_error + 'a option" where
  "slot_load dec B k s =
     (case be_get B k s of
        Inl e \<Rightarrow> Inl e
      | Inr None \<Rightarrow> Inr None
      | Inr (Some b) \<Rightarrow> (case dec b of Inl e \<Rightarrow> Inl e | Inr v \<Rightarrow> Inr (Some v)))"

definition slot_delete :: "'s backend \<Rightarrow> string \<Rightarrow> 's \<Rightarrow> (store_error + unit) \<times> 's" where
  "slot_delete B k s = be_delete B k s"

definition slot_keys :: "'s backend \<Rightarrow> string \<Rightarrow> 's \<Rightarrow> store_error + string list" where
  "slot_keys B p s = be_list B p s"

section \<open>The contract of a store\<close>

text \<open>What a batch does to the abstract map of keys to bytes.\<close>

fun write_view :: "write_op \<Rightarrow> (string \<rightharpoonup> bytes) \<Rightarrow> (string \<rightharpoonup> bytes)" where
  "write_view (PutOp k v) f = f(k \<mapsto> v)"
| "write_view (DeleteOp k) f = f(k := None)"

text \<open>
  A write either takes effect or leaves the map as it was, a batch as a whole; reads see the
  map; a scan is ascending.
\<close>

locale backend_laws =
  fixes B :: "'s backend" and view :: "'s \<Rightarrow> string \<rightharpoonup> bytes" and inv :: "'s \<Rightarrow> bool"
  assumes get_view: "be_get B k s = Inr (view s k)"
    and put_view: "inv s \<Longrightarrow> be_put B k v s = (r, s') \<Longrightarrow>
      inv s' \<and> view s' = (case r of Inl _ \<Rightarrow> view s | Inr _ \<Rightarrow> (view s)(k \<mapsto> v))"
    and delete_view: "inv s \<Longrightarrow> be_delete B k s = (r, s') \<Longrightarrow>
      inv s' \<and> view s' = (case r of Inl _ \<Rightarrow> view s | Inr _ \<Rightarrow> (view s)(k := None))"
    and apply_view: "inv s \<Longrightarrow> be_apply B ops s = (r, s') \<Longrightarrow>
      inv s' \<and> view s' = (case r of Inl _ \<Rightarrow> view s | Inr _ \<Rightarrow> fold write_view ops (view s))"
    and list_view: "inv s \<Longrightarrow> \<exists>ks. be_list B p s = Inr ks \<and> distinct ks
      \<and> set ks = {k \<in> dom (view s). prefix p k}"
    and scan_view: "inv s \<Longrightarrow> \<exists>ks. be_scan B a b s = Inr ks \<and> sorted_wrt (<) ks
      \<and> set ks = {k \<in> dom (view s). a \<le> k \<and> k < b}"
begin

lemma blob_get_view: "blob_get hex B hash s = Inr (view s (blob_key hex hash))"
  by (simp add: blob_get_def get_view)

lemma blob_has_view: "blob_has hex B hash s = Inr (view s (blob_key hex hash) \<noteq> None)"
  by (simp add: blob_has_def get_view)

lemma blob_put_view:
  assumes "inv s" "blob_put h hex B b s = (r, s')"
  shows "inv s' \<and> (case r of
      Inl _ \<Rightarrow> view s' = view s
    | Inr hash \<Rightarrow> hash = h b \<and> view s' = (view s)(blob_key hex (h b) \<mapsto> b))"
proof -
  obtain q t where q: "be_put B (blob_key hex (h b)) b s = (q, t)"
    by fastforce
  from put_view [OF assms(1) q] q assms(2) show ?thesis
    by (auto simp: blob_put_def Let_def split: sum.splits)
qed

lemma blob_round_trip:
  assumes "inv s" "blob_put h hex B b s = (Inr hash, s')"
  shows "hash = h b \<and> blob_get hex B hash s' = Inr (Some b) \<and> blob_has hex B hash s' = Inr True"
  using blob_put_view [OF assms] by (simp add: blob_get_view blob_has_view)

text \<open>A second write never disturbs a blob with another address.\<close>

lemma blob_put_keeps:
  assumes "inv s" "blob_put h hex B b s = (r, s')" "hex hash \<noteq> hex (h b)"
  shows "blob_get hex B hash s' = blob_get hex B hash s"
  using blob_put_view [OF assms(1,2)] assms(3)
  by (auto simp: blob_get_view blob_key_def split: sum.splits)

lemma slot_round_trip:
  assumes "inv s" "slot_save enc B k v s = (Inr (), s')" "\<And>b. enc v = Inr b \<Longrightarrow> dec b = Inr v"
  shows "slot_load dec B k s' = Inr (Some v)"
proof -
  obtain b where b: "enc v = Inr b" and put: "be_put B k b s = (Inr (), s')"
    using assms(2) by (auto simp: slot_save_def split: sum.splits)
  from put_view [OF assms(1) put] assms(3) [OF b] show ?thesis
    by (simp add: slot_load_def get_view)
qed

lemma slot_deleted:
  assumes "inv s" "slot_delete B k s = (Inr (), s')"
  shows "slot_load dec B k s' = Inr None"
  using delete_view [OF assms(1)] assms(2) by (simp add: slot_delete_def slot_load_def get_view)

end

section \<open>The in-memory store keeps the contract\<close>

lemma bt_dom: "dom (bt_get m) = fst ` set m"
  using dom_map_of_conv_image_fst [of m] by (simp add: bt_get_def dom_def)

lemma bt_keys_sorted: "bt_inv m \<Longrightarrow> sorted_wrt (<) (map fst m)"
  by (simp add: bt_inv_def)

lemma bt_inv_write_entry: "bt_inv m \<Longrightarrow> bt_inv (write_entry w m)"
  by (cases w) simp_all

lemma write_entry_view: "bt_get (write_entry w m) = write_view w (bt_get m)"
  by (cases w) (simp_all add: bt_get_insert bt_get_remove)

lemma fold_write_entry:
  "bt_inv m \<Longrightarrow> bt_inv (fold write_entry ops m)
     \<and> bt_get (fold write_entry ops m) = fold write_view ops (bt_get m)"
  by (induction ops arbitrary: m) (simp_all add: bt_inv_write_entry write_entry_view)

lemma sort_filter_sorted:
  fixes ks :: "'a::linorder list"
  assumes "sorted_wrt (<) ks"
  shows "sort (filter P ks) = filter P ks"
  using sorted_wrt_filter [OF assms, of P] by (simp add: strict_sorted_iff sorted_sort_id)

lemma memory_scan_eq:
  "bt_inv m \<Longrightarrow> memory_scan a b m = Inr (filter (\<lambda>k. a \<le> k \<and> k < b) (map fst m))"
  by (simp add: memory_scan_def sort_filter_sorted bt_keys_sorted)

interpretation mem: backend_laws memory_backend bt_get bt_inv
proof (unfold_locales, goal_cases)
  case 5
  then show ?case
    by (auto simp: memory_backend_def memory_list_def bt_dom bt_inv_distinct)
next
  case 6
  then show ?case
    by (auto simp: memory_backend_def memory_scan_eq bt_dom sorted_wrt_filter bt_keys_sorted)
qed (auto simp: memory_backend_def memory_get_def memory_put_def memory_delete_def memory_apply_def
    bt_get_insert bt_get_remove fold_write_entry)

section \<open>The zip store keeps the contract\<close>

lemma write_entries_entries:
  "write_entries io es s = (r, s') \<Longrightarrow> zp_entries s' = zp_entries s"
  by (auto simp: write_entries_def Let_def split: sum.splits option.splits)

lemma write_entries_file:
  "write_entries io es s = (r, s') \<Longrightarrow>
     (case r of Inl _ \<Rightarrow> zp_file s' = zp_file s
      | Inr _ \<Rightarrow> \<exists>b. zio_encode io es = Inr b \<and> zp_file s' = Some b)"
  by (auto simp: write_entries_def Let_def split: sum.splits option.splits)

lemma bt_undo_insert:
  assumes "bt_inv m"
  shows "(case bt_get m k of Some old \<Rightarrow> bt_insert k old (bt_insert k v m)
     | None \<Rightarrow> bt_remove k (bt_insert k v m)) = m"
  using assms
  by (intro bt_ext) (auto simp: bt_get_insert bt_get_remove fun_eq_iff split: option.splits)

lemma bt_undo_remove: "bt_inv m \<Longrightarrow> bt_get m k = Some v \<Longrightarrow> bt_insert k v (bt_remove k m) = m"
  by (intro bt_ext) (auto simp: bt_get_insert bt_get_remove fun_eq_iff)

lemma bt_remove_absent: "bt_get m k = None \<Longrightarrow> bt_remove k m = m"
  by (auto simp: bt_get_def bt_remove_def map_of_eq_None_iff filter_id_conv)

text \<open>Each mutation takes effect in memory and on disk, or changes neither.\<close>

lemma zip_put_effect:
  assumes "bt_inv (zp_entries s)" "zip_put io k v s = (r, s')"
  shows "case r of
      Inl _ \<Rightarrow> zp_entries s' = zp_entries s \<and> zp_file s' = zp_file s
    | Inr _ \<Rightarrow> zp_entries s' = bt_insert k v (zp_entries s)
        \<and> (\<exists>b. zio_encode io (zp_entries s') = Inr b \<and> zp_file s' = Some b)"
proof -
  let ?s1 = "s\<lparr>zp_entries := bt_insert k v (zp_entries s)\<rparr>"
  obtain q t where q: "write_entries io (zp_entries ?s1) ?s1 = (q, t)"
    by fastforce
  from write_entries_entries [OF q] write_entries_file [OF q] q assms(2)
    bt_undo_insert [OF assms(1), of k v]
  show ?thesis
    by (auto simp: zip_put_def Let_def split: sum.splits option.splits)
qed

lemma zip_delete_effect:
  assumes "bt_inv (zp_entries s)" "zip_delete io k s = (r, s')"
  shows "case r of
      Inl _ \<Rightarrow> zp_entries s' = zp_entries s \<and> zp_file s' = zp_file s
    | Inr _ \<Rightarrow> zp_entries s' = bt_remove k (zp_entries s)
        \<and> (s' = s \<or> (\<exists>b. zio_encode io (zp_entries s') = Inr b \<and> zp_file s' = Some b))"
proof (cases "bt_get (zp_entries s) k")
  case None
  with assms show ?thesis by (auto simp: zip_delete_def bt_remove_absent)
next
  case (Some v)
  let ?s1 = "s\<lparr>zp_entries := bt_remove k (zp_entries s)\<rparr>"
  obtain q t where q: "write_entries io (zp_entries ?s1) ?s1 = (q, t)"
    by fastforce
  from write_entries_entries [OF q] write_entries_file [OF q] q assms(2) Some
    bt_undo_remove [OF assms(1) Some]
  show ?thesis
    by (auto simp: zip_delete_def Let_def split: sum.splits)
qed

lemma zip_apply_effect:
  assumes "zip_apply io ops s = (r, s')"
  shows "case r of
      Inl _ \<Rightarrow> zp_entries s' = zp_entries s \<and> zp_file s' = zp_file s
    | Inr _ \<Rightarrow> zp_entries s' = fold write_entry ops (zp_entries s)
        \<and> (\<exists>b. zio_encode io (zp_entries s') = Inr b \<and> zp_file s' = Some b)"
proof -
  obtain q t where q: "write_entries io (fold write_entry ops (zp_entries s)) s = (q, t)"
    by fastforce
  from write_entries_entries [OF q] write_entries_file [OF q] q assms show ?thesis
    by (auto simp: zip_apply_def Let_def split: sum.splits)
qed

text \<open>The keys with a given prefix are an interval of the ordered keys.\<close>

lemma prefix_le: "prefix p k \<Longrightarrow> p \<le> (k :: string)"
proof (induction p arbitrary: k)
  case (Cons x p)
  then show ?case by (cases k) auto
qed simp

lemma prefix_interval:
  "p \<le> k \<Longrightarrow> k \<le> k' \<Longrightarrow> prefix p k' \<Longrightarrow> prefix p (k :: string)"
proof (induction p arbitrary: k k')
  case (Cons x p)
  then show ?case by (cases k; cases k') (auto split: if_splits)
qed simp

lemma takeWhile_prefix:
  "sorted_wrt (<) ks \<Longrightarrow> \<forall>k \<in> set ks. p \<le> k \<Longrightarrow>
     takeWhile (prefix p) ks = filter (prefix p) (ks :: string list)"
proof (induction ks)
  case (Cons k ks)
  show ?case
  proof (cases "prefix p k")
    case False
    have "\<not> prefix p k'" if "k' \<in> set ks" for k'
    proof
      assume "prefix p k'"
      moreover have "p \<le> k" "k \<le> k'"
        using Cons.prems that by (simp_all add: order_less_imp_le)
      ultimately show False
        using False prefix_interval by blast
    qed
    with False show ?thesis by (simp add: filter_empty_conv)
  qed (use Cons in simp)
qed simp

lemma zip_list_eq:
  assumes "bt_inv (zp_entries s)"
  shows "zip_list p s = memory_list p (zp_entries s)"
proof -
  have "sorted_wrt (<) (filter (\<lambda>k. p \<le> k) (map fst (zp_entries s)))"
    by (rule sorted_wrt_filter [OF bt_keys_sorted [OF assms]])
  then have "takeWhile (prefix p) (filter (\<lambda>k. p \<le> k) (map fst (zp_entries s)))
      = filter (prefix p) (filter (\<lambda>k. p \<le> k) (map fst (zp_entries s)))"
    by (rule takeWhile_prefix) simp
  also have "\<dots> = filter (prefix p) (map fst (zp_entries s))"
    by (auto intro!: filter_cong dest: prefix_le)
  finally show ?thesis
    by (simp add: zip_list_def memory_list_def)
qed

lemma zip_scan_eq:
  assumes "bt_inv (zp_entries s)"
  shows "zip_scan a b s = memory_scan a b (zp_entries s)"
proof (cases "a \<ge> b")
  case True
  then have "filter (\<lambda>k. a \<le> k \<and> k < b) (map fst (zp_entries s)) = []"
    by (auto simp: filter_empty_conv)
  with True assms show ?thesis by (simp add: zip_scan_def memory_scan_eq)
qed (use assms in \<open>simp add: zip_scan_def memory_scan_eq\<close>)

interpretation zip: backend_laws "zip_backend io" "\<lambda>s. bt_get (zp_entries s)"
  "\<lambda>s. bt_inv (zp_entries s)" for io
proof (unfold_locales, goal_cases)
  case (2 s k v r s')
  then have "zip_put io k v s = (r, s')" by (simp add: zip_backend_def)
  from zip_put_effect [OF 2(1) this] 2(1) show ?case
    by (auto simp: bt_get_insert split: sum.splits)
next
  case (3 s k r s')
  then have "zip_delete io k s = (r, s')" by (simp add: zip_backend_def)
  from zip_delete_effect [OF 3(1) this] 3(1) show ?case
    by (auto simp: bt_get_remove split: sum.splits)
next
  case (4 s ops r s')
  then have "zip_apply io ops s = (r, s')" by (simp add: zip_backend_def)
  from zip_apply_effect [OF this] 4(1) show ?case
    by (auto simp: fold_write_entry split: sum.splits)
next
  case (5 s p)
  with mem.list_view [of "zp_entries s" p] show ?case
    by (simp add: zip_backend_def memory_backend_def zip_list_eq)
next
  case (6 s a b)
  with mem.scan_view [of "zp_entries s" a b] show ?case
    by (simp add: zip_backend_def memory_backend_def zip_scan_eq)
qed (simp add: zip_backend_def zip_get_def)

section \<open>Refinement and durability\<close>

text \<open>
  C20. The zip store behaves as the in-memory store or fails without effect: reads, listings and
  scans answer as the in-memory store over the same entries does; a write that succeeds changes
  the entries as the in-memory store would and leaves their encoding on disk; a write that
  fails, whatever the file system answered, changes neither the entries nor the file.
\<close>

theorem zip_refines_memory:
  assumes "bt_inv (zp_entries s)"
  shows "zip_get k s = memory_get k (zp_entries s) \<and> zip_list p s = memory_list p (zp_entries s)
    \<and> zip_scan a b s = memory_scan a b (zp_entries s)
    \<and> (\<forall>(r, s', m) \<in> {(fst (zip_put io k v s), snd (zip_put io k v s), snd (memory_put k v (zp_entries s))),
         (fst (zip_delete io k s), snd (zip_delete io k s), snd (memory_delete k (zp_entries s))),
         (fst (zip_apply io ops s), snd (zip_apply io ops s), snd (memory_apply ops (zp_entries s)))}.
       case r of
         Inl _ \<Rightarrow> zp_entries s' = zp_entries s \<and> zp_file s' = zp_file s
       | Inr _ \<Rightarrow> zp_entries s' = m
           \<and> (s' = s \<or> (\<exists>b. zio_encode io m = Inr b \<and> zp_file s' = Some b)))"
proof -
  have put: "zip_put io k v s = (fst (zip_put io k v s), snd (zip_put io k v s))"
    and del: "zip_delete io k s = (fst (zip_delete io k s), snd (zip_delete io k s))"
    and app: "zip_apply io ops s = (fst (zip_apply io ops s), snd (zip_apply io ops s))"
    by simp_all
  from zip_put_effect [OF assms put] zip_delete_effect [OF assms del] zip_apply_effect [OF app]
  show ?thesis
    by (auto simp: zip_get_def memory_get_def memory_put_def memory_delete_def memory_apply_def
        zip_list_eq [OF assms] zip_scan_eq [OF assms] split: sum.splits)
qed

text \<open>A file system on which the second rename fails, and a format that keeps everything.\<close>

definition demo_entry :: "string \<times> bytes \<Rightarrow> bytes" where
  "demo_entry e = of_nat (length (fst e)) # map of_char (fst e) @ of_nat (length (snd e)) # snd e"

definition demo_zip_io :: zip_io where
  "demo_zip_io =
     \<lparr>zio_encode = (\<lambda>m. Inr (concat (map demo_entry m))), zio_decode = (\<lambda>_. Inr []),
      zio_write = (\<lambda>_. None),
      zio_rename = (\<lambda>n. if n = 1 then Some (BackendError ''rename'') else None)\<rparr>"

definition demo_zip :: zip_inner where
  "demo_zip = \<lparr>zp_entries = [(''a'', [1])], zp_file = Some [1, 97, 1, 1], zp_counter = 1\<rparr>"

theorem zip_refines_memory_witness:
  "zip_put demo_zip_io ''b'' [2] demo_zip
     = (Inl (BackendError ''rename''), demo_zip\<lparr>zp_counter := 2\<rparr>)
   \<and> zip_get ''a'' demo_zip = memory_get ''a'' (zp_entries demo_zip)"
proof -
  have inv: "bt_inv (zp_entries demo_zip)"
    by (simp add: demo_zip_def bt_inv_def)
  have put: "zip_put demo_zip_io ''b'' [2] demo_zip
      = (Inl (BackendError ''rename''), demo_zip\<lparr>zp_counter := 2\<rparr>)"
    by (simp add: zip_put_def write_entries_def demo_zip_def demo_zip_io_def bt_get_def bt_remove_def)
  with zip_refines_memory [OF inv, of "''a''" "[]" "[]" "[]" demo_zip_io "[2]" "[]"] show ?thesis
    by (simp only: simp_thms)
qed

text \<open>Any sequence of calls, whichever of them the file system fails.\<close>

datatype zip_call = CallPut string bytes | CallDelete string | CallApply "write_op list"

fun zip_exec :: "zip_io \<Rightarrow> zip_call \<Rightarrow> zip_inner \<Rightarrow> zip_inner" where
  "zip_exec io (CallPut k v) s = snd (zip_put io k v s)"
| "zip_exec io (CallDelete k) s = snd (zip_delete io k s)"
| "zip_exec io (CallApply ops) s = snd (zip_apply io ops s)"

text \<open>
  What the zip format is documented to do: decoding an archive gives its entries back in
  order, and an entry is marked as a directory by its name (\<open>dir\<close>).
\<close>

definition zip_format :: "zip_io \<Rightarrow> (string \<Rightarrow> bool) \<Rightarrow> bool" where
  "zip_format io dir \<longleftrightarrow>
     (\<forall>m b. zio_encode io m = Inr b \<longrightarrow> zio_decode io b = Inr (map (\<lambda>(k, v). (k, dir k, v)) m))
     \<and> (\<forall>b es. zio_decode io b = Inr es \<longrightarrow> list_all (\<lambda>(k, d, v). d = dir k) es)"

definition zip_kept :: "(string \<Rightarrow> bool) \<Rightarrow> memory \<Rightarrow> memory" where
  "zip_kept dir m = filter (\<lambda>(k, v). \<not> (dir k \<and> v = [])) m"

text \<open>What reading the file back yields, against what is in memory.\<close>

definition zip_synced :: "zip_io \<Rightarrow> (string \<Rightarrow> bool) \<Rightarrow> zip_inner \<Rightarrow> bool" where
  "zip_synced io dir s \<longleftrightarrow> bt_inv (zp_entries s) \<and>
     (case zp_file s of
        None \<Rightarrow> zp_entries s = []
      | Some b \<Rightarrow> read_entries io b = Inr (zip_kept dir (zp_entries s)))"

lemma fold_insert_sorted:
  "bt_inv (m @ es) \<Longrightarrow> fold (\<lambda>(k, v). bt_insert k v) es m = m @ es"
proof (induction es arbitrary: m)
  case (Cons e es)
  obtain k v where e: "e = (k, v)" by (cases e)
  have "\<forall>l \<in> fst ` set m. l < k"
    using Cons.prems e by (auto simp: bt_inv_def sorted_wrt_append)
  then have "bt_insert k v m = m @ [(k, v)]"
    by (induction k v m rule: bt_insert.induct) auto
  with Cons e show ?case by simp
qed simp

lemma read_entries_format:
  assumes "zip_format io dir" "zio_encode io m = Inr b" "bt_inv m"
  shows "read_entries io b = Inr (zip_kept dir m)"
proof -
  have "fold (\<lambda>(name, is_dir, b) m. if is_dir \<and> length b = 0 then m else bt_insert name b m)
      (map (\<lambda>(k, v). (k, dir k, v)) es) n = fold (\<lambda>(k, v). bt_insert k v) (zip_kept dir es) n" for es n
    by (induction es arbitrary: n) (auto simp: zip_kept_def)
  moreover have "bt_inv ([] @ zip_kept dir m)"
    using assms(3) by (simp add: zip_kept_def bt_inv_def sorted_wrt_map sorted_wrt_filter)
  ultimately show ?thesis
    using assms(1,2) fold_insert_sorted [of "[]" "zip_kept dir m"]
    by (simp add: read_entries_def zip_format_def)
qed

lemma zip_kept_insert:
  "zip_kept dir m = m \<Longrightarrow> \<not> (dir k \<and> v = []) \<Longrightarrow> zip_kept dir (bt_insert k v m) = bt_insert k v m"
  unfolding zip_kept_def filter_id_conv
  by (induction k v m rule: bt_insert.induct) (auto split: if_splits)

lemma read_entries_fold:
  "list_all (\<lambda>(k, d, v). d = dir k) es \<Longrightarrow> bt_inv m \<Longrightarrow> zip_kept dir m = m \<Longrightarrow>
     m' = fold (\<lambda>(name, is_dir, b) m. if is_dir \<and> length b = 0 then m else bt_insert name b m) es m \<Longrightarrow>
     bt_inv m' \<and> zip_kept dir m' = m'"
  by (induction es arbitrary: m) (auto simp: zip_kept_insert)

lemma zip_open_synced:
  assumes "zip_format io dir" "zip_open io f c = Inr s"
  shows "zip_synced io dir s"
proof (cases f)
  case None
  with assms show ?thesis by (auto simp: zip_open_def zip_synced_def)
next
  case (Some b)
  with assms(2) obtain es where es: "zio_decode io b = Inr es" "read_entries io b = Inr (zp_entries s)"
    and s: "zp_file s = Some b"
    by (auto simp: zip_open_def read_entries_def split: sum.splits)
  have marks: "list_all (\<lambda>(k, d, v). d = dir k) es"
    using assms(1) es(1) by (simp add: zip_format_def)
  have m: "zp_entries s
      = fold (\<lambda>(name, is_dir, b) m. if is_dir \<and> length b = 0 then m else bt_insert name b m) es []"
    using es by (simp add: read_entries_def)
  have "bt_inv (zp_entries s) \<and> zip_kept dir (zp_entries s) = zp_entries s"
    by (rule read_entries_fold [OF marks _ _ m]) (simp_all add: zip_kept_def)
  with es(2) s show ?thesis by (simp add: zip_synced_def)
qed

lemma zip_synced_write:
  assumes "zip_format io dir" "bt_inv (zp_entries s')"
    "zio_encode io (zp_entries s') = Inr b" "zp_file s' = Some b"
  shows "zip_synced io dir s'"
  using assms read_entries_format [OF assms(1,3,2)] by (simp add: zip_synced_def)

lemma zip_synced_same:
  "zip_synced io dir s \<Longrightarrow> zp_entries s' = zp_entries s \<Longrightarrow> zp_file s' = zp_file s \<Longrightarrow> zip_synced io dir s'"
  by (auto simp: zip_synced_def split: option.splits)

lemma zip_synced_exec:
  assumes "zip_format io dir" "zip_synced io dir s"
  shows "zip_synced io dir (zip_exec io c s)"
proof -
  have inv: "bt_inv (zp_entries s)" using assms(2) by (simp add: zip_synced_def)
  show ?thesis
  proof (cases c)
    case (CallPut k v)
    obtain r s' where put: "zip_put io k v s = (r, s')" by fastforce
    from zip_put_effect [OF inv put] have "zip_synced io dir s'"
      using inv zip_synced_same [OF assms(2)] zip_synced_write [OF assms(1), of s']
      by (auto split: sum.splits)
    with CallPut put show ?thesis by simp
  next
    case (CallDelete k)
    obtain r s' where del: "zip_delete io k s = (r, s')" by fastforce
    from zip_delete_effect [OF inv del] have "zip_synced io dir s'"
      using inv assms(2) zip_synced_same [OF assms(2)] zip_synced_write [OF assms(1), of s']
      by (auto split: sum.splits)
    with CallDelete del show ?thesis by simp
  next
    case (CallApply ops)
    obtain r s' where app: "zip_apply io ops s = (r, s')" by fastforce
    from zip_apply_effect [OF app] have "zip_synced io dir s'"
      using inv zip_synced_same [OF assms(2)] zip_synced_write [OF assms(1), of s']
        fold_write_entry [OF inv, of ops]
      by (auto split: sum.splits)
    with CallApply app show ?thesis by simp
  qed
qed

lemma zip_synced_run:
  "zip_format io dir \<Longrightarrow> zip_synced io dir s \<Longrightarrow> zip_synced io dir (fold (zip_exec io) calls s)"
  by (induction calls arbitrary: s) (simp_all add: zip_synced_exec)

text \<open>
  C21. The archive survives a restart: open an archive, make any calls of which the file system
  may fail any, and open the file again; the entries are those the first process last saw,
  except entries without bytes whose name the zip format reads as a directory.
\<close>

theorem zip_reopen:
  assumes "zip_format io dir" "zip_open io f c = Inr s"
    and "t = fold (zip_exec io) calls s"
  shows "map_sum id zp_entries (zip_open io (zp_file t) c') = Inr (zip_kept dir (zp_entries t))"
  using zip_synced_run [OF assms(1) zip_open_synced [OF assms(1,2)], of calls] assms(3)
  by (auto simp: zip_open_def zip_synced_def zip_kept_def split: option.splits)

definition demo_pair_io :: zip_io where
  "demo_pair_io =
     \<lparr>zio_encode = (\<lambda>m. case m of [] \<Rightarrow> Inr [] | [(k, [v])] \<Rightarrow> if k = ''a'' then Inr [v] else Inl (BackendError k)
        | _ \<Rightarrow> Inl (BackendError ''full'')),
      zio_decode = (\<lambda>b. case b of [] \<Rightarrow> Inr [] | v # _ \<Rightarrow> Inr [(''a'', False, [v])]),
      zio_write = (\<lambda>_. None), zio_rename = (\<lambda>n. if n = 1 then Some (BackendError ''rename'') else None)\<rparr>"

lemma demo_pair_format: "zip_format demo_pair_io (\<lambda>k. last k = CHR ''/'')"
  by (auto simp: zip_format_def demo_pair_io_def split: list.splits if_splits)

theorem zip_reopen_witness:
  "map_sum id zp_entries
     (zip_open demo_pair_io
        (zp_file (fold (zip_exec demo_pair_io) [CallPut ''a'' [5], CallPut ''a'' [6]]
           \<lparr>zp_entries = [], zp_file = None, zp_counter = 0\<rparr>)) 9) = Inr [(''a'', [5])]"
proof -
  let ?s = "\<lparr>zp_entries = [], zp_file = None, zp_counter = 0\<rparr>"
  let ?t = "fold (zip_exec demo_pair_io) [CallPut ''a'' [5], CallPut ''a'' [6]] ?s"
  have "zip_open demo_pair_io None 0 = Inr ?s"
    by (simp add: zip_open_def)
  from zip_reopen [OF demo_pair_format this refl,
      of "[CallPut ''a'' [5], CallPut ''a'' [6]]" 9]
  have "map_sum id zp_entries (zip_open demo_pair_io (zp_file ?t) 9)
      = Inr (zip_kept (\<lambda>k. last k = CHR ''/'') (zp_entries ?t))" .
  moreover have "zp_entries ?t = [(''a'', [5])]"
    by (simp add: zip_put_def write_entries_def demo_pair_io_def bt_get_def)
  ultimately show ?thesis
    by (simp add: zip_kept_def)
qed

end
