(* ===== verification/Muniment_Journal.thy ===== *)
theory Muniment_Journal
  imports Muniment
begin

text \<open>
  The append-only journal of \<^verbatim>\<open>crates/eidetic/muniment/src/journal\<close>: entries in a
  flat sequence, causes as parent links beside them, forks, replay, and persistence through a
  slot. A sequence number is an index into a vector; vectors hold fewer than \<open>2 ^ 64\<close>
  entries, so the 64 bit stamp is the index itself and is a natural number here.
\<close>

section \<open>The log\<close>

type_synonym jseq = nat

record provenance =
  pv_source :: "string option"
  pv_at :: jseq

record 'a journal =
  jn_id :: "string option"
  jn_provenance :: "provenance option"
  jn_entries :: "'a list"
  jn_parents :: "jseq list list"

definition journal_new :: "'a journal" where
  "journal_new = \<lparr>jn_id = None, jn_provenance = None, jn_entries = [], jn_parents = []\<rparr>"

definition journal_with_id :: "string \<Rightarrow> 'a journal" where
  "journal_with_id i = journal_new\<lparr>jn_id := Some i\<rparr>"

definition parents_of :: "'a journal \<Rightarrow> jseq \<Rightarrow> jseq list" where
  "parents_of j s = (if s < length (jn_parents j) then jn_parents j ! s else [])"

definition set_parents :: "jseq \<Rightarrow> jseq list \<Rightarrow> 'a journal \<Rightarrow> 'a journal" where
  "set_parents s causes j =
     (if causes = [] then j
      else
        (let ps = (if length (jn_parents j) \<le> s
                   then jn_parents j @ replicate (s + 1 - length (jn_parents j)) []
                   else jn_parents j)
         in j\<lparr>jn_parents := ps[s := causes]\<rparr>))"

definition append_entry :: "'a \<Rightarrow> 'a journal \<Rightarrow> jseq \<times> 'a journal" where
  "append_entry x j = (length (jn_entries j), j\<lparr>jn_entries := jn_entries j @ [x]\<rparr>)"

definition journal_get :: "'a journal \<Rightarrow> jseq \<Rightarrow> 'a option" where
  "journal_get j s = (if s < length (jn_entries j) then Some (jn_entries j ! s) else None)"

definition entries_from :: "'a journal \<Rightarrow> jseq \<Rightarrow> 'a list" where
  "entries_from j s = drop (min s (length (jn_entries j))) (jn_entries j)"

definition next_seq :: "'a journal \<Rightarrow> jseq" where
  "next_seq j = length (jn_entries j)"

definition replay :: "'a journal \<Rightarrow> 's \<Rightarrow> ('s \<Rightarrow> 'a \<Rightarrow> 's) \<Rightarrow> 's" where
  "replay j init f = foldl f init (jn_entries j)"

definition replay_from :: "'a journal \<Rightarrow> jseq \<Rightarrow> 's \<Rightarrow> ('s \<Rightarrow> 'a \<Rightarrow> 's) \<Rightarrow> 's" where
  "replay_from j s init f = foldl f init (entries_from j s)"

definition journal_fork :: "string \<Rightarrow> 'a journal \<Rightarrow> 'a journal" where
  "journal_fork new_id j =
     \<lparr>jn_id = Some new_id, jn_provenance = Some \<lparr>pv_source = jn_id j, pv_at = next_seq j\<rparr>,
      jn_entries = jn_entries j, jn_parents = jn_parents j\<rparr>"

section \<open>Causes\<close>

datatype causal_error = UnknownParent jseq

text \<open>The loop over the named causes: the first one that does not exist yet is refused.\<close>

fun collect_causes :: "jseq \<Rightarrow> jseq list \<Rightarrow> jseq list \<Rightarrow> causal_error + jseq list" where
  "collect_causes next [] parents = Inr parents"
| "collect_causes next (c # cs) parents =
     (if c \<ge> next then Inl (UnknownParent c)
      else collect_causes next cs (insort_insert c parents))"

definition append_caused_by ::
  "jseq list \<Rightarrow> 'a \<Rightarrow> 'a journal \<Rightarrow> (causal_error + jseq) \<times> 'a journal" where
  "append_caused_by causes x j =
     (case collect_causes (next_seq j) causes [] of
        Inl e \<Rightarrow> (Inl e, j)
      | Inr parents \<Rightarrow>
          (let (s, j') = append_entry x j in (Inr s, set_parents s parents j')))"

definition roots :: "'a journal \<Rightarrow> jseq list" where
  "roots j = filter (\<lambda>s. parents_of j s = []) [0..<length (jn_entries j)]"

text \<open>The breadth-first walk: the queue, the entries seen, and those seen in order.\<close>

function causes_loop ::
  "'a journal \<Rightarrow> jseq set \<Rightarrow> jseq list \<Rightarrow> jseq list \<Rightarrow> jseq list" where
  "causes_loop j seen [] order = order"
| "causes_loop j seen (c # queue) order =
     (if c \<in> seen then causes_loop j seen queue order
      else causes_loop j (insert c seen) (queue @ parents_of j c) (order @ [c]))"
  by pat_completeness auto

text \<open>Every entry the walk can meet is queued or named as a parent somewhere.\<close>

definition walk_universe :: "'a journal \<Rightarrow> jseq list \<Rightarrow> jseq set" where
  "walk_universe j queue = set queue \<union> \<Union> (set ` set (jn_parents j))"

lemma parents_in_universe: "set (parents_of j c) \<subseteq> \<Union> (set ` set (jn_parents j))"
  by (force simp: parents_of_def)

lemma walk_step_shrinks:
  assumes "c \<notin> seen"
  shows "card (walk_universe j (queue @ parents_of j c) - insert c seen)
    < card (walk_universe j (c # queue) - seen)"
proof (rule psubset_card_mono)
  show "finite (walk_universe j (c # queue) - seen)"
    by (simp add: walk_universe_def)
  show "walk_universe j (queue @ parents_of j c) - insert c seen
      \<subset> walk_universe j (c # queue) - seen"
    using assms parents_in_universe [of j c] by (auto simp: walk_universe_def)
qed

lemma walk_skip_shrinks:
  assumes "c \<in> seen"
  shows "card (walk_universe j queue - seen) \<le> card (walk_universe j (c # queue) - seen)"
  by (rule card_mono) (auto simp: walk_universe_def)

termination causes_loop
  by (relation "measures [\<lambda>(j, seen, queue, order). card (walk_universe j queue - seen),
        \<lambda>(j, seen, queue, order). length queue]")
    (auto simp: walk_step_shrinks dest: walk_skip_shrinks intro: le_neq_implies_less)

definition causes :: "'a journal \<Rightarrow> jseq \<Rightarrow> jseq list" where
  "causes j s = causes_loop j {} (parents_of j s) []"

definition effects :: "'a journal \<Rightarrow> jseq \<Rightarrow> jseq list" where
  "effects j s =
     remove1 s
       (fold (\<lambda>i reached. if list_ex (\<lambda>p. p \<in> set reached) (parents_of j i)
                then insort_insert i reached else reached)
          [s + 1..<length (jn_entries j)] [s])"

definition concurrent :: "'a journal \<Rightarrow> jseq \<Rightarrow> jseq \<Rightarrow> bool" where
  "concurrent j a b \<longleftrightarrow> a \<noteq> b \<and> a \<notin> set (causes j b) \<and> b \<notin> set (causes j a)"

section \<open>Persistence\<close>

definition journal_save ::
  "('a journal \<Rightarrow> store_error + bytes) \<Rightarrow> 's backend \<Rightarrow> string \<Rightarrow> 'a journal \<Rightarrow> 's
   \<Rightarrow> (store_error + unit) \<times> 's" where
  "journal_save enc B k j s = slot_save enc B k j s"

definition journal_load ::
  "(bytes \<Rightarrow> store_error + 'a journal) \<Rightarrow> 's backend \<Rightarrow> string \<Rightarrow> 's \<Rightarrow> store_error + 'a journal" where
  "journal_load dec B k s =
     (case slot_load dec B k s of
        Inl e \<Rightarrow> Inl e
      | Inr r \<Rightarrow> Inr (case r of None \<Rightarrow> journal_new | Some j \<Rightarrow> j))"

section \<open>The invariant: a cause precedes its effect\<close>

definition journal_ok :: "'a journal \<Rightarrow> bool" where
  "journal_ok j \<longleftrightarrow> length (jn_parents j) \<le> length (jn_entries j)
     \<and> (\<forall>s < length (jn_parents j). sorted_wrt (<) (jn_parents j ! s)
          \<and> list_all (\<lambda>p. p < s) (jn_parents j ! s))"

lemma parents_lower: "journal_ok j \<Longrightarrow> p \<in> set (parents_of j s) \<Longrightarrow> p < s"
  by (auto simp: journal_ok_def parents_of_def list_all_iff split: if_splits)

lemma parents_exist: "journal_ok j \<Longrightarrow> p \<in> set (parents_of j s) \<Longrightarrow> s < length (jn_entries j)"
  by (auto simp: journal_ok_def parents_of_def split: if_splits)

lemma collect_causes_spec:
  "sorted_wrt (<) acc \<Longrightarrow> collect_causes n cs acc = Inr ps \<Longrightarrow>
     sorted_wrt (<) ps \<and> set ps = set acc \<union> set cs \<and> (\<forall>c \<in> set cs. c < n)"
proof (induction cs arbitrary: acc)
  case (Cons c cs)
  then have "c < n" "collect_causes n cs (insort_insert c acc) = Inr ps"
    by (auto split: if_splits)
  with Cons.IH [of "insort_insert c acc"] Cons.prems(1) show ?case
    by (auto simp: strict_insort_insert set_insort_insert)
qed simp

lemma collect_causes_refuses:
  "collect_causes n cs acc = Inl (UnknownParent c) \<longleftrightarrow>
     List.find (\<lambda>c. c \<ge> n) cs = Some c"
  by (induction cs arbitrary: acc) auto

lemma strict_sorted_unique:
  "sorted_wrt (<) xs \<Longrightarrow> sorted_wrt (<) ys \<Longrightarrow> set xs = set ys \<Longrightarrow> xs = (ys :: 'a::linorder list)"
  by (simp add: strict_sorted_iff sorted_distinct_set_unique)

lemma parents_append_entry: "parents_of (snd (append_entry x j)) s = parents_of j s"
  by (simp add: append_entry_def parents_of_def)

lemma set_parents_of:
  assumes "length (jn_parents j) \<le> s" "ps \<noteq> []"
  shows "parents_of (set_parents s ps j) t = (if t = s then ps else parents_of j t)"
  using assms by (auto simp: set_parents_def parents_of_def nth_append nth_list_update)

lemma journal_ok_new [simp]: "journal_ok journal_new"
  by (simp add: journal_ok_def journal_new_def)

lemma journal_ok_append: "journal_ok j \<Longrightarrow> journal_ok (snd (append_entry x j))"
  by (auto simp: journal_ok_def append_entry_def)

lemma journal_ok_fork: "journal_ok j \<Longrightarrow> journal_ok (journal_fork i j)"
  by (simp add: journal_ok_def journal_fork_def)

lemma set_parents_length:
  "length (jn_parents (set_parents s ps j)) = (if ps = [] then length (jn_parents j)
     else max (length (jn_parents j)) (s + 1))"
  by (auto simp: set_parents_def)

lemma journal_ok_iff:
  "journal_ok j \<longleftrightarrow> length (jn_parents j) \<le> length (jn_entries j)
     \<and> (\<forall>s. sorted_wrt (<) (parents_of j s) \<and> list_all (\<lambda>p. p < s) (parents_of j s))"
  by (auto simp: journal_ok_def parents_of_def)

lemma journal_ok_append_caused_by:
  assumes "journal_ok j"
  shows "journal_ok (snd (append_caused_by cs x j))"
proof (cases "collect_causes (next_seq j) cs []")
  case (Inr ps)
  let ?j = "snd (append_entry x j)"
  let ?s = "next_seq j"
  have ps: "sorted_wrt (<) ps" "\<forall>p \<in> set ps. p < ?s"
    using collect_causes_spec [of "[]" "next_seq j" cs ps] Inr by auto
  have len: "length (jn_parents ?j) \<le> ?s" "length (jn_entries ?j) = ?s + 1"
    using assms by (simp_all add: journal_ok_def append_entry_def next_seq_def)
  have "journal_ok (set_parents ?s ps ?j)"
  proof (cases "ps = []")
    case True
    with journal_ok_append [OF assms] show ?thesis by (simp add: set_parents_def)
  next
    case False
    with len(1) have par: "parents_of (set_parents ?s ps ?j) t
        = (if t = ?s then ps else parents_of j t)" for t
      by (simp add: set_parents_of parents_append_entry)
    have "jn_entries (set_parents ?s ps ?j) = jn_entries ?j"
      by (simp add: set_parents_def Let_def)
    with len par ps assms show ?thesis
      by (auto simp: journal_ok_iff set_parents_length list_all_iff)
  qed
  with Inr show ?thesis
    by (simp add: append_caused_by_def append_entry_def next_seq_def)
qed (use assms in \<open>simp add: append_caused_by_def\<close>)

section \<open>Causes and effects are the closure of the parent links\<close>

definition parent_rel :: "'a journal \<Rightarrow> (jseq \<times> jseq) set" where
  "parent_rel j = {(p, s). p \<in> set (parents_of j s)}"

lemma parent_rel_lower:
  assumes "journal_ok j" "(a, b) \<in> (parent_rel j)\<^sup>+"
  shows "a < b"
  using assms(2)
proof (induction rule: trancl_induct)
  case (step b c)
  then have "b < c" using parents_lower [OF assms(1)] by (simp add: parent_rel_def)
  with step show ?case by simp
qed (simp add: parent_rel_def parents_lower [OF assms(1)])

lemma parent_rel_exists: "journal_ok j \<Longrightarrow> (a, b) \<in> (parent_rel j)\<^sup>+ \<Longrightarrow> b < length (jn_entries j)"
  by (erule tranclE) (simp_all add: parent_rel_def parents_exist)

text \<open>
  The walk keeps: what was seen is what was listed, and every parent of a listed entry is
  listed or queued. When the queue is empty the list is closed under parents.
\<close>

definition walk_inv :: "'a journal \<Rightarrow> jseq set \<Rightarrow> jseq list \<Rightarrow> jseq list \<Rightarrow> bool" where
  "walk_inv j seen queue order \<longleftrightarrow> seen = set order \<and> distinct order
     \<and> (\<forall>c \<in> set order. set (parents_of j c) \<subseteq> set order \<union> set queue)"

lemma causes_loop_closed:
  "walk_inv j seen queue order \<Longrightarrow>
     walk_inv j (set (causes_loop j seen queue order)) [] (causes_loop j seen queue order)
     \<and> set order \<union> set queue \<subseteq> set (causes_loop j seen queue order)"
proof (induction j seen queue order rule: causes_loop.induct)
  case (2 j seen c queue order)
  show ?case
  proof (cases "c \<in> seen")
    case True
    with "2.prems" have "walk_inv j seen queue order" "c \<in> set order"
      by (auto simp: walk_inv_def)
    with "2.IH"(1) [OF True] True show ?thesis by auto
  next
    case False
    with "2.prems" have "walk_inv j (insert c seen) (queue @ parents_of j c) (order @ [c])"
      by (auto simp: walk_inv_def)
    from "2.IH"(2) [OF False this] False show ?thesis by simp
  qed
qed (simp add: walk_inv_def)

lemma causes_loop_sound:
  "x \<in> set (causes_loop j seen queue order) \<Longrightarrow>
     x \<in> set order \<or> (\<exists>q \<in> set queue. (x, q) \<in> (parent_rel j)\<^sup>*)"
proof (induction j seen queue order rule: causes_loop.induct)
  case (2 j seen c queue order)
  show ?case
  proof (cases "c \<in> seen")
    case True
    with "2.IH"(1) [OF True] "2.prems" show ?thesis by auto
  next
    case False
    with "2.IH"(2) [OF False] "2.prems" consider "x \<in> set (order @ [c])"
      | q where "q \<in> set (queue @ parents_of j c)" "(x, q) \<in> (parent_rel j)\<^sup>*"
      by auto
    then show ?thesis
    proof cases
      case (2 q)
      then have "q \<in> set queue \<or> (q, c) \<in> parent_rel j"
        by (simp add: parent_rel_def)
      with 2(2) show ?thesis
        by (meson list.set_intros rtrancl_into_rtrancl)
    qed auto
  qed
qed simp

lemma set_causes: "set (causes j s) = {a. (a, s) \<in> (parent_rel j)\<^sup>+} \<and> distinct (causes j s)"
proof -
  have "walk_inv j {} (parents_of j s) []"
    by (simp add: walk_inv_def)
  note closed = causes_loop_closed [OF this, folded causes_def]
  have "a \<in> set (causes j s)" if "(a, s) \<in> (parent_rel j)\<^sup>+" for a
    using that
  proof (induction rule: converse_trancl_induct)
    case (base a)
    then have "a \<in> set (parents_of j s)" by (simp add: parent_rel_def)
    with closed show ?case by auto
  next
    case (step a b)
    then have "a \<in> set (parents_of j b)" by (simp add: parent_rel_def)
    with closed step.IH show ?case by (auto simp: walk_inv_def)
  qed
  moreover have "(a, s) \<in> (parent_rel j)\<^sup>+" if a: "a \<in> set (causes j s)" for a
  proof -
    obtain q where "q \<in> set (parents_of j s)" "(a, q) \<in> (parent_rel j)\<^sup>*"
      using causes_loop_sound [OF a [unfolded causes_def]] by auto
    moreover from this(1) have "(q, s) \<in> parent_rel j" by (simp add: parent_rel_def)
    ultimately show ?thesis by (simp add: rtrancl_into_trancl1)
  qed
  ultimately show ?thesis
    using closed by (auto simp: walk_inv_def)
qed

lemma last_step: "(a, b) \<in> (parent_rel j)\<^sup>+ \<longleftrightarrow>
    (\<exists>p \<in> set (parents_of j b). p = a \<or> (a, p) \<in> (parent_rel j)\<^sup>+)"
proof
  assume "(a, b) \<in> (parent_rel j)\<^sup>+"
  then show "\<exists>p \<in> set (parents_of j b). p = a \<or> (a, p) \<in> (parent_rel j)\<^sup>+"
    by (cases rule: tranclE) (auto simp: parent_rel_def)
next
  assume "\<exists>p \<in> set (parents_of j b). p = a \<or> (a, p) \<in> (parent_rel j)\<^sup>+"
  then obtain p where "(p, b) \<in> parent_rel j" "p = a \<or> (a, p) \<in> (parent_rel j)\<^sup>+"
    by (auto simp: parent_rel_def)
  then show "(a, b) \<in> (parent_rel j)\<^sup>+"
    by (meson r_into_trancl trancl_into_trancl)
qed

text \<open>One step of the forward pass, and what it has reached before index \<open>n\<close>.\<close>

abbreviation reach_step :: "'a journal \<Rightarrow> jseq \<Rightarrow> jseq list \<Rightarrow> jseq list" where
  "reach_step j i reached \<equiv>
     (if list_ex (\<lambda>p. p \<in> set reached) (parents_of j i) then insort_insert i reached else reached)"

lemma effects_pass:
  assumes "journal_ok j" "s < n"
  shows "sorted_wrt (<) (fold (reach_step j) [s + 1..<n] [s])
    \<and> set (fold (reach_step j) [s + 1..<n] [s]) = insert s {b. b < n \<and> (s, b) \<in> (parent_rel j)\<^sup>+}"
  using assms(2)
proof (induction n)
  case (Suc n)
  show ?case
  proof (cases "s = n")
    case True
    then have "{b. b < Suc n \<and> (s, b) \<in> (parent_rel j)\<^sup>+} = {}"
      using parent_rel_lower [OF assms(1)] by fastforce
    with True show ?thesis by auto
  next
    case False
    with Suc have "s < n" by simp
    define r where "r = fold (reach_step j) [s + 1..<n] [s]"
    have r: "sorted_wrt (<) r" "set r = insert s {b. b < n \<and> (s, b) \<in> (parent_rel j)\<^sup>+}"
      using Suc.IH [OF \<open>s < n\<close>] by (simp_all add: r_def)
    have hit: "list_ex (\<lambda>p. p \<in> set r) (parents_of j n) \<longleftrightarrow> (s, n) \<in> (parent_rel j)\<^sup>+"
      using parents_lower [OF assms(1)] unfolding last_step [of s n] list_ex_iff r(2) by auto
    have "fold (reach_step j) [s + 1..<Suc n] [s] = reach_step j n r"
      using \<open>s < n\<close> by (simp add: r_def)
    with r hit show ?thesis
      by (auto simp: strict_insort_insert set_insort_insert less_Suc_eq)
  qed
qed simp

lemma set_effects:
  assumes "journal_ok j"
  shows "sorted_wrt (<) (effects j s) \<and> set (effects j s) = {b. (s, b) \<in> (parent_rel j)\<^sup>+}"
proof (cases "s < length (jn_entries j)")
  case True
  have "{b. (s, b) \<in> (parent_rel j)\<^sup>+}
      = insert s {b. b < length (jn_entries j) \<and> (s, b) \<in> (parent_rel j)\<^sup>+} - {s}"
    using parent_rel_exists [OF assms] parent_rel_lower [OF assms] by fastforce
  with effects_pass [OF assms True] show ?thesis
    by (simp add: effects_def strict_sorted_iff sorted_remove1 distinct_remove1)
next
  case False
  then have "{b. (s, b) \<in> (parent_rel j)\<^sup>+} = {}"
    using parent_rel_exists [OF assms] parent_rel_lower [OF assms] by fastforce
  with False show ?thesis by (simp add: effects_def)
qed

section \<open>What the journal promises\<close>

text \<open>The calls that make or extend a log.\<close>

datatype 'a journal_call = CallAppend 'a | CallCaused "jseq list" 'a | CallFork string

fun journal_exec :: "'a journal_call \<Rightarrow> 'a journal \<Rightarrow> 'a journal" where
  "journal_exec (CallAppend x) j = snd (append_entry x j)"
| "journal_exec (CallCaused cs x) j = snd (append_caused_by cs x j)"
| "journal_exec (CallFork i) j = journal_fork i j"

lemma journal_ok_exec: "journal_ok j \<Longrightarrow> journal_ok (journal_exec c j)"
  by (cases c) (simp_all add: journal_ok_append journal_ok_append_caused_by journal_ok_fork)

lemma journal_ok_run: "journal_ok j \<Longrightarrow> journal_ok (fold journal_exec calls j)"
  by (induction calls arbitrary: j) (simp_all add: journal_ok_exec)

lemma entries_append_caused_by:
  "jn_entries (snd (append_caused_by cs x j)) =
     (if collect_causes (next_seq j) cs [] \<in> range Inl then jn_entries j else jn_entries j @ [x])"
  by (auto simp: append_caused_by_def append_entry_def set_parents_def Let_def split: sum.splits)

lemma prefix_exec: "prefix (jn_entries j) (jn_entries (journal_exec c j))"
  by (cases c) (simp_all add: append_entry_def entries_append_caused_by journal_fork_def)

lemma prefix_run: "prefix (jn_entries j) (jn_entries (fold journal_exec calls j))"
proof (induction calls arbitrary: j)
  case (Cons c calls)
  show ?case using prefix_exec [of j c] Cons [of "journal_exec c j"] by (simp add: prefix_order.trans)
qed simp

lemma prefix_get: "prefix (jn_entries j) (jn_entries k) \<Longrightarrow> journal_get j s = Some x \<Longrightarrow> journal_get k s = Some x"
  by (auto simp: journal_get_def prefix_def nth_append split: if_splits)

text \<open>
  C23. A sequence number names one entry for the life of the log, and a cause always precedes
  its effect: whatever calls follow, forks included, an entry already there stays at its
  number, and every entry that led to another has a lower number, so that replaying in stored
  order never applies an effect before its cause.
\<close>

theorem journal_history_is_stable:
  assumes "j = fold journal_exec calls journal_new" "k = fold journal_exec later j"
  shows "(journal_get j s = Some x \<longrightarrow> journal_get k s = Some x)
    \<and> (a \<in> set (causes k b) \<longrightarrow> a < b \<and> b < next_seq k)"
proof -
  have ok: "journal_ok k"
    unfolding assms by (intro journal_ok_run) simp
  have "prefix (jn_entries j) (jn_entries k)"
    unfolding assms(2) by (rule prefix_run)
  moreover have "a < b \<and> b < next_seq k" if "a \<in> set (causes k b)"
    using that set_causes [of k b] parent_rel_lower [OF ok] parent_rel_exists [OF ok]
    by (simp add: next_seq_def)
  ultimately show ?thesis
    using prefix_get [of j k s x] by simp
qed

definition demo_calls :: "nat journal_call list" where
  "demo_calls = [CallAppend 10, CallCaused [0] 11, CallAppend 12, CallCaused [2, 1, 1] 13]"

theorem journal_history_is_stable_witness:
  "journal_get (fold journal_exec [CallCaused [9] 14, CallFork ''copy''] (fold journal_exec demo_calls journal_new)) 1
     = Some 11
   \<and> causes (fold journal_exec demo_calls journal_new) 3 = [1, 2, 0] \<and> (0::nat) < 3"
proof -
  let ?j = "fold journal_exec demo_calls journal_new"
  have j: "?j = \<lparr>jn_id = None, jn_provenance = None, jn_entries = [10, 11, 12, 13],
      jn_parents = [[], [0], [], [1, 2]]\<rparr>"
    by (simp add: demo_calls_def journal_new_def append_entry_def append_caused_by_def next_seq_def
        set_parents_def insort_insert_key_def numeral_nat)
  have c: "causes ?j 3 = [1, 2, 0]"
    unfolding j by (simp add: causes_def parents_of_def numeral_nat)
  have "journal_get ?j 1 = Some 11"
    unfolding j by (simp add: journal_get_def)
  with journal_history_is_stable [of ?j demo_calls _ "[CallCaused [9] 14, CallFork ''copy'']" 1 11]
    journal_history_is_stable [of ?j demo_calls ?j "[]" 0 0 0 3] c
  show ?thesis by simp
qed

text \<open>
  C22. The causal queries are exact: on a log that keeps the invariant, the backward walk lists
  each entry that led to the asked one once and nothing else, the single forward pass lists in
  ascending order exactly the entries that followed from it, the two agree, and two
  entries are concurrent when neither query finds the other.
\<close>

theorem causal_queries_exact:
  assumes "journal_ok j"
  shows "distinct (causes j s) \<and> set (causes j s) = {a. (a, s) \<in> (parent_rel j)\<^sup>+}
    \<and> sorted_wrt (<) (effects j s) \<and> set (effects j s) = {b. (s, b) \<in> (parent_rel j)\<^sup>+}
    \<and> (concurrent j s t \<longleftrightarrow> s \<noteq> t \<and> t \<notin> set (effects j s) \<and> s \<notin> set (effects j t))"
  using set_causes [of j s] set_causes [of j t] set_effects [OF assms, of s] set_effects [OF assms, of t]
  by (simp add: concurrent_def)

theorem causal_queries_exact_witness:
  "set (effects (fold journal_exec demo_calls journal_new) 0) = {1, 3}
   \<and> concurrent (fold journal_exec demo_calls journal_new) 1 2"
proof -
  let ?j = "fold journal_exec demo_calls journal_new"
  have ok: "journal_ok ?j"
    by (intro journal_ok_run) simp
  have j: "?j = \<lparr>jn_id = None, jn_provenance = None, jn_entries = [10, 11, 12, 13],
      jn_parents = [[], [0], [], [1, 2]]\<rparr>"
    by (simp add: demo_calls_def journal_new_def append_entry_def append_caused_by_def next_seq_def
        set_parents_def insort_insert_key_def numeral_nat)
  have "effects ?j 0 = [1, 3]" "effects ?j 1 = [3]" "effects ?j 2 = [3]"
    unfolding j by (simp_all add: effects_def parents_of_def insort_insert_key_def numeral_nat)
  with causal_queries_exact [OF ok, of 1 2] show ?thesis by simp
qed

text \<open>
  An entry may cite only existing entries, and the order in which causes are named does
  not matter: an unknown cause is refused, naming the first one, and leaves the log as it was;
  otherwise the entry gets the next number and its parents are the named causes in ascending
  order without repetition, so the same set of causes gives the same log.
\<close>

theorem append_caused_by_spec:
  assumes "journal_ok j"
  shows "case List.find (\<lambda>c. c \<ge> next_seq j) cs of
      Some c \<Rightarrow> append_caused_by cs x j = (Inl (UnknownParent c), j)
    | None \<Rightarrow> (\<exists>j'. append_caused_by cs x j = (Inr (next_seq j), j')
        \<and> jn_entries j' = jn_entries j @ [x]
        \<and> sorted_wrt (<) (parents_of j' (next_seq j)) \<and> set (parents_of j' (next_seq j)) = set cs
        \<and> (\<forall>s. s \<noteq> next_seq j \<longrightarrow> parents_of j' s = parents_of j s)
        \<and> (\<forall>ds. set ds = set cs \<longrightarrow> append_caused_by ds x j = append_caused_by cs x j))"
proof (cases "collect_causes (next_seq j) cs []")
  case (Inl e)
  then obtain c where "e = UnknownParent c" by (cases e)
  with Inl show ?thesis
    using collect_causes_refuses [of "next_seq j" cs "[]" c] by (simp add: append_caused_by_def)
next
  case (Inr ps)
  let ?n = "next_seq j" and ?j = "snd (append_entry x j)"
  have none: "List.find (\<lambda>c. c \<ge> ?n) cs = None"
    using collect_causes_refuses [of ?n cs "[]"] Inr by (cases "List.find (\<lambda>c. c \<ge> ?n) cs") auto
  have ps: "sorted_wrt (<) ps" "set ps = set cs"
    using collect_causes_spec [of "[]" ?n cs ps] Inr by auto
  have len: "length (jn_parents ?j) \<le> ?n"
    using assms by (simp add: journal_ok_def append_entry_def next_seq_def)
  have par: "parents_of (set_parents ?n ps ?j) s = (if s = ?n then ps else parents_of j s)" for s
  proof (cases "ps = []")
    case True
    with len show ?thesis by (simp add: set_parents_def parents_append_entry) (simp add: parents_of_def append_entry_def)
  qed (simp add: set_parents_of [OF len] parents_append_entry)
  have same: "collect_causes ?n ds [] = Inr ps" if "set ds = set cs" for ds
  proof (cases "collect_causes ?n ds []")
    case (Inl e)
    then obtain c where "List.find (\<lambda>c. c \<ge> ?n) ds = Some c"
      using collect_causes_refuses [of ?n ds "[]"] by (cases e) auto
    with none that show ?thesis
      by (auto simp: find_None_iff dest: find_Some_mem)
  next
    case (Inr qs)
    with collect_causes_spec [of "[]" ?n ds qs] ps that show ?thesis
      by (auto intro: strict_sorted_unique)
  qed
  have app: "append_caused_by ds x j = (Inr ?n, set_parents ?n ps ?j)" if "set ds = set cs" for ds
    using same [OF that] by (simp add: append_caused_by_def append_entry_def next_seq_def)
  have "jn_entries (set_parents ?n ps ?j) = jn_entries j @ [x]"
    by (simp add: set_parents_def append_entry_def Let_def)
  with none ps par app show ?thesis by simp
qed

theorem append_caused_by_spec_witness:
  "append_caused_by [1, 5, 7] 14 (fold journal_exec demo_calls journal_new)
     = (Inl (UnknownParent 5), fold journal_exec demo_calls journal_new)"
proof -
  let ?j = "fold journal_exec demo_calls journal_new"
  have "journal_ok ?j" by (intro journal_ok_run) simp
  moreover have "next_seq ?j = 4"
    by (simp add: demo_calls_def journal_new_def append_entry_def append_caused_by_def next_seq_def
        set_parents_def insort_insert_key_def numeral_nat)
  ultimately show ?thesis
    using append_caused_by_spec [of ?j "[1, 5, 7]" 14] by simp
qed

text \<open>
  C24. A saved journal loads back: through the zip store, with a codec that decodes what it
  encoded, a successful save is read back as the same journal, and a slot never written, or
  deleted, loads as the empty journal.
\<close>

theorem journal_round_trip:
  assumes "bt_inv (zp_entries s)" "\<And>b. enc j = Inr b \<Longrightarrow> dec b = Inr j"
  shows "(journal_save enc (zip_backend io) k j s = (Inr (), s')
      \<longrightarrow> journal_load dec (zip_backend io) k s' = Inr j)
    \<and> (slot_delete (zip_backend io) k s = (Inr (), s')
      \<longrightarrow> journal_load dec (zip_backend io) k s' = Inr journal_new)"
  using zip.slot_round_trip [of s enc io k j s' dec] zip.slot_deleted [of s io k s' dec] assms
  by (simp add: journal_save_def journal_load_def)

definition demo_encode :: "nat journal \<Rightarrow> store_error + bytes" where
  "demo_encode j = (if j = journal_new then Inr [1] else Inl (CodecError ''large''))"

definition demo_decode :: "bytes \<Rightarrow> store_error + nat journal" where
  "demo_decode b = (if b = [1] then Inr journal_new else Inl (CodecError ''bytes''))"

theorem journal_round_trip_witness:
  "\<exists>s'. journal_save demo_encode (zip_backend demo_pair_io) ''a'' journal_new
       \<lparr>zp_entries = [], zp_file = None, zp_counter = 0\<rparr> = (Inr (), s')
     \<and> journal_load demo_decode (zip_backend demo_pair_io) ''a'' s' = Inr journal_new"
proof -
  let ?s = "\<lparr>zp_entries = [], zp_file = None, zp_counter = 0\<rparr>"
  let ?t = "\<lparr>zp_entries = [(''a'', [1])], zp_file = Some [1], zp_counter = 1\<rparr>"
  have "journal_save demo_encode (zip_backend demo_pair_io) ''a'' journal_new ?s = (Inr (), ?t)"
    by (simp add: journal_save_def slot_save_def demo_encode_def zip_backend_def zip_put_def
        write_entries_def demo_pair_io_def)
  moreover have "bt_inv (zp_entries ?s)" by simp
  ultimately show ?thesis
    using journal_round_trip [of ?s demo_encode journal_new demo_decode demo_pair_io "''a''" ?t]
    by (simp add: demo_encode_def demo_decode_def)
qed

end
