(* ===== verification/Mesh_Resource.thy ===== *)
theory Mesh_Resource
  imports Mesh_Spec Muniment
begin

text \<open>
  Execution control (\<^verbatim>\<open>crates/mesh/mesh/src/resource.rs\<close>) and the namespace a run
  sees (\<^verbatim>\<open>namespace.rs\<close>). The control word is shared between the host's handle and
  the run; each atomic access is one function on the shared state, and the interleaving of the
  two sides is the order of the calls. The host's blob space is a state: a blob source reads it,
  a blob sink changes it. Code that is handed a view, and has no other way to the space, is a
  program over the calls the view offers.
\<close>

section \<open>Descriptors and control\<close>

record resource_descriptor =
  rd_resource :: resource_id
  rd_implementation :: implementation_id
  rd_requires :: resource_requirements
  rd_verification :: verification_class

record run_context =
  rc_job :: key32
  rc_lease :: "key32 option"

datatype control_signal = Continue | Checkpoint | Cancel

record control_state =
  cs_signal :: u8
  cs_done :: u64
  cs_total :: u64
  cs_checkpoint_held :: bool
  cs_activity :: u8

definition escalate :: "u8 \<Rightarrow> control_state \<Rightarrow> control_state" where
  "escalate to st = st\<lparr>cs_signal := max (cs_signal st) to\<rparr>"

definition read_signal :: "control_state \<Rightarrow> control_signal" where
  "read_signal st =
     (if cs_signal st = 0 then Continue else if cs_signal st = 1 then Checkpoint else Cancel)"

definition control_progress :: "control_state \<Rightarrow> lease_progress" where
  "control_progress st =
     \<lparr>prog_done = cs_done st, prog_total = cs_total st, checkpoint_held = cs_checkpoint_held st,
      prog_activity =
        (if cs_activity st = 0 then Fetching
         else if cs_activity st = 1 then Preparing
         else if cs_activity st = 3 then Checkpointing
         else Running)\<rparr>"

text \<open>The host's handle.\<close>

definition handle_cancel :: "control_state \<Rightarrow> control_state" where
  "handle_cancel st = escalate 2 st"

definition request_checkpoint :: "control_state \<Rightarrow> control_state" where
  "request_checkpoint st = escalate 1 st"

text \<open>The run's side.\<close>

definition control_new :: control_state where
  "control_new =
     \<lparr>cs_signal = 0, cs_done = 0, cs_total = 0, cs_checkpoint_held = False, cs_activity = 2\<rparr>"

definition is_cancelled :: "control_state \<Rightarrow> bool" where
  "is_cancelled st \<longleftrightarrow> read_signal st = Cancel"

datatype namespace_error =
    UngrantedInput string
  | UngrantedOutput string
  | MissingBlob string
  | DigestMismatch string
  | OverGrant u64 u64
  | NamespaceBackend string

datatype resource_error =
    ResourceNamespace namespace_error
  | ResourceInput string string
  | ResourceCancelled
  | Checkpointed u64 u64
  | ResourceBackend string
  | PreparedTypeMismatch

definition control_check :: "control_state \<Rightarrow> resource_error + unit" where
  "control_check st = (if is_cancelled st then Inl ResourceCancelled else Inr ())"

definition control_report :: "u64 \<Rightarrow> u64 \<Rightarrow> control_state \<Rightarrow> control_state" where
  "control_report d t st = st\<lparr>cs_done := d, cs_total := t\<rparr>"

fun activity_code :: "lease_activity \<Rightarrow> u8" where
  "activity_code Fetching = 0"
| "activity_code Preparing = 1"
| "activity_code Running = 2"
| "activity_code Checkpointing = 3"

definition set_activity :: "lease_activity \<Rightarrow> control_state \<Rightarrow> control_state" where
  "set_activity a st = st\<lparr>cs_activity := activity_code a\<rparr>"

definition hold_checkpoint :: "bool \<Rightarrow> control_state \<Rightarrow> control_state" where
  "hold_checkpoint held st = st\<lparr>cs_checkpoint_held := held\<rparr>"

section \<open>The namespace of one job\<close>

type_synonym blob_source = "blob_ref \<Rightarrow> namespace_error + bytes option"
type_synonym 's blob_sink = "bytes \<Rightarrow> 's \<Rightarrow> (namespace_error + blob_ref) \<times> 's"

record output_commit =
  oc_name :: string
  oc_blob :: blob_ref

record 's namespace_view =
  nv_inputs :: "(string, blob_ref) btmap"
  nv_output_name :: string
  nv_max_output_bytes :: u64
  nv_source :: "'s \<Rightarrow> blob_source"
  nv_sink :: "'s blob_sink"

definition view_grant :: "job_spec \<Rightarrow> ('s \<Rightarrow> blob_source) \<Rightarrow> 's blob_sink \<Rightarrow> 's namespace_view" where
  "view_grant sp source sink =
     \<lparr>nv_inputs = fold (\<lambda>i m. bt_insert (in_name i) (in_blob i) m) (js_inputs sp) [],
      nv_output_name = og_name (js_output sp), nv_max_output_bytes = og_max_bytes (js_output sp),
      nv_source = source, nv_sink = sink\<rparr>"

definition input_names :: "'s namespace_view \<Rightarrow> string list" where
  "input_names v = map fst (nv_inputs v)"

definition view_read ::
  "(bytes \<Rightarrow> bytes) \<Rightarrow> 's namespace_view \<Rightarrow> string \<Rightarrow> 's \<Rightarrow> namespace_error + bytes" where
  "view_read h v name s =
     (case bt_get (nv_inputs v) name of
        None \<Rightarrow> Inl (UngrantedInput name)
      | Some blob \<Rightarrow>
          (case nv_source v s blob of
             Inl e \<Rightarrow> Inl e
           | Inr None \<Rightarrow> Inl (MissingBlob name)
           | Inr (Some b) \<Rightarrow>
               if \<not> blob_verifies h blob b then Inl (DigestMismatch name) else Inr b))"

definition view_commit ::
  "'s namespace_view \<Rightarrow> string \<Rightarrow> bytes \<Rightarrow> 's \<Rightarrow> (namespace_error + output_commit) \<times> 's" where
  "view_commit v name b s =
     (if name \<noteq> nv_output_name v then (Inl (UngrantedOutput name), s)
      else
        (let len = of_nat (length b)
         in if len > nv_max_output_bytes v then (Inl (OverGrant len (nv_max_output_bytes v)), s)
            else
              (case nv_sink v b s of
                 (Inl e, s') \<Rightarrow> (Inl e, s')
               | (Inr blob, s') \<Rightarrow> (Inr \<lparr>oc_name = name, oc_blob = blob\<rparr>, s'))))"

text \<open>
  The source and the sink are private to the view, so what code does with one is a tree of calls
  of its public methods, each followed by what the code does with the answer.
\<close>

datatype 'a view_prog =
    Finish 'a
  | CallRead string "namespace_error + bytes \<Rightarrow> 'a view_prog"
  | CallCommit string bytes "namespace_error + output_commit \<Rightarrow> 'a view_prog"
  | CallInputNames "string list \<Rightarrow> 'a view_prog"
  | CallOutputName "string \<Rightarrow> 'a view_prog"
  | CallMaxOutputBytes "u64 \<Rightarrow> 'a view_prog"

primrec run_view :: "(bytes \<Rightarrow> bytes) \<Rightarrow> 's namespace_view \<Rightarrow> 'a view_prog \<Rightarrow> 's \<Rightarrow> 'a \<times> 's" where
  "run_view h v (Finish x) s = (x, s)"
| "run_view h v (CallRead name k) s = run_view h v (k (view_read h v name s)) s"
| "run_view h v (CallCommit name b k) s =
     run_view h v (k (fst (view_commit v name b s))) (snd (view_commit v name b s))"
| "run_view h v (CallInputNames k) s = run_view h v (k (input_names v)) s"
| "run_view h v (CallOutputName k) s = run_view h v (k (nv_output_name v)) s"
| "run_view h v (CallMaxOutputBytes k) s = run_view h v (k (nv_max_output_bytes v)) s"

section \<open>A blob space over a muniment backend\<close>

text \<open>\<open>str_of\<close> stands for the rendering of a store error.\<close>

definition space_put ::
  "(bytes \<Rightarrow> bytes) \<Rightarrow> (bytes \<Rightarrow> string) \<Rightarrow> (store_error \<Rightarrow> string) \<Rightarrow> 's backend \<Rightarrow> 's blob_sink" where
  "space_put h hex str_of B b s =
     (case blob_put h hex B b s of
        (Inl e, s') \<Rightarrow> (Inl (NamespaceBackend (str_of e)), s')
      | (Inr _, s') \<Rightarrow> (Inr (blob_blake3 h b), s'))"

definition space_has ::
  "(bytes \<Rightarrow> string) \<Rightarrow> (store_error \<Rightarrow> string) \<Rightarrow> 's backend \<Rightarrow> blob_ref \<Rightarrow> 's \<Rightarrow> namespace_error + bool" where
  "space_has hex str_of B blob s =
     (case as_32 (br_digest blob) of
        Inl _ \<Rightarrow> Inr False
      | Inr b \<Rightarrow>
          (case blob_has hex B b s of Inl e \<Rightarrow> Inl (NamespaceBackend (str_of e)) | Inr r \<Rightarrow> Inr r))"

definition space_get ::
  "(bytes \<Rightarrow> string) \<Rightarrow> (store_error \<Rightarrow> string) \<Rightarrow> 's backend \<Rightarrow> 's \<Rightarrow> blob_source" where
  "space_get hex str_of B s blob =
     (case as_32 (br_digest blob) of
        Inl _ \<Rightarrow> Inr None
      | Inr b \<Rightarrow>
          (case blob_get hex B b s of Inl e \<Rightarrow> Inl (NamespaceBackend (str_of e)) | Inr r \<Rightarrow> Inr r))"

section \<open>Control only escalates\<close>

text \<open>Every call of either side on the shared state.\<close>

datatype control_call =
    HostCancel | HostCheckpoint | RunReport u64 u64 | RunActivity lease_activity | RunHold bool

fun control_exec :: "control_call \<Rightarrow> control_state \<Rightarrow> control_state" where
  "control_exec HostCancel st = handle_cancel st"
| "control_exec HostCheckpoint st = request_checkpoint st"
| "control_exec (RunReport d t) st = control_report d t st"
| "control_exec (RunActivity a) st = set_activity a st"
| "control_exec (RunHold b) st = hold_checkpoint b st"

fun asked_level :: "control_call list \<Rightarrow> u8" where
  "asked_level [] = 0"
| "asked_level (HostCancel # cs) = 2"
| "asked_level (HostCheckpoint # cs) = max 1 (asked_level cs)"
| "asked_level (_ # cs) = asked_level cs"

lemma asked_level_le: "asked_level cs \<le> 2"
  by (induction cs rule: asked_level.induct) (auto simp: max_def)

lemma control_exec_signal:
  "cs_signal st \<le> 2 \<Longrightarrow> cs_signal (fold control_exec cs st) = max (cs_signal st) (asked_level cs)"
proof (induction cs arbitrary: st)
  case (Cons c cs)
  have "cs_signal (control_exec c st) \<le> 2"
    using Cons.prems by (cases c)
      (simp_all add: handle_cancel_def request_checkpoint_def escalate_def control_report_def
        set_activity_def hold_checkpoint_def)
  note IH = Cons.IH [OF this]
  show ?case
    using IH Cons.prems asked_level_le [of cs]
    by (cases c)
      (simp_all add: handle_cancel_def request_checkpoint_def escalate_def control_report_def
        set_activity_def hold_checkpoint_def max.assoc max_absorb1)
qed (simp add: max_def)

text \<open>
  Control requests only escalate: whatever the host and the run do, in whatever order, the
  run reads the strongest request the host has made so far: cancelled exactly when some
  cancel was sent, also when a checkpoint is requested later, checkpoint when one was requested
  and none was cancelled, and to continue otherwise.
\<close>

theorem control_reads_strongest_request:
  "read_signal (fold control_exec cs control_new) =
     (if HostCancel \<in> set cs then Cancel
      else if HostCheckpoint \<in> set cs then Checkpoint else Continue)"
proof -
  have "asked_level cs = (if HostCancel \<in> set cs then 2 else if HostCheckpoint \<in> set cs then 1 else 0)"
  proof (induction cs)
    case (Cons c cs)
    then show ?case by (cases c) (simp_all add: max_def)
  qed simp
  then show ?thesis
    using control_exec_signal [of control_new cs] by (simp add: read_signal_def control_new_def)
qed

section \<open>A run sees only what was granted\<close>

lemma bt_get_fold_inputs:
  "bt_get (fold (\<lambda>i m. bt_insert (in_name i) (in_blob i) m) is m) name
     = (case List.find (\<lambda>i. in_name i = name) (rev is) of
          Some i \<Rightarrow> Some (in_blob i) | None \<Rightarrow> bt_get m name)"
proof (induction "is" arbitrary: m rule: rev_induct)
  case (snoc i "is")
  then show ?case by (simp add: bt_get_insert)
qed simp

lemma view_grant_simps [simp]:
  "nv_output_name (view_grant sp source sink) = og_name (js_output sp)"
  "nv_max_output_bytes (view_grant sp source sink) = og_max_bytes (js_output sp)"
  "nv_source (view_grant sp source sink) = source" "nv_sink (view_grant sp source sink) = sink"
  "nv_inputs (view_grant sp source sink) =
     fold (\<lambda>i m. bt_insert (in_name i) (in_blob i) m) (js_inputs sp) []"
  by (simp_all add: view_grant_def)

lemma view_read_grant:
  "view_read h (view_grant sp source sink) name s = Inr b \<Longrightarrow>
     \<exists>i \<in> set (js_inputs sp). in_name i = name \<and> source s (in_blob i) = Inr (Some b)
       \<and> in_blob i = blob_blake3 h b"
  by (auto simp: view_read_def bt_get_fold_inputs blob_verifies_blake3
      split: option.splits sum.splits if_splits dest!: find_Some_mem)

text \<open>Two answers of a blob source that a reader cannot tell apart, since it verifies the bytes.\<close>

definition same_answer ::
  "(bytes \<Rightarrow> bytes) \<Rightarrow> blob_ref \<Rightarrow> namespace_error + bytes option \<Rightarrow> namespace_error + bytes option \<Rightarrow> bool" where
  "same_answer h blob x y \<longleftrightarrow>
     x = y
     \<or> (\<exists>b c. x = Inr (Some b) \<and> y = Inr (Some c) \<and> \<not> blob_verifies h blob b \<and> \<not> blob_verifies h blob c)"

lemma view_read_same:
  assumes "\<And>i. i \<in> set (js_inputs sp) \<Longrightarrow> same_answer h (in_blob i) (source s (in_blob i)) (source' s (in_blob i))"
  shows "view_read h (view_grant sp source' sink) name s = view_read h (view_grant sp source sink) name s"
proof (cases "List.find (\<lambda>i. in_name i = name) (rev (js_inputs sp))")
  case (Some i)
  then have "i \<in> set (js_inputs sp)" by (auto dest: find_Some_mem)
  from assms [OF this] Some show ?thesis
    by (auto simp: same_answer_def view_read_def bt_get_fold_inputs)
qed (simp add: view_read_def bt_get_fold_inputs)

text \<open>Code with a view learns no more of the space than verified bytes of granted inputs.\<close>

lemma run_view_same:
  assumes "\<And>i s. i \<in> set (js_inputs sp) \<Longrightarrow> same_answer h (in_blob i) (source s (in_blob i)) (source' s (in_blob i))"
  shows "run_view h (view_grant sp source' sink) prog s = run_view h (view_grant sp source sink) prog s"
proof (induction prog arbitrary: s)
  case (CallRead name k)
  have "view_read h (view_grant sp source' sink) name s = view_read h (view_grant sp source sink) name s"
    by (rule view_read_same) (rule assms)
  with CallRead show ?case by simp
next
  case (CallCommit name b k)
  have "view_commit (view_grant sp source' sink) name b s = view_commit (view_grant sp source sink) name b s"
    by (simp add: view_commit_def Let_def)
  with CallCommit show ?case by simp
qed (simp_all add: input_names_def)

text \<open>The writes of code with a view, in order; code that never commits writes nothing.\<close>

lemma view_commit_effect:
  "view_commit v name b s = (r, s') \<Longrightarrow>
     s' = s \<or> (name = nv_output_name v \<and> of_nat (length b) \<le> nv_max_output_bytes v \<and> s' = snd (nv_sink v b s))"
  by (auto simp: view_commit_def Let_def not_less split: if_splits sum.splits prod.splits)

definition written :: "'s blob_sink \<Rightarrow> bytes list \<Rightarrow> 's \<Rightarrow> 's" where
  "written sink bs s = fold (\<lambda>b s. snd (sink b s)) bs s"

lemma written_simps [simp]:
  "written sink [] s = s" "written sink (b # bs) s = written sink bs (snd (sink b s))"
  "written sink (bs @ cs) s = written sink cs (written sink bs s)"
  by (simp_all add: written_def)

lemma view_commit_written:
  "\<exists>bs. snd (view_commit v name b s) = written (nv_sink v) bs s \<and> length bs \<le> 1
     \<and> (\<forall>b \<in> set bs. of_nat (length b) \<le> nv_max_output_bytes v)"
proof -
  consider "snd (view_commit v name b s) = s"
    | "of_nat (length b) \<le> nv_max_output_bytes v" "snd (view_commit v name b s) = snd (nv_sink v b s)"
    using view_commit_effect [of v name b s "fst (view_commit v name b s)" "snd (view_commit v name b s)"] by auto
  then show ?thesis
  proof cases
    case 1
    then show ?thesis by (intro exI [of _ "[]"]) simp
  next
    case 2
    then show ?thesis by (intro exI [of _ "[b]"]) simp
  qed
qed

lemma run_view_written:
  "\<exists>bs. snd (run_view h v prog s) = written (nv_sink v) bs s
     \<and> (\<forall>b \<in> set bs. of_nat (length b) \<le> nv_max_output_bytes v)"
proof (induction prog arbitrary: s)
  case (Finish x)
  show ?case by (intro exI [of _ "[]"]) simp
next
  case (CallCommit name b k)
  obtain bs where bs: "snd (view_commit v name b s) = written (nv_sink v) bs s"
    "\<forall>b \<in> set bs. of_nat (length b) \<le> nv_max_output_bytes v"
    using view_commit_written [of v name b s] by auto
  obtain cs where "snd (run_view h v (CallCommit name b k) s) = written (nv_sink v) cs (written (nv_sink v) bs s)"
    "\<forall>b \<in> set cs. of_nat (length b) \<le> nv_max_output_bytes v"
    using CallCommit.IH [OF rangeI, of "fst (view_commit v name b s)" "snd (view_commit v name b s)"] bs(1) by auto
  with bs(2) show ?case by (intro exI [of _ "bs @ cs"]) auto
qed simp_all

primrec never_commits :: "'a view_prog \<Rightarrow> bool" where
  "never_commits (Finish x) = True"
| "never_commits (CallRead name k) = (\<forall>r. never_commits (k r))"
| "never_commits (CallCommit name b k) = False"
| "never_commits (CallInputNames k) = (\<forall>r. never_commits (k r))"
| "never_commits (CallOutputName k) = (\<forall>r. never_commits (k r))"
| "never_commits (CallMaxOutputBytes k) = (\<forall>r. never_commits (k r))"

lemma never_commits_state: "never_commits prog \<Longrightarrow> snd (run_view h v prog s) = s"
  by (induction prog arbitrary: s) simp_all

end
