(* ===== verification/Mesh_Codec.thy ===== *)
theory Mesh_Codec
  imports Rust_Str
begin

text \<open>
  The canonical byte layout of the lexical resource,
  \<^verbatim>\<open>crates/mesh/mesh/src/resources/lexical_codec.rs\<close>: batches of texts and blocks of
  vectors, read through a bounds-checked cursor. An \<^verbatim>\<open>f32\<close> is its 32 bit pattern,
  which is what its little-endian bytes carry; indices into a slice are natural numbers. The
  embedding itself is floating point arithmetic of the \<^verbatim>\<open>esp\<close> crate and is a
  parameter.
\<close>

unbundle bit_operations_syntax

section \<open>Bytes, little-endian words and UTF-8\<close>

definition as_bytes :: "string \<Rightarrow> bytes" where
  "as_bytes s = map of_char s"

definition of_bytes :: "bytes \<Rightarrow> string" where
  "of_bytes b = map (\<lambda>w. char_of (unat w)) b"

definition to_le_bytes :: "u32 \<Rightarrow> bytes" where
  "to_le_bytes w = [ucast w, ucast (drop_bit 8 w), ucast (drop_bit 16 w), ucast (drop_bit 24 w)]"

fun from_le_bytes :: "bytes \<Rightarrow> u32" where
  "from_le_bytes [a, b, c, d] =
     ucast a OR push_bit 8 (ucast b) OR push_bit 16 (ucast c) OR push_bit 24 (ucast d)"
| "from_le_bytes _ = 0"

definition utf8_cont :: "u8 \<Rightarrow> bool" where
  "utf8_cont b \<longleftrightarrow> 0x80 \<le> b \<and> b \<le> 0xBF"

text \<open>The well-formed byte sequences \<^verbatim>\<open>std::str::from_utf8\<close> accepts.\<close>

fun utf8_valid :: "bytes \<Rightarrow> bool" where
  "utf8_valid [] = True"
| "utf8_valid (b # r) =
     (if b < 0x80 then utf8_valid r
      else
        (case r of
           [] \<Rightarrow> False
         | c1 # r1 \<Rightarrow>
             if 0xC2 \<le> b \<and> b \<le> 0xDF then utf8_cont c1 \<and> utf8_valid r1
             else
               (case r1 of
                  [] \<Rightarrow> False
                | c2 # r2 \<Rightarrow>
                    if 0xE0 \<le> b \<and> b \<le> 0xEF
                    then utf8_cont c1 \<and> (b = 0xE0 \<longrightarrow> 0xA0 \<le> c1) \<and> (b = 0xED \<longrightarrow> c1 \<le> 0x9F)
                      \<and> utf8_cont c2 \<and> utf8_valid r2
                    else
                      (case r2 of
                         [] \<Rightarrow> False
                       | c3 # r3 \<Rightarrow>
                           0xF0 \<le> b \<and> b \<le> 0xF4 \<and> utf8_cont c1 \<and> (b = 0xF0 \<longrightarrow> 0x90 \<le> c1)
                           \<and> (b = 0xF4 \<longrightarrow> c1 \<le> 0x8F) \<and> utf8_cont c2 \<and> utf8_cont c3
                           \<and> utf8_valid r3))))"

section \<open>The records\<close>

definition BATCH_MAGIC :: bytes where
  "BATCH_MAGIC = as_bytes ''mesh.lexical.batch/v1'' @ [0]"

definition VECTORS_MAGIC :: bytes where
  "VECTORS_MAGIC = as_bytes ''mesh.lexical.vectors/v1'' @ [0]"

definition MAX_DIMENSIONS :: u32 where
  "MAX_DIMENSIONS = 4096"

definition MAX_TEXTS :: u32 where
  "MAX_TEXTS = 1024"

definition MAX_TEXT_BYTES :: u32 where
  "MAX_TEXT_BYTES = 64 * 1024"

datatype similarity_metric = Cosine | Euclidean | DotProduct

record lexical_batch =
  lb_dimensions :: u32
  lb_texts :: "string list"

record lexical_vectors =
  lv_dimensions :: u32
  lv_metric :: similarity_metric
  lv_vectors :: "u32 list list"

datatype codec_error =
    WrongMagic string
  | Truncated
  | Trailing nat
  | Dimensions u32
  | TooManyTexts u32
  | TextTooLong u32 u32
  | NotUtf8 u32
  | MetricCode u8
  | Provider string

fun metric_code :: "similarity_metric \<Rightarrow> u8" where
  "metric_code Cosine = 0"
| "metric_code Euclidean = 1"
| "metric_code DotProduct = 2"

definition metric_from_code :: "u8 \<Rightarrow> codec_error + similarity_metric" where
  "metric_from_code code =
     (if code = 0 then Inr Cosine else if code = 1 then Inr Euclidean
      else if code = 2 then Inr DotProduct else Inl (MetricCode code))"

section \<open>The cursor\<close>

record cursor =
  cu_bytes :: bytes
  cu_at :: nat

definition cursor_new :: "bytes \<Rightarrow> cursor" where
  "cursor_new b = \<lparr>cu_bytes = b, cu_at = 0\<rparr>"

definition cursor_take :: "nat \<Rightarrow> cursor \<Rightarrow> codec_error + bytes \<times> cursor" where
  "cursor_take len c =
     (let end_at = cu_at c + len
      in if end_at \<le> length (cu_bytes c)
         then Inr (take len (drop (cu_at c) (cu_bytes c)), c\<lparr>cu_at := end_at\<rparr>)
         else Inl Truncated)"

definition cursor_magic :: "bytes \<Rightarrow> string \<Rightarrow> cursor \<Rightarrow> codec_error + cursor" where
  "cursor_magic expected what c =
     and_then (cursor_take (length expected) c) (\<lambda>(b, c').
       if b \<noteq> expected then Inl (WrongMagic what) else Inr c')"

definition cursor_u8 :: "cursor \<Rightarrow> codec_error + u8 \<times> cursor" where
  "cursor_u8 c = and_then (cursor_take 1 c) (\<lambda>(b, c'). Inr (hd b, c'))"

definition cursor_u32 :: "cursor \<Rightarrow> codec_error + u32 \<times> cursor" where
  "cursor_u32 c = and_then (cursor_take 4 c) (\<lambda>(b, c'). Inr (from_le_bytes b, c'))"

definition cursor_finish :: "cursor \<Rightarrow> codec_error + unit" where
  "cursor_finish c =
     (let left = length (cu_bytes c) - cu_at c
      in if left > 0 then Inl (Trailing left) else Inr ())"

section \<open>Encoding and decoding\<close>

definition encode_text :: "string \<Rightarrow> bytes" where
  "encode_text t = to_le_bytes (of_nat (length t)) @ as_bytes t"

definition batch_encode :: "lexical_batch \<Rightarrow> bytes" where
  "batch_encode b =
     BATCH_MAGIC @ to_le_bytes (lb_dimensions b) @ to_le_bytes (of_nat (length (lb_texts b)))
     @ concat (map encode_text (lb_texts b))"

text \<open>The loop over the texts: the number still to read and the index of the next.\<close>

fun read_texts :: "nat \<Rightarrow> u32 \<Rightarrow> cursor \<Rightarrow> codec_error + string list \<times> cursor" where
  "read_texts 0 index c = Inr ([], c)"
| "read_texts (Suc n) index c =
     and_then (cursor_u32 c) (\<lambda>(len, c1).
       if len > MAX_TEXT_BYTES then Inl (TextTooLong index len)
       else and_then (cursor_take (unat len) c1) (\<lambda>(raw, c2).
         if \<not> utf8_valid raw then Inl (NotUtf8 index)
         else and_then (read_texts n (index + 1) c2) (\<lambda>(ts, c3). Inr (of_bytes raw # ts, c3))))"

definition batch_decode :: "bytes \<Rightarrow> codec_error + lexical_batch" where
  "batch_decode b =
     and_then (cursor_magic BATCH_MAGIC ''lexical batch'' (cursor_new b)) (\<lambda>c.
     and_then (cursor_u32 c) (\<lambda>(dims, c1).
       if dims = 0 \<or> dims > MAX_DIMENSIONS then Inl (Dimensions dims)
       else and_then (cursor_u32 c1) (\<lambda>(count, c2).
         if count > MAX_TEXTS then Inl (TooManyTexts count)
         else and_then (read_texts (unat count) 0 c2) (\<lambda>(ts, c3).
           and_then (cursor_finish c3) (\<lambda>_. Inr \<lparr>lb_dimensions = dims, lb_texts = ts\<rparr>)))))"

definition vectors_encode :: "lexical_vectors \<Rightarrow> bytes" where
  "vectors_encode v =
     VECTORS_MAGIC @ to_le_bytes (lv_dimensions v) @ to_le_bytes (of_nat (length (lv_vectors v)))
     @ metric_code (lv_metric v) # concat (map (\<lambda>x. concat (map to_le_bytes x)) (lv_vectors v))"

fun read_values :: "nat \<Rightarrow> cursor \<Rightarrow> codec_error + u32 list \<times> cursor" where
  "read_values 0 c = Inr ([], c)"
| "read_values (Suc n) c =
     and_then (cursor_take 4 c) (\<lambda>(raw, c1).
     and_then (read_values n c1) (\<lambda>(vs, c2). Inr (from_le_bytes raw # vs, c2)))"

fun read_vectors :: "nat \<Rightarrow> nat \<Rightarrow> cursor \<Rightarrow> codec_error + u32 list list \<times> cursor" where
  "read_vectors dims 0 c = Inr ([], c)"
| "read_vectors dims (Suc n) c =
     and_then (read_values dims c) (\<lambda>(v, c1).
     and_then (read_vectors dims n c1) (\<lambda>(vs, c2). Inr (v # vs, c2)))"

definition vectors_decode :: "bytes \<Rightarrow> codec_error + lexical_vectors" where
  "vectors_decode b =
     and_then (cursor_magic VECTORS_MAGIC ''lexical vectors'' (cursor_new b)) (\<lambda>c.
     and_then (cursor_u32 c) (\<lambda>(dims, c1).
       if dims = 0 \<or> dims > MAX_DIMENSIONS then Inl (Dimensions dims)
       else and_then (cursor_u32 c1) (\<lambda>(count, c2).
         if count > MAX_TEXTS then Inl (TooManyTexts count)
         else and_then (cursor_u8 c2) (\<lambda>(code, c3).
           and_then (metric_from_code code) (\<lambda>metric.
           and_then (read_vectors (unat dims) (unat count) c3) (\<lambda>(vs, c4).
           and_then (cursor_finish c4) (\<lambda>_.
             Inr \<lparr>lv_dimensions = dims, lv_metric = metric, lv_vectors = vs\<rparr>)))))))"

text \<open>\<open>emb\<close> stands for the provider of \<^verbatim>\<open>esp\<close>; its metric is cosine.\<close>

definition embed_batch ::
  "(u32 \<Rightarrow> string list \<Rightarrow> string + u32 list list) \<Rightarrow> lexical_batch \<Rightarrow> codec_error + lexical_vectors" where
  "embed_batch emb b =
     (case emb (lb_dimensions b) (lb_texts b) of
        Inl e \<Rightarrow> Inl (Provider e)
      | Inr vs \<Rightarrow> Inr \<lparr>lv_dimensions = lb_dimensions b, lv_metric = Cosine, lv_vectors = vs\<rparr>)"

definition run_canonical ::
  "(u32 \<Rightarrow> string list \<Rightarrow> string + u32 list list) \<Rightarrow> bytes \<Rightarrow> codec_error + bytes" where
  "run_canonical emb input =
     and_then (batch_decode input) (\<lambda>b. and_then (embed_batch emb b) (\<lambda>v. Inr (vectors_encode v)))"

section \<open>Words and bytes\<close>

lemma le_bytes_length [simp]: "length (to_le_bytes w) = 4"
  by (simp add: to_le_bytes_def)

lemma from_to_le [simp]: "from_le_bytes (to_le_bytes w) = w"
  unfolding to_le_bytes_def from_le_bytes.simps
proof (rule bit_word_eqI)
  fix n assume "n < LENGTH(32)"
  then consider "n < 8" | "8 \<le> n" "n < 16" | "16 \<le> n" "n < 24" | "24 \<le> n" "n < 32"
    by fastforce
  then show "bit (ucast (ucast w :: u8) OR push_bit 8 (ucast (ucast (drop_bit 8 w) :: u8))
      OR push_bit 16 (ucast (ucast (drop_bit 16 w) :: u8))
      OR push_bit 24 (ucast (ucast (drop_bit 24 w) :: u8)) :: u32) n = bit w n"
    by cases (auto simp: bit_simps)
qed

lemma to_from_le: "length b = 4 \<Longrightarrow> to_le_bytes (from_le_bytes b) = b"
proof -
  assume "length b = 4"
  then obtain w x y z where b: "b = [w, x, y, z]"
    by (auto simp: numeral_eq_Suc length_Suc_conv)
  have "ucast (from_le_bytes b) = w" "ucast (drop_bit 8 (from_le_bytes b)) = x"
    "ucast (drop_bit 16 (from_le_bytes b)) = y" "ucast (drop_bit 24 (from_le_bytes b)) = z"
    unfolding b from_le_bytes.simps
    by (rule bit_word_eqI; auto simp: bit_simps dest: bit_imp_le_length)+
  then show ?thesis
    by (simp add: to_le_bytes_def b)
qed

lemma unat_of_char: "unat (of_char c :: u8) = of_char c"
proof -
  have "(of_char c :: u8) = of_nat (of_char c)"
    by (rule of_nat_of_char [symmetric])
  moreover have "(of_char c :: nat) < 256"
    by simp
  ultimately show ?thesis
    by (simp add: unsigned_of_nat take_bit_eq_mod)
qed

lemma of_char_char_of_unat: "of_char (char_of (unat w)) = (w :: u8)"
proof -
  have "of_char (char_of (unat w)) = (of_nat (of_char (char_of (unat w))) :: u8)"
    by (rule of_nat_of_char [symmetric])
  also have "\<dots> = of_nat (unat w mod 256)"
    by (simp only: of_char_of)
  also have "\<dots> = w"
    using unsigned_less [of w, where ?'a = nat] by simp
  finally show ?thesis .
qed

lemma of_as_bytes [simp]: "of_bytes (as_bytes s) = s"
  by (simp add: of_bytes_def as_bytes_def unat_of_char comp_def)

lemma as_of_bytes [simp]: "as_bytes (of_bytes b) = b"
  by (simp add: of_bytes_def as_bytes_def of_char_char_of_unat comp_def)

lemma length_as_bytes [simp]: "length (as_bytes s) = length s"
  by (simp add: as_bytes_def)

lemma length_of_bytes [simp]: "length (of_bytes b) = length b"
  by (simp add: of_bytes_def)


section \<open>Reading back what was written\<close>

text \<open>A cursor is at a suffix of its input.\<close>

definition ahead :: "cursor \<Rightarrow> bytes \<Rightarrow> bool" where
  "ahead c r \<longleftrightarrow> cu_at c \<le> length (cu_bytes c) \<and> drop (cu_at c) (cu_bytes c) = r"

lemma ahead_new: "ahead (cursor_new b) b"
  by (simp add: ahead_def cursor_new_def)

lemma cursor_take_ahead:
  assumes "ahead c (x @ r)"
  shows "\<exists>c'. cursor_take (length x) c = Inr (x, c') \<and> ahead c' r"
proof -
  have "length (x @ r) = length (cu_bytes c) - cu_at c"
    using assms by (metis ahead_def length_drop)
  then have "cu_at c + length x \<le> length (cu_bytes c)"
    using assms by (auto simp: ahead_def)
  moreover have "drop (cu_at c + length x) (cu_bytes c) = r"
    using assms drop_drop [of "length x" "cu_at c" "cu_bytes c"]
    by (simp add: ahead_def add.commute del: drop_drop)
  ultimately show ?thesis
    using assms by (simp add: cursor_take_def ahead_def)
qed

lemma cursor_take_split:
  assumes "ahead c r" "cursor_take n c = Inr (x, c')"
  obtains r' where "r = x @ r'" "length x = n" "ahead c' r'"
proof
  show "r = x @ drop n r"
    using assms by (auto simp: cursor_take_def ahead_def Let_def simp del: drop_drop split: if_splits)
  show "length x = n"
    using assms by (auto simp: cursor_take_def ahead_def Let_def split: if_splits)
  show "ahead c' (drop n r)"
    using assms by (auto simp: cursor_take_def ahead_def Let_def add.commute split: if_splits)
qed

lemma cursor_u32_ahead:
  "ahead c (to_le_bytes w @ r) \<Longrightarrow> \<exists>c'. cursor_u32 c = Inr (w, c') \<and> ahead c' r"
  using cursor_take_ahead [of c "to_le_bytes w" r] by (auto simp: cursor_u32_def)

lemma cursor_u32_split:
  assumes "ahead c r" "cursor_u32 c = Inr (w, c')"
  obtains r' where "r = to_le_bytes w @ r'" "ahead c' r'"
proof -
  obtain b where b: "cursor_take 4 c = Inr (b, c')" "w = from_le_bytes b"
    using assms(2) by (auto simp: cursor_u32_def and_then_eq_Inr)
  from cursor_take_split [OF assms(1) b(1)] obtain r' where "r = b @ r'" "length b = 4" "ahead c' r'" .
  with b(2) show thesis
    using that by (simp add: to_from_le)
qed

lemma cursor_u8_ahead: "ahead c (w # r) \<Longrightarrow> \<exists>c'. cursor_u8 c = Inr (w, c') \<and> ahead c' r"
  using cursor_take_ahead [of c "[w]" r] by (auto simp: cursor_u8_def)

lemma cursor_u8_split:
  assumes "ahead c r" "cursor_u8 c = Inr (w, c')"
  obtains r' where "r = w # r'" "ahead c' r'"
proof -
  obtain b where b: "cursor_take 1 c = Inr (b, c')" "w = hd b"
    using assms(2) by (auto simp: cursor_u8_def and_then_eq_Inr)
  from cursor_take_split [OF assms(1) b(1)] obtain r' where "r = b @ r'" "length b = 1" "ahead c' r'" .
  with b(2) show thesis
    using that by (cases b) auto
qed

lemma cursor_magic_ahead:
  "ahead c (m @ r) \<Longrightarrow> \<exists>c'. cursor_magic m what c = Inr c' \<and> ahead c' r"
  using cursor_take_ahead [of c m r] by (auto simp: cursor_magic_def)

lemma cursor_magic_split:
  assumes "ahead c r" "cursor_magic m what c = Inr c'"
  obtains r' where "r = m @ r'" "ahead c' r'"
proof -
  have "cursor_take (length m) c = Inr (m, c')"
    using assms(2) by (auto simp: cursor_magic_def and_then_eq_Inr split: if_splits)
  from cursor_take_split [OF assms(1) this] that show thesis by blast
qed

lemma cursor_finish_iff: "ahead c r \<Longrightarrow> cursor_finish c = Inr () \<longleftrightarrow> r = []"
  by (auto simp: cursor_finish_def ahead_def Let_def)

subsection \<open>Texts\<close>

definition text_ok :: "string \<Rightarrow> bool" where
  "text_ok t \<longleftrightarrow> length t \<le> unat MAX_TEXT_BYTES \<and> utf8_valid (as_bytes t)"

lemma text_length_word: "n \<le> unat MAX_TEXT_BYTES \<Longrightarrow> unat (of_nat n :: u32) = n"
  by (simp add: MAX_TEXT_BYTES_def unsigned_of_nat take_bit_eq_mod)

lemma read_texts_ahead:
  "list_all text_ok ts \<Longrightarrow> ahead c (concat (map encode_text ts) @ r) \<Longrightarrow>
     \<exists>c'. read_texts (length ts) i c = Inr (ts, c') \<and> ahead c' r"
proof (induction ts arbitrary: i c)
  case (Cons t ts)
  then have t: "text_ok t" "list_all text_ok ts"
    by simp_all
  have "ahead c (to_le_bytes (of_nat (length t)) @ as_bytes t @ concat (map encode_text ts) @ r)"
    using Cons.prems(2) by (simp add: encode_text_def [of t])
  from cursor_u32_ahead [OF this] obtain c1 where c1:
    "cursor_u32 c = Inr (of_nat (length t), c1)" "ahead c1 (as_bytes t @ concat (map encode_text ts) @ r)"
    by auto
  from cursor_take_ahead [OF c1(2)] obtain c2 where c2:
    "cursor_take (length t) c1 = Inr (as_bytes t, c2)" "ahead c2 (concat (map encode_text ts) @ r)"
    by auto
  from Cons.IH [OF t(2) c2(2), of "i + 1"] obtain c3 where c3:
    "read_texts (length ts) (i + 1) c2 = Inr (ts, c3)" "ahead c3 r"
    by auto
  have len: "unat (of_nat (length t) :: u32) = length t"
    using t(1) by (simp add: text_ok_def text_length_word)
  then have "\<not> (of_nat (length t) :: u32) > MAX_TEXT_BYTES"
    using t(1) by (simp add: text_ok_def word_less_nat_alt)
  with t(1) c1(1) c2(1) c3 len show ?case
    by (simp add: text_ok_def)
qed simp

lemma read_texts_split:
  "ahead c r \<Longrightarrow> read_texts n i c = Inr (ts, c') \<Longrightarrow>
     \<exists>r'. r = concat (map encode_text ts) @ r' \<and> ahead c' r' \<and> length ts = n \<and> list_all text_ok ts"
proof (induction n arbitrary: i c r ts)
  case (Suc n)
  obtain len c1 raw c2 us where s:
    "cursor_u32 c = Inr (len, c1)" "\<not> len > MAX_TEXT_BYTES" "cursor_take (unat len) c1 = Inr (raw, c2)"
    "utf8_valid raw" "read_texts n (i + 1) c2 = Inr (us, c')" "ts = of_bytes raw # us"
    using Suc.prems(2) by (auto simp: and_then_eq_Inr split: if_splits)
  from cursor_u32_split [OF Suc.prems(1) s(1)] obtain r1 where
    r1: "r = to_le_bytes len @ r1" "ahead c1 r1" .
  from cursor_take_split [OF r1(2) s(3)] obtain r2 where
    r2: "r1 = raw @ r2" "length raw = unat len" "ahead c2 r2" .
  from Suc.IH [OF r2(3) s(5)] obtain r3 where
    "r2 = concat (map encode_text us) @ r3" "ahead c' r3" "length us = n" "list_all text_ok us"
    by auto
  moreover have "text_ok (of_bytes raw)" "encode_text (of_bytes raw) = to_le_bytes len @ raw"
    using s(2,4) r2(2) by (simp_all add: text_ok_def encode_text_def word_less_nat_alt)
  ultimately show ?case
    using r1 r2 s(6) by auto
qed simp

definition batch_ok :: "lexical_batch \<Rightarrow> bool" where
  "batch_ok b \<longleftrightarrow> 0 < lb_dimensions b \<and> lb_dimensions b \<le> MAX_DIMENSIONS
     \<and> length (lb_texts b) \<le> unat MAX_TEXTS \<and> list_all text_ok (lb_texts b)"

lemma count_word: "n \<le> unat MAX_TEXTS \<Longrightarrow> unat (of_nat n :: u32) = n"
  by (simp add: MAX_TEXTS_def unsigned_of_nat take_bit_eq_mod)

lemma count_ok: "n \<le> unat MAX_TEXTS \<Longrightarrow> \<not> (of_nat n :: u32) > MAX_TEXTS"
  by (simp add: word_less_nat_alt count_word)

lemma dims_ok: "0 < d \<Longrightarrow> d \<le> MAX_DIMENSIONS \<Longrightarrow> \<not> (d = 0 \<or> d > MAX_DIMENSIONS)"
  by auto

lemma batch_decode_encode:
  assumes "batch_ok b"
  shows "batch_decode (batch_encode b) = Inr b"
proof -
  let ?d = "lb_dimensions b" and ?ts = "lb_texts b"
  have n: "length ?ts \<le> unat MAX_TEXTS" and ts: "list_all text_ok ?ts"
    and d: "\<not> (?d = 0 \<or> ?d > MAX_DIMENSIONS)"
    using assms by (auto simp: batch_ok_def)
  have "ahead (cursor_new (batch_encode b)) (BATCH_MAGIC @ to_le_bytes ?d
      @ to_le_bytes (of_nat (length ?ts)) @ concat (map encode_text ?ts) @ [])"
    using ahead_new [of "batch_encode b"] by (simp add: batch_encode_def)
  from cursor_magic_ahead [OF this, of "''lexical batch''"] obtain c0 where
    c0: "cursor_magic BATCH_MAGIC ''lexical batch'' (cursor_new (batch_encode b)) = Inr c0"
    "ahead c0 (to_le_bytes ?d @ to_le_bytes (of_nat (length ?ts)) @ concat (map encode_text ?ts) @ [])"
    by auto
  from cursor_u32_ahead [OF c0(2)] obtain c1 where c1: "cursor_u32 c0 = Inr (?d, c1)"
    "ahead c1 (to_le_bytes (of_nat (length ?ts)) @ concat (map encode_text ?ts) @ [])"
    by auto
  from cursor_u32_ahead [OF c1(2)] obtain c2 where c2: "cursor_u32 c1 = Inr (of_nat (length ?ts), c2)"
    "ahead c2 (concat (map encode_text ?ts) @ [])"
    by auto
  from read_texts_ahead [OF ts c2(2)] obtain c3 where
    c3: "read_texts (length ?ts) 0 c2 = Inr (?ts, c3)" "ahead c3 []"
    by auto
  have "cursor_finish c3 = Inr ()"
    using cursor_finish_iff [OF c3(2)] by simp
  with c0(1) c1(1) c2(1) c3(1) d count_ok [OF n] show ?thesis
    unfolding batch_decode_def by (simp add: count_word [OF n])
qed

lemma batch_encode_decode:
  assumes "batch_decode x = Inr b"
  shows "batch_encode b = x \<and> batch_ok b"
proof -
  obtain c0 d c1 n c2 ts c3 where s:
    "cursor_magic BATCH_MAGIC ''lexical batch'' (cursor_new x) = Inr c0" "cursor_u32 c0 = Inr (d, c1)"
    "\<not> (d = 0 \<or> d > MAX_DIMENSIONS)" "cursor_u32 c1 = Inr (n, c2)" "\<not> n > MAX_TEXTS"
    "read_texts (unat n) 0 c2 = Inr (ts, c3)" "cursor_finish c3 = Inr ()"
    "b = \<lparr>lb_dimensions = d, lb_texts = ts\<rparr>"
    using assms unfolding batch_decode_def by (auto simp: and_then_eq_Inr split: if_splits)
  from cursor_magic_split [OF ahead_new s(1)] obtain r0 where r0: "x = BATCH_MAGIC @ r0" "ahead c0 r0" .
  from cursor_u32_split [OF r0(2) s(2)] obtain r1 where r1: "r0 = to_le_bytes d @ r1" "ahead c1 r1" .
  from cursor_u32_split [OF r1(2) s(4)] obtain r2 where r2: "r1 = to_le_bytes n @ r2" "ahead c2 r2" .
  from read_texts_split [OF r2(2) s(6)] obtain r3 where
    r3: "r2 = concat (map encode_text ts) @ r3" "ahead c3 r3" "length ts = unat n" "list_all text_ok ts"
    by auto
  have "r3 = []"
    using cursor_finish_iff [OF r3(2)] s(7) by simp
  with s(3,5,8) r0(1) r1(1) r2(1) r3(1,3,4) show ?thesis
    by (auto simp: batch_encode_def batch_ok_def word_less_nat_alt word_le_nat_alt unat_gt_0)
qed

text \<open>
  C32. The canonical batch form is a bijection: a batch within the bounds, with texts that are
  UTF-8, is decoded from its encoding; and whatever decodes is within the bounds and is byte
  for byte the encoding of the batch it decodes to, so that a batch has exactly one content
  address.
\<close>

theorem batch_codec_bijective:
  "(batch_ok b \<longrightarrow> batch_decode (batch_encode b) = Inr b)
   \<and> (batch_decode x = Inr b \<longrightarrow> batch_encode b = x \<and> batch_ok b)"
  using batch_decode_encode batch_encode_decode by blast

definition demo_batch :: lexical_batch where
  "demo_batch = \<lparr>lb_dimensions = 64, lb_texts = [''ab'', [], ''c'']\<rparr>"

theorem batch_codec_bijective_witness:
  "batch_ok demo_batch \<and> batch_decode (batch_encode demo_batch) = Inr demo_batch"
proof -
  have "batch_ok demo_batch"
    by (simp add: batch_ok_def demo_batch_def MAX_DIMENSIONS_def MAX_TEXTS_def text_ok_def
        MAX_TEXT_BYTES_def as_bytes_def)
  with batch_codec_bijective [of demo_batch "[]"] show ?thesis by simp
qed

subsection \<open>Vectors\<close>

lemma read_values_ahead:
  "ahead c (concat (map to_le_bytes vs) @ r) \<Longrightarrow>
     \<exists>c'. read_values (length vs) c = Inr (vs, c') \<and> ahead c' r"
proof (induction vs arbitrary: c)
  case (Cons v vs)
  then have "ahead c (to_le_bytes v @ concat (map to_le_bytes vs) @ r)"
    by simp
  from cursor_take_ahead [OF this] obtain c1 where
    c1: "cursor_take 4 c = Inr (to_le_bytes v, c1)" "ahead c1 (concat (map to_le_bytes vs) @ r)"
    by auto
  from Cons.IH [OF c1(2)] c1(1) show ?case by auto
qed simp

lemma read_values_split:
  "ahead c r \<Longrightarrow> read_values n c = Inr (vs, c') \<Longrightarrow>
     \<exists>r'. r = concat (map to_le_bytes vs) @ r' \<and> ahead c' r' \<and> length vs = n"
proof (induction n arbitrary: c r vs)
  case (Suc n)
  obtain raw c1 us where s: "cursor_take 4 c = Inr (raw, c1)" "read_values n c1 = Inr (us, c')"
    "vs = from_le_bytes raw # us"
    using Suc.prems(2) by (auto simp: and_then_eq_Inr)
  from cursor_take_split [OF Suc.prems(1) s(1)] obtain r1 where
    r1: "r = raw @ r1" "length raw = 4" "ahead c1 r1" .
  from Suc.IH [OF r1(3) s(2)] r1 s(3) show ?case
    by (auto simp: to_from_le)
qed simp

definition vectors_bytes :: "u32 list list \<Rightarrow> bytes" where
  "vectors_bytes vs = concat (map (\<lambda>x. concat (map to_le_bytes x)) vs)"

lemma read_vectors_ahead:
  "list_all (\<lambda>v. length v = d) vs \<Longrightarrow> ahead c (vectors_bytes vs @ r) \<Longrightarrow>
     \<exists>c'. read_vectors d (length vs) c = Inr (vs, c') \<and> ahead c' r"
proof (induction vs arbitrary: c)
  case (Cons v vs)
  then have "ahead c (concat (map to_le_bytes v) @ vectors_bytes vs @ r)"
    by (simp add: vectors_bytes_def)
  from read_values_ahead [OF this] obtain c1 where
    c1: "read_values (length v) c = Inr (v, c1)" "ahead c1 (vectors_bytes vs @ r)"
    by auto
  from Cons.IH [OF _ c1(2)] Cons.prems(1) c1(1) show ?case by auto
qed (simp add: vectors_bytes_def)

lemma read_vectors_split:
  "ahead c r \<Longrightarrow> read_vectors d n c = Inr (vs, c') \<Longrightarrow>
     \<exists>r'. r = vectors_bytes vs @ r' \<and> ahead c' r' \<and> length vs = n \<and> list_all (\<lambda>v. length v = d) vs"
proof (induction n arbitrary: c r vs)
  case (Suc n)
  obtain v c1 us where s: "read_values d c = Inr (v, c1)" "read_vectors d n c1 = Inr (us, c')"
    "vs = v # us"
    using Suc.prems(2) by (auto simp: and_then_eq_Inr)
  from read_values_split [OF Suc.prems(1) s(1)] obtain r1 where
    r1: "r = concat (map to_le_bytes v) @ r1" "ahead c1 r1" "length v = d"
    by auto
  from Suc.IH [OF r1(2) s(2)] r1 s(3) show ?case
    by (auto simp: vectors_bytes_def)
qed (simp add: vectors_bytes_def)

lemma metric_round_trip: "metric_from_code (metric_code m) = Inr m"
  by (cases m) (simp_all add: metric_from_code_def)

lemma metric_from_codeD: "metric_from_code w = Inr m \<Longrightarrow> metric_code m = w"
  by (auto simp: metric_from_code_def split: if_splits)

definition vectors_ok :: "lexical_vectors \<Rightarrow> bool" where
  "vectors_ok v \<longleftrightarrow> 0 < lv_dimensions v \<and> lv_dimensions v \<le> MAX_DIMENSIONS
     \<and> length (lv_vectors v) \<le> unat MAX_TEXTS
     \<and> list_all (\<lambda>x. length x = unat (lv_dimensions v)) (lv_vectors v)"

lemma vectors_decode_encode:
  assumes "vectors_ok v"
  shows "vectors_decode (vectors_encode v) = Inr v"
proof -
  let ?d = "lv_dimensions v" and ?vs = "lv_vectors v" and ?m = "lv_metric v"
  have n: "length ?vs \<le> unat MAX_TEXTS" and vs: "list_all (\<lambda>x. length x = unat ?d) ?vs"
    and d: "\<not> (?d = 0 \<or> ?d > MAX_DIMENSIONS)"
    using assms by (auto simp: vectors_ok_def)
  have "ahead (cursor_new (vectors_encode v)) (VECTORS_MAGIC @ to_le_bytes ?d
      @ to_le_bytes (of_nat (length ?vs)) @ metric_code ?m # vectors_bytes ?vs @ [])"
    using ahead_new [of "vectors_encode v"] by (simp add: vectors_encode_def vectors_bytes_def)
  from cursor_magic_ahead [OF this, of "''lexical vectors''"] obtain c0 where
    c0: "cursor_magic VECTORS_MAGIC ''lexical vectors'' (cursor_new (vectors_encode v)) = Inr c0"
    "ahead c0 (to_le_bytes ?d @ to_le_bytes (of_nat (length ?vs)) @ metric_code ?m # vectors_bytes ?vs @ [])"
    by auto
  from cursor_u32_ahead [OF c0(2)] obtain c1 where c1: "cursor_u32 c0 = Inr (?d, c1)"
    "ahead c1 (to_le_bytes (of_nat (length ?vs)) @ metric_code ?m # vectors_bytes ?vs @ [])"
    by auto
  from cursor_u32_ahead [OF c1(2)] obtain c2 where c2: "cursor_u32 c1 = Inr (of_nat (length ?vs), c2)"
    "ahead c2 (metric_code ?m # vectors_bytes ?vs @ [])"
    by auto
  from cursor_u8_ahead [OF c2(2)] obtain c3 where c3: "cursor_u8 c2 = Inr (metric_code ?m, c3)"
    "ahead c3 (vectors_bytes ?vs @ [])"
    by auto
  from read_vectors_ahead [OF vs c3(2)] obtain c4 where
    c4: "read_vectors (unat ?d) (length ?vs) c3 = Inr (?vs, c4)" "ahead c4 []"
    by auto
  have "cursor_finish c4 = Inr ()"
    using cursor_finish_iff [OF c4(2)] by simp
  with c0(1) c1(1) c2(1) c3(1) c4(1) d count_ok [OF n] show ?thesis
    unfolding vectors_decode_def by (simp add: count_word [OF n] metric_round_trip)
qed

lemma vectors_encode_decode:
  assumes "vectors_decode x = Inr v"
  shows "vectors_encode v = x \<and> vectors_ok v"
proof -
  obtain c0 d c1 n c2 w c3 m vs c4 where s:
    "cursor_magic VECTORS_MAGIC ''lexical vectors'' (cursor_new x) = Inr c0" "cursor_u32 c0 = Inr (d, c1)"
    "\<not> (d = 0 \<or> d > MAX_DIMENSIONS)" "cursor_u32 c1 = Inr (n, c2)" "\<not> n > MAX_TEXTS"
    "cursor_u8 c2 = Inr (w, c3)" "metric_from_code w = Inr m"
    "read_vectors (unat d) (unat n) c3 = Inr (vs, c4)" "cursor_finish c4 = Inr ()"
    "v = \<lparr>lv_dimensions = d, lv_metric = m, lv_vectors = vs\<rparr>"
    using assms unfolding vectors_decode_def by (auto simp: and_then_eq_Inr split: if_splits)
  from cursor_magic_split [OF ahead_new s(1)] obtain r0 where r0: "x = VECTORS_MAGIC @ r0" "ahead c0 r0" .
  from cursor_u32_split [OF r0(2) s(2)] obtain r1 where r1: "r0 = to_le_bytes d @ r1" "ahead c1 r1" .
  from cursor_u32_split [OF r1(2) s(4)] obtain r2 where r2: "r1 = to_le_bytes n @ r2" "ahead c2 r2" .
  from cursor_u8_split [OF r2(2) s(6)] obtain r3 where r3: "r2 = w # r3" "ahead c3 r3" .
  from read_vectors_split [OF r3(2) s(8)] obtain r4 where
    r4: "r3 = vectors_bytes vs @ r4" "ahead c4 r4" "length vs = unat n"
    "list_all (\<lambda>x. length x = unat d) vs"
    by auto
  have "r4 = []"
    using cursor_finish_iff [OF r4(2)] s(9) by simp
  with s(3,5,10) metric_from_codeD [OF s(7)] r0(1) r1(1) r2(1) r3(1) r4(1,3,4) show ?thesis
    by (auto simp: vectors_encode_def vectors_bytes_def vectors_ok_def word_less_nat_alt
        word_le_nat_alt unat_gt_0)
qed

text \<open>
  The canonical vector block is a bijection too: a block of at most 1024 vectors of the
  declared dimension is decoded from its encoding, bit patterns and metric included, and only
  encodings of such blocks decode; a truncated block, one with trailing bytes or one with an
  unknown metric is refused.
\<close>

theorem vectors_codec_bijective:
  "(vectors_ok v \<longrightarrow> vectors_decode (vectors_encode v) = Inr v)
   \<and> (vectors_decode x = Inr v \<longrightarrow> vectors_encode v = x \<and> vectors_ok v)"
  using vectors_decode_encode vectors_encode_decode by blast

definition demo_vectors :: lexical_vectors where
  "demo_vectors = \<lparr>lv_dimensions = 2, lv_metric = Cosine, lv_vectors = [[1, 0x7FC00000], [3, 4]]\<rparr>"

theorem vectors_codec_bijective_witness:
  "vectors_ok demo_vectors \<and> vectors_decode (vectors_encode demo_vectors) = Inr demo_vectors"
proof -
  have "vectors_ok demo_vectors"
    by (simp add: vectors_ok_def demo_vectors_def MAX_DIMENSIONS_def MAX_TEXTS_def)
  with vectors_codec_bijective [of demo_vectors "[]"] show ?thesis by simp
qed

end
