(* ===== verification/Mesh_Registry.thy ===== *)
theory Mesh_Registry
  imports Mesh_Board Mesh_Resource Mesh_Codec
begin

text \<open>
  The resource registry and the one execution route of
  \<^verbatim>\<open>crates/mesh/mesh/src/registry.rs\<close>, with the adapters the crate ships
  (\<^verbatim>\<open>resources/\<close>). An adapter is a record of the trait's methods. What an adapter
  may consult besides its arguments (a clock, a random source, a remote session) is the
  \<open>world\<close>, a stream of answers that each run is given anew and that no two runs need
  share; its preparation is a program over the calls of the namespace view. A run is
  concurrent with its host: \<open>host n\<close> is the level the host has escalated the control
  word to by the run's cooperative point number \<open>n\<close>, where point \<open>0\<close> is the check
  of the runner and the adapter's own points follow. BLAKE3, the embedding provider and the
  rendering of codec errors are parameters.
\<close>

section \<open>Identifiers in order\<close>

instantiation resource_id :: linorder
begin

definition less_eq_resource_id :: "resource_id \<Rightarrow> resource_id \<Rightarrow> bool" where
  "less_eq_resource_id a b \<longleftrightarrow> as_str a \<le> as_str b"

definition less_resource_id :: "resource_id \<Rightarrow> resource_id \<Rightarrow> bool" where
  "less_resource_id a b \<longleftrightarrow> as_str a < as_str b"

instance
proof
  fix a b :: resource_id
  assume "a \<le> b" "b \<le> a"
  then show "a = b"
    by (cases a; cases b) (simp add: less_eq_resource_id_def)
qed (auto simp: less_eq_resource_id_def less_resource_id_def)

end

section \<open>Adapters\<close>

record chain =
  ch_seed :: bytes
  ch_units :: u64
  ch_unit_delay_ms :: u64

text \<open>What an adapter carried from preparation into execution.\<close>

datatype prepared =
    PreparedBytes bytes
  | PreparedChain chain
  | PreparedBatch lexical_batch

fun take_bytes :: "prepared \<Rightarrow> resource_error + bytes" where
  "take_bytes (PreparedBytes b) = Inr b"
| "take_bytes _ = Inl PreparedTypeMismatch"

fun take_chain :: "prepared \<Rightarrow> resource_error + chain" where
  "take_chain (PreparedChain c) = Inr c"
| "take_chain _ = Inl PreparedTypeMismatch"

fun take_batch :: "prepared \<Rightarrow> resource_error + lexical_batch" where
  "take_batch (PreparedBatch b) = Inr b"
| "take_batch _ = Inl PreparedTypeMismatch"

type_synonym host_level = "nat \<Rightarrow> u8"

definition poll :: "host_level \<Rightarrow> nat \<Rightarrow> control_state \<Rightarrow> control_state" where
  "poll host n st = escalate (host n) st"

type_synonym world = "nat \<Rightarrow> bytes"

type_synonym executing = "host_level \<Rightarrow> control_state \<Rightarrow> (resource_error + bytes) \<times> control_state"

record adapter =
  ra_descriptor :: resource_descriptor
  ra_prepare :: "world \<Rightarrow> (resource_error + prepared) view_prog"
  ra_execute :: "world \<Rightarrow> prepared \<Rightarrow> executing"
  ra_execute_for :: "world \<Rightarrow> prepared \<Rightarrow> run_context \<Rightarrow> executing"

definition PAYLOAD :: string where
  "PAYLOAD = ''payload''"

definition builtin_descriptor :: "string \<Rightarrow> string \<Rightarrow> resource_descriptor" where
  "builtin_descriptor resource implementation =
     \<lparr>rd_resource = ResourceId resource, rd_implementation = ImplementationId implementation,
      rd_requires = requirements_cpu, rd_verification = ExactBytes\<rparr>"

definition read_payload :: "(resource_error + prepared) view_prog" where
  "read_payload =
     CallRead PAYLOAD (\<lambda>r. Finish
       (case r of
          Inl e \<Rightarrow> Inl (ResourceNamespace e)
        | Inr b \<Rightarrow> Inr (PreparedBytes b)))"

definition echo_execute :: "prepared \<Rightarrow> executing" where
  "echo_execute p host st =
     (let st = poll host 1 st
      in (and_then (control_check st) (\<lambda>_. take_bytes p), st))"

definition echo_resource :: adapter where
  "echo_resource =
     \<lparr>ra_descriptor = builtin_descriptor ''mesh.echo/v1'' ''mesh.echo.identity/v1'',
      ra_prepare = (\<lambda>_. read_payload), ra_execute = (\<lambda>_. echo_execute),
      ra_execute_for = (\<lambda>_ p _. echo_execute p)\<rparr>"

definition blake3_execute :: "(bytes \<Rightarrow> bytes) \<Rightarrow> prepared \<Rightarrow> executing" where
  "blake3_execute h p host st =
     (let st = poll host 1 st
      in (and_then (control_check st) (\<lambda>_. and_then (take_bytes p) (\<lambda>b. Inr (h b))), st))"

definition blake3_resource :: "(bytes \<Rightarrow> bytes) \<Rightarrow> adapter" where
  "blake3_resource h =
     \<lparr>ra_descriptor = builtin_descriptor ''mesh.blake3/v1'' ''mesh.blake3.blake3-1/v1'',
      ra_prepare = (\<lambda>_. read_payload), ra_execute = (\<lambda>_. blake3_execute h),
      ra_execute_for = (\<lambda>_ p _. blake3_execute h p)\<rparr>"

subsection \<open>The delayed chain\<close>

definition delayed_expected :: "(bytes \<Rightarrow> bytes) \<Rightarrow> bytes \<Rightarrow> u64 \<Rightarrow> bytes" where
  "delayed_expected h seed units = (h ^^ unat units) seed"

text \<open>The links from number \<open>unit\<close> on, with the number still to do.\<close>

fun chain_links ::
  "(bytes \<Rightarrow> bytes) \<Rightarrow> host_level \<Rightarrow> u64 \<Rightarrow> nat \<Rightarrow> nat \<Rightarrow> bytes \<Rightarrow> control_state
   \<Rightarrow> (resource_error + bytes) \<times> control_state" where
  "chain_links h host units unit 0 state st = (Inr state, st)"
| "chain_links h host units unit (Suc n) state st =
     (let st = poll host (unit + 1) st
      in (case read_signal st of
            Continue \<Rightarrow>
              chain_links h host units (unit + 1) n (h state)
                (control_report (of_nat unit + 1) units st)
          | Checkpoint \<Rightarrow> (Inl (Checkpointed (of_nat unit) units), hold_checkpoint True st)
          | Cancel \<Rightarrow> (Inl ResourceCancelled, st)))"

definition delayed_prepare :: "u64 \<Rightarrow> u64 \<Rightarrow> (resource_error + prepared) view_prog" where
  "delayed_prepare units delay =
     CallRead PAYLOAD (\<lambda>r. Finish
       (case r of
          Inl e \<Rightarrow> Inl (ResourceNamespace e)
        | Inr b \<Rightarrow> Inr (PreparedChain \<lparr>ch_seed = b, ch_units = units, ch_unit_delay_ms = delay\<rparr>)))"

definition delayed_execute :: "(bytes \<Rightarrow> bytes) \<Rightarrow> prepared \<Rightarrow> executing" where
  "delayed_execute h p host st =
     (case take_chain p of
        Inl e \<Rightarrow> (Inl e, st)
      | Inr c \<Rightarrow>
          chain_links h host (ch_units c) 0 (unat (ch_units c)) (ch_seed c)
            (control_report 0 (ch_units c) st))"

definition delayed_resource :: "(bytes \<Rightarrow> bytes) \<Rightarrow> u64 \<Rightarrow> u64 \<Rightarrow> adapter" where
  "delayed_resource h units delay =
     \<lparr>ra_descriptor = builtin_descriptor ''mesh.delayed/v1'' ''mesh.delayed.blake3-chain/v1'',
      ra_prepare = (\<lambda>_. delayed_prepare units delay), ra_execute = (\<lambda>_. delayed_execute h),
      ra_execute_for = (\<lambda>_ p _. delayed_execute h p)\<rparr>"

subsection \<open>The lexical embedding\<close>

definition MEMORY_FLOOR_MIB :: u32 where
  "MEMORY_FLOOR_MIB = 128"

definition TEXTS :: string where
  "TEXTS = ''texts''"

record lexical_lib =
  ll_embed :: "u32 \<Rightarrow> string list \<Rightarrow> string + u32 list list"
  ll_show :: "codec_error \<Rightarrow> string"

definition lexical_prepare :: "lexical_lib \<Rightarrow> (resource_error + prepared) view_prog" where
  "lexical_prepare lib =
     CallRead TEXTS (\<lambda>r. Finish
       (case r of
          Inl e \<Rightarrow> Inl (ResourceNamespace e)
        | Inr b \<Rightarrow>
            (case batch_decode b of
               Inl e \<Rightarrow> Inl (ResourceInput TEXTS (ll_show lib e))
             | Inr batch \<Rightarrow> Inr (PreparedBatch batch))))"

definition lexical_execute :: "lexical_lib \<Rightarrow> prepared \<Rightarrow> executing" where
  "lexical_execute lib p host st =
     (let st = poll host 1 st
      in (case and_then (control_check st) (\<lambda>_. take_batch p) of
            Inl e \<Rightarrow> (Inl e, st)
          | Inr batch \<Rightarrow>
              (case embed_batch (ll_embed lib) batch of
                 Inl e \<Rightarrow> (Inl (ResourceBackend (ll_show lib e)), st)
               | Inr vectors \<Rightarrow>
                   (let st = poll host 2 st
                    in (and_then (control_check st) (\<lambda>_. Inr (vectors_encode vectors)), st)))))"

definition lexical_resource :: "lexical_lib \<Rightarrow> adapter" where
  "lexical_resource lib =
     \<lparr>ra_descriptor =
        \<lparr>rd_resource = ResourceId ''esp.embed.lexical/v1'',
         rd_implementation = ImplementationId ''mesh.lexical.fnv1a/v1'',
         rd_requires = \<lparr>rq_memory_mib = MEMORY_FLOOR_MIB, rq_compute = Cpu\<rparr>,
         rd_verification = ExactBytes\<rparr>,
      ra_prepare = (\<lambda>_. lexical_prepare lib), ra_execute = (\<lambda>_. lexical_execute lib),
      ra_execute_for = (\<lambda>_ p _. lexical_execute lib p)\<rparr>"

section \<open>The registry\<close>

type_synonym resource_registry = "(resource_id, adapter) btmap"

datatype registry_error = RegistryIdent ident_error | RegistryDuplicate resource_id

definition register :: "adapter \<Rightarrow> resource_registry \<Rightarrow> registry_error + resource_registry" where
  "register a reg =
     (let d = ra_descriptor a
      in (case resource_validate (rd_resource d) of
            Inl e \<Rightarrow> Inl (RegistryIdent e)
          | Inr _ \<Rightarrow>
              (case implementation_validate (rd_implementation d) of
                 Inl e \<Rightarrow> Inl (RegistryIdent e)
               | Inr _ \<Rightarrow>
                   if bt_get reg (rd_resource d) \<noteq> None then Inl (RegistryDuplicate (rd_resource d))
                   else Inr (bt_insert (rd_resource d) a reg))))"

definition registry_get :: "resource_registry \<Rightarrow> resource_id \<Rightarrow> adapter option" where
  "registry_get reg i = bt_get reg i"

definition offers :: "resource_registry \<Rightarrow> job_spec \<Rightarrow> host_facts \<Rightarrow> bool" where
  "offers reg sp facts =
     (case registry_get reg (js_resource sp) of
        None \<Rightarrow> False
      | Some a \<Rightarrow>
          satisfied_by (js_requirements sp) facts
          \<and> satisfied_by (rd_requires (ra_descriptor a)) facts
          \<and> satisfies (rd_verification (ra_descriptor a)) (js_determinism sp))"

fun legacy_resource_id :: "job_kind \<Rightarrow> resource_id" where
  "legacy_resource_id Echo = ResourceId ''mesh.echo/v1''"
| "legacy_resource_id Blake3 = ResourceId ''mesh.blake3/v1''"

definition register_builtin ::
  "(bytes \<Rightarrow> bytes) \<Rightarrow> lexical_lib \<Rightarrow> resource_registry \<Rightarrow> registry_error + resource_registry" where
  "register_builtin h lib reg =
     and_then (register echo_resource reg) (\<lambda>r.
     and_then (register (blake3_resource h) r) (\<lambda>r.
     and_then (register (lexical_resource lib) r) (register (delayed_resource h 16 0))))"

section \<open>Running a job\<close>

datatype run_error =
    RunSpec spec_error
  | UnknownResource resource_id
  | VerificationTooWeak determinism_class determinism_class
  | RunResource resource_error
  | RunNamespace namespace_error
  | RunOutput output_error

definition run_job_inner ::
  "(bytes \<Rightarrow> bytes) \<Rightarrow> resource_registry \<Rightarrow> job_spec \<Rightarrow> ('s \<Rightarrow> blob_source) \<Rightarrow> 's blob_sink \<Rightarrow> world
   \<Rightarrow> host_level \<Rightarrow> run_context option \<Rightarrow> control_state \<Rightarrow> 's
   \<Rightarrow> (run_error + job_output) \<times> control_state \<times> 's" where
  "run_job_inner h reg sp source sink world host context st s =
     (case spec_validate sp of
        Inl e \<Rightarrow> (Inl (RunSpec e), st, s)
      | Inr _ \<Rightarrow>
     (case registry_get reg (js_resource sp) of
        None \<Rightarrow> (Inl (UnknownResource (js_resource sp)), st, s)
      | Some a \<Rightarrow>
     (let d = ra_descriptor a
      in if \<not> satisfies (rd_verification d) (js_determinism sp)
         then (Inl (VerificationTooWeak (verification_determinism (rd_verification d)) (js_determinism sp)), st, s)
         else
     (let v = view_grant sp source sink
      in (case run_view h v (ra_prepare a world) s of
            (Inl e, s) \<Rightarrow> (Inl (RunResource e), st, s)
          | (Inr p, s) \<Rightarrow>
     (let st = poll host 0 st
      in (case control_check st of
            Inl e \<Rightarrow> (Inl (RunResource e), st, s)
          | Inr _ \<Rightarrow>
     (case (case context of
              Some ctx \<Rightarrow> ra_execute_for a world p ctx host st
            | None \<Rightarrow> ra_execute a world p host st) of
        (Inl e, st) \<Rightarrow> (Inl (RunResource e), st, s)
      | (Inr b, st) \<Rightarrow>
     (case view_commit v (og_name (js_output sp)) b s of
        (Inl e, s) \<Rightarrow> (Inl (RunNamespace e), st, s)
      | (Inr c, s) \<Rightarrow>
     (let out =
            \<lparr>jo_name = oc_name c, jo_blob = oc_blob c, jo_resource = rd_resource d,
             jo_implementation = rd_implementation d, jo_verification = rd_verification d\<rparr>
      in (case output_validate_against out sp of
            Inl e \<Rightarrow> (Inl (RunOutput e), st, s)
          | Inr _ \<Rightarrow> (Inr out, st, s))))))))))))"

definition run_job ::
  "(bytes \<Rightarrow> bytes) \<Rightarrow> resource_registry \<Rightarrow> job_spec \<Rightarrow> ('s \<Rightarrow> blob_source) \<Rightarrow> 's blob_sink \<Rightarrow> world
   \<Rightarrow> host_level \<Rightarrow> control_state \<Rightarrow> 's \<Rightarrow> (run_error + job_output) \<times> control_state \<times> 's" where
  "run_job h reg sp source sink world host st s = run_job_inner h reg sp source sink world host None st s"

definition run_job_for ::
  "(bytes \<Rightarrow> bytes) \<Rightarrow> resource_registry \<Rightarrow> run_context \<Rightarrow> job_spec \<Rightarrow> ('s \<Rightarrow> blob_source) \<Rightarrow> 's blob_sink
   \<Rightarrow> world \<Rightarrow> host_level \<Rightarrow> control_state \<Rightarrow> 's \<Rightarrow> (run_error + job_output) \<times> control_state \<times> 's" where
  "run_job_for h reg context sp source sink world host st s =
     run_job_inner h reg sp source sink world host (Some context) st s"

datatype verdict =
    Reproduced implementation_id
  | Diverged blob_ref implementation_id
  | NotCheckable determinism_class
  | Unavailable resource_id

definition verify_output ::
  "(bytes \<Rightarrow> bytes) \<Rightarrow> resource_registry \<Rightarrow> job_spec \<Rightarrow> job_output \<Rightarrow> ('s \<Rightarrow> blob_source) \<Rightarrow> 's blob_sink
   \<Rightarrow> world \<Rightarrow> host_level \<Rightarrow> control_state \<Rightarrow> 's \<Rightarrow> (run_error + verdict) \<times> control_state \<times> 's" where
  "verify_output h reg sp out source sink world host st s =
     (case output_validate_against out sp of
        Inl e \<Rightarrow> (Inl (RunOutput e), st, s)
      | Inr _ \<Rightarrow>
     (case registry_get reg (js_resource sp) of
        None \<Rightarrow> (Inr (Unavailable (js_resource sp)), st, s)
      | Some a \<Rightarrow>
     (let by' = rd_implementation (ra_descriptor a)
      in if jo_verification out \<noteq> ExactBytes
         then (Inr (NotCheckable (verification_determinism (jo_verification out))), st, s)
         else
     (case run_job h reg sp source sink world host st s of
        (Inl e, st, s) \<Rightarrow> (Inl e, st, s)
      | (Inr rerun, st, s) \<Rightarrow>
          (Inr (if jo_blob rerun = jo_blob out then Reproduced by'
                else Diverged (jo_blob rerun) by'), st, s)))))"

text \<open>The scratch space of a legacy run is an in-memory muniment store.\<close>

definition run_legacy ::
  "(bytes \<Rightarrow> bytes) \<Rightarrow> (bytes \<Rightarrow> string) \<Rightarrow> (store_error \<Rightarrow> string) \<Rightarrow> resource_registry \<Rightarrow> job_kind
   \<Rightarrow> bytes \<Rightarrow> world \<Rightarrow> host_level \<Rightarrow> control_state \<Rightarrow> (run_error + bytes) \<times> control_state" where
  "run_legacy h hex str_of reg kind payload world host st =
     (case space_put h hex str_of memory_backend payload [] of
        (Inl e, m) \<Rightarrow> (Inl (RunNamespace e), st)
      | (Inr blob, m) \<Rightarrow>
          (let sp = spec_simple (legacy_resource_id kind) ''payload'' blob ''result'' MAX_OUTPUT_BYTES Exact
           in (case run_job h reg sp (space_get hex str_of memory_backend)
                      (space_put h hex str_of memory_backend) world host st m of
                 (Inl e, st, m) \<Rightarrow> (Inl e, st)
               | (Inr out, st, m) \<Rightarrow>
                   (case space_get hex str_of memory_backend m (jo_blob out) of
                      Inl e \<Rightarrow> (Inl (RunNamespace e), st)
                    | Inr None \<Rightarrow> (Inl (RunNamespace (MissingBlob ''result'')), st)
                    | Inr (Some b) \<Rightarrow> (Inr b, st)))))"

section \<open>What a run can do\<close>

definition run_execute ::
  "adapter \<Rightarrow> world \<Rightarrow> prepared \<Rightarrow> run_context option \<Rightarrow> executing" where
  "run_execute a world p context =
     (case context of Some ctx \<Rightarrow> ra_execute_for a world p ctx | None \<Rightarrow> ra_execute a world p)"

definition run_output_of :: "adapter \<Rightarrow> output_commit \<Rightarrow> job_output" where
  "run_output_of a c =
     \<lparr>jo_name = oc_name c, jo_blob = oc_blob c, jo_resource = rd_resource (ra_descriptor a),
      jo_implementation = rd_implementation (ra_descriptor a),
      jo_verification = rd_verification (ra_descriptor a)\<rparr>"

text \<open>A run that succeeds went through every stage.\<close>

lemma run_job_inner_Inr:
  "run_job_inner h reg sp source sink world host context st s = (Inr out, st', s') \<longleftrightarrow>
     (\<exists>a p s1 b c. spec_validate sp = Inr () \<and> registry_get reg (js_resource sp) = Some a
       \<and> satisfies (rd_verification (ra_descriptor a)) (js_determinism sp)
       \<and> run_view h (view_grant sp source sink) (ra_prepare a world) s = (Inr p, s1)
       \<and> control_check (poll host 0 st) = Inr ()
       \<and> run_execute a world p context host (poll host 0 st) = (Inr b, st')
       \<and> view_commit (view_grant sp source sink) (og_name (js_output sp)) b s1 = (Inr c, s')
       \<and> out = run_output_of a c \<and> output_validate_against out sp = Inr ())"
  unfolding run_job_inner_def run_execute_def run_output_of_def Let_def
  by (auto split: sum.splits option.splits prod.splits if_splits)

text \<open>The space after a run: what preparation left of it, and at most one more commit.\<close>

lemma run_job_inner_space:
  "run_job_inner h reg sp source sink world host context st s = (r, st', s') \<Longrightarrow>
     s' = s \<or> (\<exists>a. registry_get reg (js_resource sp) = Some a
       \<and> (let v = view_grant sp source sink; s1 = snd (run_view h v (ra_prepare a world) s)
          in s' = s1 \<or> (\<exists>name b. s' = snd (view_commit v name b s1))))"
  unfolding run_job_inner_def Let_def
  by (auto split: sum.splits option.splits prod.splits if_splits) (metis snd_conv)+

lemma run_job_inner_written:
  assumes "run_job_inner h reg sp source sink world host context st s = (r, st', s')"
  shows "\<exists>ws. s' = written sink ws s \<and> (\<forall>b \<in> set ws. of_nat (length b) \<le> og_max_bytes (js_output sp))
    \<and> ((\<forall>a. registry_get reg (js_resource sp) = Some a \<longrightarrow> never_commits (ra_prepare a world)) \<longrightarrow> length ws \<le> 1)"
proof -
  let ?v = "view_grant sp source sink"
  have none: ?thesis if "s' = s"
    using that by (intro exI [of _ "[]"]) simp
  consider "s' = s" | a where "registry_get reg (js_resource sp) = Some a"
      "s' = snd (run_view h ?v (ra_prepare a world) s)
       \<or> (\<exists>name b. s' = snd (view_commit ?v name b (snd (run_view h ?v (ra_prepare a world) s))))"
    using run_job_inner_space [OF assms] by (auto simp: Let_def)
  then show ?thesis
  proof cases
    case (2 a)
    let ?s1 = "snd (run_view h ?v (ra_prepare a world) s)"
    obtain bs where bs: "?s1 = written sink bs s" "\<forall>b \<in> set bs. of_nat (length b) \<le> og_max_bytes (js_output sp)"
      using run_view_written [of h ?v "ra_prepare a world" s] by auto
    obtain cs where cs: "s' = written sink cs ?s1" "length cs \<le> 1"
      "\<forall>b \<in> set cs. of_nat (length b) \<le> og_max_bytes (js_output sp)"
      using 2(2) view_commit_written [of ?v] by (metis list.size(3) view_grant_simps(2,4) written_simps(1)
          empty_iff list.set(1) zero_le_one)
    show ?thesis
    proof (cases "never_commits (ra_prepare a world)")
      case True
      then have "?s1 = s" by (rule never_commits_state)
      with cs show ?thesis by (intro exI [of _ cs]) simp
    next
      case False
      with bs cs 2(1) show ?thesis by (intro exI [of _ "bs @ cs"]) auto
    qed
  qed (rule none)
qed

lemma run_job_inner_same:
  assumes "\<And>i s. i \<in> set (js_inputs sp) \<Longrightarrow> same_answer h (in_blob i) (source s (in_blob i)) (source' s (in_blob i))"
  shows "run_job_inner h reg sp source' sink world host context st s
    = run_job_inner h reg sp source sink world host context st s"
proof -
  have prepares: "run_view h (view_grant sp source' sink) prog s = run_view h (view_grant sp source sink) prog s"
    for prog :: "(resource_error + prepared) view_prog"
    by (rule run_view_same) (rule assms)
  have commits: "view_commit (view_grant sp source' sink) = view_commit (view_grant sp source sink)"
    by (intro ext) (simp add: view_commit_def Let_def)
  show ?thesis
    unfolding run_job_inner_def Let_def prepares commits by (rule refl)
qed

text \<open>
  C30. A run stays inside its grant, whatever adapter is registered. It learns nothing of the
  host's blob space but verified bytes of granted inputs: against any other space that answers
  for the granted inputs in the same way, up to bytes that fail verification, the run takes the
  same course with the same outcome. Whatever it writes is a sequence of commits, each no longer
  than the signed grant, and a single one at most unless the adapter commits by itself while it
  prepares. A run that succeeds was not cancelled before it started and yields an output that
  honours the manifest and carries the resource, build and claim of the registered adapter.
\<close>

theorem run_is_confined:
  assumes "run_job_inner h reg sp source sink world host context st s = (r, st', s')"
  shows "(\<forall>source'. (\<forall>i \<in> set (js_inputs sp). \<forall>s. same_answer h (in_blob i) (source s (in_blob i)) (source' s (in_blob i)))
        \<longrightarrow> run_job_inner h reg sp source' sink world host context st s = (r, st', s'))
    \<and> (\<exists>ws. s' = written sink ws s \<and> (\<forall>b \<in> set ws. of_nat (length b) \<le> og_max_bytes (js_output sp))
        \<and> ((\<forall>a. registry_get reg (js_resource sp) = Some a \<longrightarrow> never_commits (ra_prepare a world)) \<longrightarrow>
             length ws \<le> 1))
    \<and> (\<forall>out. r = Inr out \<longrightarrow> output_honours out sp \<and> \<not> is_cancelled (poll host 0 st)
        \<and> (\<exists>a. registry_get reg (js_resource sp) = Some a
            \<and> jo_implementation out = rd_implementation (ra_descriptor a)
            \<and> jo_verification out = rd_verification (ra_descriptor a)))"
proof (intro conjI allI impI)
  show "run_job_inner h reg sp source' sink world host context st s = (r, st', s')"
    if "\<forall>i \<in> set (js_inputs sp). \<forall>s. same_answer h (in_blob i) (source s (in_blob i)) (source' s (in_blob i))"
    for source'
    using run_job_inner_same [of sp h source source'] that assms by simp
  show "\<exists>ws. s' = written sink ws s \<and> (\<forall>b \<in> set ws. of_nat (length b) \<le> og_max_bytes (js_output sp))
    \<and> ((\<forall>a. registry_get reg (js_resource sp) = Some a \<longrightarrow> never_commits (ra_prepare a world)) \<longrightarrow> length ws \<le> 1)"
    by (rule run_job_inner_written [OF assms])
  fix out assume "r = Inr out"
  with assms obtain a c where
    a: "registry_get reg (js_resource sp) = Some a" "out = run_output_of a c"
    and ok: "control_check (poll host 0 st) = Inr ()" "output_validate_against out sp = Inr ()"
    unfolding \<open>r = Inr out\<close> run_job_inner_Inr by blast
  from ok show "output_honours out sp" "\<not> is_cancelled (poll host 0 st)"
    by (auto simp: output_against_iff control_check_def split: if_splits)
  from a show "\<exists>a. registry_get reg (js_resource sp) = Some a
      \<and> jo_implementation out = rd_implementation (ra_descriptor a)
      \<and> jo_verification out = rd_verification (ra_descriptor a)"
    by (auto simp: run_output_of_def)
qed

section \<open>The built-in adapters\<close>

subsection \<open>Registration\<close>

text \<open>The registry is ordered and files each adapter under the identity it declares.\<close>

definition registry_ok :: "resource_registry \<Rightarrow> bool" where
  "registry_ok reg \<longleftrightarrow> bt_inv reg
     \<and> (\<forall>i a. bt_get reg i = Some a \<longrightarrow> rd_resource (ra_descriptor a) = i
          \<and> resource_validate i = Inr () \<and> implementation_validate (rd_implementation (ra_descriptor a)) = Inr ())"

lemma register_Inr:
  "register a reg = Inr reg' \<longleftrightarrow>
     resource_validate (rd_resource (ra_descriptor a)) = Inr ()
     \<and> implementation_validate (rd_implementation (ra_descriptor a)) = Inr ()
     \<and> bt_get reg (rd_resource (ra_descriptor a)) = None
     \<and> reg' = bt_insert (rd_resource (ra_descriptor a)) a reg"
  by (auto simp: register_def Let_def split: sum.splits)

lemma registry_ok_register:
  assumes "registry_ok reg" "register a reg = Inr reg'"
  shows "registry_ok reg'"
  using assms by (auto simp: registry_ok_def register_Inr bt_get_insert split: if_splits)

lemma descriptors [simp]:
  "ra_descriptor echo_resource = builtin_descriptor ''mesh.echo/v1'' ''mesh.echo.identity/v1''"
  "ra_descriptor (blake3_resource h) = builtin_descriptor ''mesh.blake3/v1'' ''mesh.blake3.blake3-1/v1''"
  "ra_descriptor (delayed_resource h u d) = builtin_descriptor ''mesh.delayed/v1'' ''mesh.delayed.blake3-chain/v1''"
  "rd_resource (ra_descriptor (lexical_resource lib)) = ResourceId ''esp.embed.lexical/v1''"
  "rd_implementation (ra_descriptor (lexical_resource lib)) = ImplementationId ''mesh.lexical.fnv1a/v1''"
  "rd_resource (builtin_descriptor r i) = ResourceId r"
  "rd_implementation (builtin_descriptor r i) = ImplementationId i"
  "rd_verification (builtin_descriptor r i) = ExactBytes"
  by (simp_all add: echo_resource_def blake3_resource_def delayed_resource_def lexical_resource_def
      builtin_descriptor_def)

lemma builtin_idents:
  "resource_validate (ResourceId ''mesh.echo/v1'') = Inr ()"
  "resource_validate (ResourceId ''mesh.blake3/v1'') = Inr ()"
  "resource_validate (ResourceId ''mesh.delayed/v1'') = Inr ()"
  "resource_validate (ResourceId ''esp.embed.lexical/v1'') = Inr ()"
  "implementation_validate (ImplementationId ''mesh.echo.identity/v1'') = Inr ()"
  "implementation_validate (ImplementationId ''mesh.blake3.blake3-1/v1'') = Inr ()"
  "implementation_validate (ImplementationId ''mesh.delayed.blake3-chain/v1'') = Inr ()"
  "implementation_validate (ImplementationId ''mesh.lexical.fnv1a/v1'') = Inr ()"
  by code_simp+

lemma register_builtin_ok:
  "\<exists>reg. register_builtin h lib [] = Inr reg \<and> registry_ok reg \<and> length reg = 4
     \<and> registry_get reg (ResourceId ''mesh.echo/v1'') = Some echo_resource
     \<and> registry_get reg (ResourceId ''mesh.blake3/v1'') = Some (blake3_resource h)
     \<and> registry_get reg (ResourceId ''mesh.delayed/v1'') = Some (delayed_resource h 16 0)
     \<and> registry_get reg (ResourceId ''esp.embed.lexical/v1'') = Some (lexical_resource lib)"
proof -
  define r1 where "r1 = bt_insert (ResourceId ''mesh.echo/v1'') echo_resource []"
  define r2 where "r2 = bt_insert (ResourceId ''mesh.blake3/v1'') (blake3_resource h) r1"
  define r3 where "r3 = bt_insert (ResourceId ''esp.embed.lexical/v1'') (lexical_resource lib) r2"
  define r4 where "r4 = bt_insert (ResourceId ''mesh.delayed/v1'') (delayed_resource h 16 0) r3"
  note ids = builtin_idents
  have 1: "register echo_resource [] = Inr r1"
    by (simp add: register_Inr ids r1_def)
  have 2: "register (blake3_resource h) r1 = Inr r2"
    by (simp add: register_Inr ids r1_def r2_def bt_get_def)
  have 3: "register (lexical_resource lib) r2 = Inr r3"
    by (simp add: register_Inr ids r1_def r2_def r3_def bt_get_def less_resource_id_def)
  have 4: "register (delayed_resource h 16 0) r3 = Inr r4"
    by (simp add: register_Inr ids r1_def r2_def r3_def r4_def bt_get_def less_resource_id_def)
  have "registry_ok []"
    by (simp add: registry_ok_def)
  from registry_ok_register [OF this 1] have "registry_ok r1" .
  from registry_ok_register [OF this 2] have "registry_ok r2" .
  from registry_ok_register [OF this 3] have "registry_ok r3" .
  from registry_ok_register [OF this 4] have "registry_ok r4" .
  moreover have "length r4 = 4"
    by (simp add: r1_def r2_def r3_def r4_def less_resource_id_def)
  ultimately show ?thesis
    by (simp add: register_builtin_def 1 2 3 4 registry_get_def)
      (simp add: r1_def r2_def r3_def r4_def bt_get_def less_resource_id_def)
qed


text \<open>
  A device ships four adapters under the identities they declare: registering the built-in
  adapters in a fresh registry succeeds, each is found under its own well-formed identity, and
  no registration is ever replaced, since a second adapter for a known resource is refused.
\<close>

theorem builtin_registry:
  "\<exists>reg. register_builtin h lib [] = Inr reg \<and> registry_ok reg \<and> length reg = 4
     \<and> registry_get reg (ResourceId ''mesh.delayed/v1'') = Some (delayed_resource h 16 0)
     \<and> registry_get reg (ResourceId ''esp.embed.lexical/v1'') = Some (lexical_resource lib)
     \<and> (\<forall>kind. \<exists>a. registry_get reg (legacy_resource_id kind) = Some a
          \<and> register a reg = Inl (RegistryDuplicate (legacy_resource_id kind)))"
proof -
  obtain reg where reg: "register_builtin h lib [] = Inr reg" "registry_ok reg" "length reg = 4"
    "registry_get reg (ResourceId ''mesh.echo/v1'') = Some echo_resource"
    "registry_get reg (ResourceId ''mesh.blake3/v1'') = Some (blake3_resource h)"
    "registry_get reg (ResourceId ''mesh.delayed/v1'') = Some (delayed_resource h 16 0)"
    "registry_get reg (ResourceId ''esp.embed.lexical/v1'') = Some (lexical_resource lib)"
    using register_builtin_ok by blast
  have "\<exists>a. registry_get reg (legacy_resource_id kind) = Some a
      \<and> register a reg = Inl (RegistryDuplicate (legacy_resource_id kind))" for kind
    using reg(4,5) by (cases kind) (auto simp: register_def Let_def builtin_idents registry_get_def)
  with reg show ?thesis by blast
qed

subsection \<open>Jobs over one payload\<close>

lemma payload_names: "validate_name ''payload'' = Inr ()" "validate_name ''result'' = Inr ()"
  by code_simp+

lemma payload_spec_valid:
  assumes "resource_validate (ResourceId r) = Inr ()" "length (h p) = 32"
  shows "spec_validate (spec_simple (ResourceId r) ''payload'' (blob_blake3 h p) ''result'' MAX_OUTPUT_BYTES Exact)
    = Inr ()"
  using assms payload_names
  by (simp add: spec_validate_def spec_simple_def MAX_INPUTS_def as_32_def blob_blake3_def
      digest_blake3_def MAX_OUTPUT_BYTES_def)

lemma payload_output_valid:
  assumes "resource_validate (ResourceId r) = Inr ()" "implementation_validate (ImplementationId i) = Inr ()"
    and "length (h b) = 32" "of_nat (length b) \<le> MAX_OUTPUT_BYTES"
  shows "output_validate_against
      \<lparr>jo_name = ''result'', jo_blob = blob_blake3 h b, jo_resource = ResourceId r,
       jo_implementation = ImplementationId i, jo_verification = ExactBytes\<rparr>
      (spec_simple (ResourceId r) ''payload'' (blob_blake3 h p) ''result'' MAX_OUTPUT_BYTES Exact) = Inr ()"
  using assms payload_names
  by (simp add: output_validate_against_def output_validate_self_def spec_simple_def as_32_def
      blob_blake3_def digest_blake3_def satisfies_def not_less)

lemma read_payload_spec:
  assumes "source s (blob_blake3 h p) = Inr (Some p)"
  shows "run_view h (view_grant (spec_simple r ''payload'' (blob_blake3 h p) out n d) source sink) read_payload s
    = (Inr (PreparedBytes p), s)"
  using assms
  by (simp add: read_payload_def view_read_def spec_simple_def PAYLOAD_def bt_get_def blob_verifies_blake3)

lemma run_payload_job:
  assumes a: "registry_get reg (ResourceId r) = Some a" "ra_descriptor a = builtin_descriptor r i"
      "ra_prepare a world = read_payload"
    and ids: "resource_validate (ResourceId r) = Inr ()" "implementation_validate (ImplementationId i) = Inr ()"
    and h: "\<And>x. length (h x) = 32"
    and run: "control_check (poll host 0 st) = Inr ()"
      "ra_execute a world (PreparedBytes p) host (poll host 0 st) = (Inr b, st')"
    and blobs: "source s (blob_blake3 h p) = Inr (Some p)" "sink b s = (Inr (blob_blake3 h b), s')"
      "of_nat (length b) \<le> MAX_OUTPUT_BYTES"
  shows "run_job h reg (spec_simple (ResourceId r) ''payload'' (blob_blake3 h p) ''result'' MAX_OUTPUT_BYTES Exact)
      source sink world host st s
    = (Inr \<lparr>jo_name = ''result'', jo_blob = blob_blake3 h b, jo_resource = ResourceId r,
        jo_implementation = ImplementationId i, jo_verification = ExactBytes\<rparr>, st', s')"
  unfolding run_job_def run_job_inner_Inr
proof (intro exI conjI)
  let ?sp = "spec_simple (ResourceId r) ''payload'' (blob_blake3 h p) ''result'' MAX_OUTPUT_BYTES Exact"
  show "spec_validate ?sp = Inr ()"
    by (rule payload_spec_valid) (rule ids(1), rule h)
  show "registry_get reg (js_resource ?sp) = Some a"
    using a(1) by (simp add: spec_simple_def)
  show "satisfies (rd_verification (ra_descriptor a)) (js_determinism ?sp)"
    by (simp add: a(2) satisfies_def)
  show "run_view h (view_grant ?sp source sink) (ra_prepare a world) s = (Inr (PreparedBytes p), s)"
    unfolding a(3) by (rule read_payload_spec) (rule blobs(1))
  show "run_execute a world (PreparedBytes p) None host (poll host 0 st) = (Inr b, st')"
    using run(2) by (simp add: run_execute_def)
  show "view_commit (view_grant ?sp source sink) (og_name (js_output ?sp)) b s
      = (Inr \<lparr>oc_name = ''result'', oc_blob = blob_blake3 h b\<rparr>, s')"
    using blobs(2,3) by (simp add: view_commit_def spec_simple_def not_less Let_def)
  show "\<lparr>jo_name = ''result'', jo_blob = blob_blake3 h b, jo_resource = ResourceId r,
      jo_implementation = ImplementationId i, jo_verification = ExactBytes\<rparr>
    = run_output_of a \<lparr>oc_name = ''result'', oc_blob = blob_blake3 h b\<rparr>"
    by (simp add: run_output_of_def a(2))
  show "output_validate_against \<lparr>jo_name = ''result'', jo_blob = blob_blake3 h b, jo_resource = ResourceId r,
      jo_implementation = ImplementationId i, jo_verification = ExactBytes\<rparr> ?sp = Inr ()"
    by (rule payload_output_valid) (rule ids, rule ids, rule h, rule blobs(3))
qed (rule run(1))

text \<open>The scratch space stores and finds by content address.\<close>

lemma space_memory_put:
  "space_put h hex str_of memory_backend b m
     = (Inr (blob_blake3 h b), bt_insert (blob_key hex (h b)) b m)"
  by (simp add: space_put_def blob_put_def memory_backend_def memory_put_def Let_def)

lemma space_memory_get:
  "length (h b) = 32 \<Longrightarrow>
     space_get hex str_of memory_backend m (blob_blake3 h b) = Inr (bt_get m (blob_key hex (h b)))"
  by (simp add: space_get_def as_32_def blob_blake3_def digest_blake3_def blob_get_def
      memory_backend_def memory_get_def)

lemma run_legacy_payload:
  assumes "registry_get reg (ResourceId r) = Some a" "legacy_resource_id kind = ResourceId r"
    "ra_descriptor a = builtin_descriptor r i" "ra_prepare a world = read_payload"
    "resource_validate (ResourceId r) = Inr ()" "implementation_validate (ImplementationId i) = Inr ()"
    and h: "\<And>x. length (h x) = 32"
    and "control_check (poll host 0 st) = Inr ()"
    "ra_execute a world (PreparedBytes p) host (poll host 0 st) = (Inr b, st')"
    "of_nat (length b) \<le> MAX_OUTPUT_BYTES"
  shows "run_legacy h hex str_of reg kind p world host st = (Inr b, st')"
proof -
  let ?m = "bt_insert (blob_key hex (h p)) p []"
  have src: "space_get hex str_of memory_backend ?m (blob_blake3 h p) = Inr (Some p)"
    by (simp add: space_memory_get h del: bt_insert.simps)
  have "run_job h reg (spec_simple (ResourceId r) ''payload'' (blob_blake3 h p) ''result'' MAX_OUTPUT_BYTES Exact)
      (space_get hex str_of memory_backend) (space_put h hex str_of memory_backend) world host st ?m
    = (Inr \<lparr>jo_name = ''result'', jo_blob = blob_blake3 h b, jo_resource = ResourceId r,
        jo_implementation = ImplementationId i, jo_verification = ExactBytes\<rparr>, st',
       bt_insert (blob_key hex (h b)) b ?m)"
    by (rule run_payload_job [where i = i])
      (rule assms src space_memory_put h)+
  then show ?thesis
    by (simp add: run_legacy_def space_memory_put space_memory_get h assms(2) Let_def
        del: bt_insert.simps)
qed

lemma level_le_1: "w \<le> 1 \<Longrightarrow> w = 0 \<or> w = (1 :: u8)"
  by (metis linorder_not_less order_less_le word_less_1)

text \<open>
  Jobs of the first wire generation compute what they always did: through the shared
  execution route and a scratch blob space, an echo job returns its payload and a hash job the
  BLAKE3 digest of it, for every payload within the output bound, when the host does not
  cancel the run; BLAKE3 is assumed to give 32 bytes.
\<close>

theorem legacy_run_result:
  assumes "register_builtin h lib [] = Inr reg" "\<And>x. length (h x) = 32"
    and "of_nat (length payload) \<le> MAX_OUTPUT_BYTES" "host 0 \<le> 1" "host 1 \<le> 1"
  shows "fst (run_legacy h hex str_of reg kind payload world host control_new)
    = Inr (case kind of Echo \<Rightarrow> payload | Blake3 \<Rightarrow> h payload)"
proof -
  have regs: "registry_get reg (ResourceId ''mesh.echo/v1'') = Some echo_resource"
    "registry_get reg (ResourceId ''mesh.blake3/v1'') = Some (blake3_resource h)"
    using register_builtin_ok [of h lib] assms(1) by auto
  have go: "control_check (poll host 0 control_new) = Inr ()"
    "control_check (poll host 1 (poll host 0 control_new)) = Inr ()"
    using level_le_1 [OF assms(4)] level_le_1 [OF assms(5)]
    by (auto simp: control_check_def is_cancelled_def read_signal_def poll_def
        escalate_def control_new_def)
  have "of_nat (length (h payload)) \<le> MAX_OUTPUT_BYTES"
    by (simp add: assms(2) MAX_OUTPUT_BYTES_def)
  then have "run_legacy h hex str_of reg Blake3 payload world host control_new
      = (Inr (h payload), poll host 1 (poll host 0 control_new))"
    by (intro run_legacy_payload [where r = "''mesh.blake3/v1''" and i = "''mesh.blake3.blake3-1/v1''"
          and a = "blake3_resource h"])
      (simp_all add: regs builtin_idents assms(2) go go(2) [unfolded One_nat_def] blake3_resource_def blake3_execute_def
        Let_def descriptors [unfolded blake3_resource_def])
  moreover have "run_legacy h hex str_of reg Echo payload world host control_new
      = (Inr payload, poll host 1 (poll host 0 control_new))"
    using assms(3)
    by (intro run_legacy_payload [where r = "''mesh.echo/v1''" and i = "''mesh.echo.identity/v1''"
          and a = "echo_resource"])
      (simp_all add: regs builtin_idents assms(2) go go(2) [unfolded One_nat_def] echo_resource_def echo_execute_def Let_def
        descriptors [unfolded echo_resource_def])
  ultimately show ?thesis
    by (cases kind) simp_all
qed

definition demo_hash :: "bytes \<Rightarrow> bytes" where
  "demo_hash b = replicate 32 (of_nat (length b))"

theorem legacy_run_result_witness:
  "\<exists>reg. fst (run_legacy demo_hash (\<lambda>_. []) (\<lambda>_. []) reg Blake3 [7, 8] (\<lambda>_. []) (\<lambda>_. 0) control_new)
     = Inr (replicate 32 2)"
proof -
  obtain reg where "register_builtin demo_hash lib [] = Inr reg"
    using register_builtin_ok by blast
  from legacy_run_result [OF this, of "[7, 8]" "\<lambda>_. 0" "\<lambda>_. []" "\<lambda>_. []" Blake3 "\<lambda>_. []"] show ?thesis
    by (auto simp: demo_hash_def MAX_OUTPUT_BYTES_def)
qed

definition demo_run_spec :: job_spec where
  "demo_run_spec =
     spec_simple (ResourceId ''mesh.echo/v1'') ''payload'' (blob_blake3 demo_hash [1, 2, 3]) ''result''
       MAX_OUTPUT_BYTES Exact"

definition demo_sink :: "bytes list blob_sink" where
  "demo_sink b s = (Inr (blob_blake3 demo_hash b), s @ [b])"

lemma demo_run:
  "run_job demo_hash [(ResourceId ''mesh.echo/v1'', echo_resource)] demo_run_spec
     (\<lambda>_ _. Inr (Some [1, 2, 3])) demo_sink (\<lambda>_. []) (\<lambda>_. 0) control_new []
   = (Inr \<lparr>jo_name = ''result'', jo_blob = blob_blake3 demo_hash [1, 2, 3],
       jo_resource = ResourceId ''mesh.echo/v1'',
       jo_implementation = ImplementationId ''mesh.echo.identity/v1'', jo_verification = ExactBytes\<rparr>,
      control_new, [[1, 2, 3]])"
  unfolding demo_run_spec_def
  by (rule run_payload_job [where a = "echo_resource"])
    (simp_all add: builtin_idents registry_get_def bt_get_def echo_resource_def echo_execute_def
      control_check_def is_cancelled_def read_signal_def poll_def escalate_def control_new_def
      demo_hash_def demo_sink_def MAX_OUTPUT_BYTES_def Let_def builtin_descriptor_def)

text \<open>The same run on a device whose space holds nothing but the granted input.\<close>

theorem run_is_confined_witness:
  "\<exists>out. run_job demo_hash [(ResourceId ''mesh.echo/v1'', echo_resource)] demo_run_spec
       (\<lambda>_ blob. Inr (if blob = blob_blake3 demo_hash [1, 2, 3] then Some [1, 2, 3] else None)) demo_sink
       (\<lambda>_. []) (\<lambda>_. 0) control_new []
     = (Inr out, control_new, [[1, 2, 3]]) \<and> output_honours out demo_run_spec"
proof -
  have "\<forall>i \<in> set (js_inputs demo_run_spec). in_blob i = blob_blake3 demo_hash [1, 2, 3]"
    by (simp add: demo_run_spec_def spec_simple_def)
  then show ?thesis
    using run_is_confined [OF demo_run [unfolded run_job_def]] unfolding run_job_def
    by (auto simp: same_answer_def)
qed

subsection \<open>The delayed chain stops where it is told\<close>

lemma control_report_level [simp]: "cs_signal (control_report d t st) = cs_signal st"
  by (simp add: control_report_def)

lemma poll_held [simp]: "cs_checkpoint_held (poll host n st) = cs_checkpoint_held st"
  by (simp add: poll_def escalate_def)

text \<open>The signal a point sees when no earlier point saw one.\<close>

lemma poll_signal:
  "cs_signal st = 0 \<Longrightarrow> read_signal (poll host n st) =
     (if host n = 0 then Continue else if host n = 1 then Checkpoint else Cancel)"
  by (simp add: read_signal_def poll_def escalate_def max_def)

lemma chain_links_spec:
  assumes "cs_signal st = 0"
  shows "fst (chain_links h host units unit n state st) =
      (case List.find (\<lambda>k. host (k + 1) \<noteq> 0) [unit..<unit + n] of
         None \<Rightarrow> Inr ((h ^^ n) state)
       | Some k \<Rightarrow> if host (k + 1) = 1 then Inl (Checkpointed (of_nat k) units) else Inl ResourceCancelled)
    \<and> (cs_checkpoint_held (snd (chain_links h host units unit n state st)) \<longleftrightarrow>
         cs_checkpoint_held st
         \<or> (\<exists>k. List.find (\<lambda>k. host (k + 1) \<noteq> 0) [unit..<unit + n] = Some k \<and> host (k + 1) = 1))"
  using assms
proof (induction n arbitrary: unit state st)
  case (Suc n)
  have upt: "[unit..<unit + Suc n] = unit # [unit + 1..<unit + 1 + n]"
    by (simp add: upt_rec)
  have pow: "(h ^^ Suc n) state = (h ^^ n) (h state)"
    by (simp add: funpow_swap1)
  show ?case
  proof (cases "host (unit + 1) = 0")
    case True
    let ?st = "control_report (of_nat unit + 1) units (poll host (unit + 1) st)"
    have "cs_signal ?st = 0" and held: "cs_checkpoint_held ?st = cs_checkpoint_held st"
      using Suc.prems True by (simp_all add: poll_def escalate_def control_report_def)
    from Suc.IH [OF this(1), of "unit + 1" "h state"] True held show ?thesis
      unfolding upt pow by (simp add: Let_def poll_signal [OF Suc.prems] del: upt_Suc)
  next
    case False
    then show ?thesis
      unfolding upt
      by (auto simp: Let_def poll_signal [OF Suc.prems] hold_checkpoint_def)
  qed
qed simp

text \<open>
  The rehearsal resource stops exactly where its host tells it to, and always stops: with
  no request it computes the chain of the declared number of links; the first request seen at
  a link decides: a checkpoint request ends the run there, naming the links done and marking a
  checkpoint as held, a cancel ends it with nothing kept.
\<close>

theorem delayed_run_spec:
  "(fst (delayed_execute h (PreparedChain c) host control_new),
    cs_checkpoint_held (snd (delayed_execute h (PreparedChain c) host control_new))) =
     (case List.find (\<lambda>k. host (k + 1) \<noteq> 0) [0..<unat (ch_units c)] of
        None \<Rightarrow> (Inr (delayed_expected h (ch_seed c) (ch_units c)), False)
      | Some k \<Rightarrow>
          if host (k + 1) = 1 then (Inl (Checkpointed (of_nat k) (ch_units c)), True)
          else (Inl ResourceCancelled, False))"
proof -
  let ?st = "control_report 0 (ch_units c) control_new"
  have "cs_signal ?st = 0" "\<not> cs_checkpoint_held ?st"
    by (simp_all add: control_new_def control_report_def)
  with chain_links_spec [OF this(1), of h host "ch_units c" 0 "unat (ch_units c)" "ch_seed c"]
  show ?thesis
    by (auto simp: delayed_execute_def delayed_expected_def split: option.splits)
qed

subsection \<open>Re-running\<close>

text \<open>
  What makes an adapter's bytes reproducible: it prepares by reading alone and asks nothing of the
  world; and execution, when it succeeds, gives bytes determined by what was prepared, which
  it always gives when nobody asks it to stop.
\<close>

definition reproducible :: "adapter \<Rightarrow> (prepared \<Rightarrow> bytes option) \<Rightarrow> bool" where
  "reproducible a f \<longleftrightarrow>
     (\<forall>w w'. ra_prepare a w = ra_prepare a w' \<and> never_commits (ra_prepare a w))
     \<and> (\<forall>w p context host st b st'. run_execute a w p context host st = (Inr b, st') \<longrightarrow> f p = Some b)
     \<and> (\<forall>w p context host st b. f p = Some b \<longrightarrow> (\<forall>n. host n = 0) \<longrightarrow> cs_signal st = 0 \<longrightarrow>
          fst (run_execute a w p context host st) = Inr b)"

lemma quiet_poll: "host n = 0 \<Longrightarrow> cs_signal st = 0 \<Longrightarrow> cs_signal (poll host n st) = 0"
  by (simp add: poll_def escalate_def)

lemma quiet_check: "host n = 0 \<Longrightarrow> cs_signal st = 0 \<Longrightarrow> control_check (poll host n st) = Inr ()"
  by (simp add: control_check_def is_cancelled_def read_signal_def quiet_poll)

lemma chain_links_Inr:
  "chain_links h host units unit n state st = (Inr b, st') \<Longrightarrow> b = (h ^^ n) state"
proof (induction n arbitrary: unit state st)
  case (Suc n)
  then show ?case
    by (auto simp: Let_def funpow_swap1 split: control_signal.splits)
qed simp

lemma chain_links_quiet:
  assumes "\<forall>n. host n = 0" "cs_signal st = 0"
  shows "fst (chain_links h host units unit n state st) = Inr ((h ^^ n) state)"
proof -
  have "List.find (\<lambda>k. host (k + 1) \<noteq> 0) [unit..<unit + n] = None"
    using assms(1) by (simp add: find_None_iff)
  then show ?thesis
    using chain_links_spec [OF assms(2)] by simp
qed

lemma builtin_reproducible:
  "\<exists>f. reproducible echo_resource f" "\<exists>f. reproducible (blake3_resource h) f"
  "\<exists>f. reproducible (lexical_resource lib) f" "\<exists>f. reproducible (delayed_resource h units delay) f"
proof -
  have "reproducible echo_resource (\<lambda>p. case take_bytes p of Inr b \<Rightarrow> Some b | _ \<Rightarrow> None)"
    by (auto simp: reproducible_def echo_resource_def read_payload_def run_execute_def echo_execute_def Let_def
        and_then_eq_Inr quiet_check split: option.splits sum.splits)
  then show "\<exists>f. reproducible echo_resource f" by blast
  have "reproducible (blake3_resource h) (\<lambda>p. case take_bytes p of Inr b \<Rightarrow> Some (h b) | _ \<Rightarrow> None)"
    by (auto simp: reproducible_def blake3_resource_def read_payload_def run_execute_def blake3_execute_def Let_def
        and_then_eq_Inr quiet_check split: option.splits sum.splits)
  then show "\<exists>f. reproducible (blake3_resource h) f" by blast
  have "reproducible (delayed_resource h units delay)
      (\<lambda>p. case take_chain p of Inr c \<Rightarrow> Some ((h ^^ unat (ch_units c)) (ch_seed c)) | _ \<Rightarrow> None)"
    by (auto simp: reproducible_def delayed_resource_def delayed_prepare_def run_execute_def delayed_execute_def
        chain_links_quiet split: option.splits sum.splits dest!: chain_links_Inr)
  then show "\<exists>f. reproducible (delayed_resource h units delay) f" by blast
  have "reproducible (lexical_resource lib)
      (\<lambda>p. case and_then (take_batch p) (\<lambda>batch. map_sum (\<lambda>e. ResourceBackend (ll_show lib e)) vectors_encode
             (embed_batch (ll_embed lib) batch)) of Inr b \<Rightarrow> Some b | _ \<Rightarrow> None)"
    by (auto simp: reproducible_def lexical_resource_def lexical_prepare_def run_execute_def lexical_execute_def
        Let_def and_then_def quiet_check quiet_poll split: option.splits sum.splits)
  then show "\<exists>f. reproducible (lexical_resource lib) f" by blast
qed

lemma builtin_get:
  assumes "register_builtin h lib [] = Inr reg" "registry_get reg i = Some a"
  shows "a \<in> {echo_resource, blake3_resource h, lexical_resource lib, delayed_resource h 16 0}"
  using assms
  by (auto simp: register_builtin_def and_then_eq_Inr register_Inr registry_get_def bt_get_insert
      simp del: descriptors bt_insert.simps split: if_splits)

lemma builtin_get_reproducible:
  assumes "register_builtin h lib [] = Inr reg" "registry_get reg i = Some a"
  obtains f where "reproducible a f" "rd_verification (ra_descriptor a) = ExactBytes"
proof -
  have "rd_verification (ra_descriptor a) = ExactBytes"
    using builtin_get [OF assms] by (auto simp: lexical_resource_def)
  moreover have "\<exists>f. reproducible a f"
    using builtin_get [OF assms] builtin_reproducible by blast
  ultimately show thesis using that by blast
qed

lemma view_commit_Inr:
  "view_commit v name b s = (Inr c, s') \<longleftrightarrow>
     name = nv_output_name v \<and> of_nat (length b) \<le> nv_max_output_bytes v
     \<and> (\<exists>blob. nv_sink v b s = (Inr blob, s') \<and> c = \<lparr>oc_name = name, oc_blob = blob\<rparr>)"
  by (auto simp: view_commit_def Let_def not_less not_le split: prod.splits sum.splits)

text \<open>What preparation reads is the same in two spaces that answer alike for the granted inputs.\<close>

lemma reads_alike:
  assumes "never_commits prog" "\<forall>i \<in> set (js_inputs sp). source' t (in_blob i) = source s (in_blob i)"
  shows "fst (run_view h (view_grant sp source' sink') prog t) = fst (run_view h (view_grant sp source sink) prog s)"
  using assms(1)
proof (induction prog)
  case (CallRead name k)
  have "view_read h (view_grant sp source' sink') name t = view_read h (view_grant sp source sink) name s"
    using assms(2)
    by (auto simp: view_read_def bt_get_fold_inputs split: option.split dest!: find_Some_mem)
  with CallRead show ?case by simp
qed (simp_all add: input_names_def)

text \<open>
  C31. A result of a built-in resource is reproduced. When a device with the built-in adapters
  commits an output for a job, another device with them that is asked to verify it answers that
  the committed bytes were reproduced, naming the build, when its blob space is content
  addressed, accepts writes and answers for the granted inputs as the first one did, and its
  host does not ask the rerun to stop. The two runs share nothing else: the first ran under a
  supervising host that may have asked for a checkpoint, into a blob space of its own, and both
  may see different worlds. A device whose registry has no adapter for the resource
  answers that it cannot judge the output, and runs and changes nothing.
\<close>

theorem rerun_reproduces:
  assumes "register_builtin h lib [] = Inr reg"
    and "run_job_inner h reg sp source sink world host context st s = (Inr out, st', s')"
    and "\<forall>b s blob s'. sink b s = (Inr blob, s') \<longrightarrow> blob = blob_blake3 h b"
    and "\<forall>b t. fst (sink2 b t) = Inr (blob_blake3 h b)"
    and "\<forall>i \<in> set (js_inputs sp). source2 t (in_blob i) = source s (in_blob i)"
    and "\<forall>n. host2 n = 0" "cs_signal st2 = 0"
  shows "fst (verify_output h reg sp out source2 sink2 world2 host2 st2 t)
      = Inr (Reproduced (jo_implementation out))
    \<and> (registry_get reg' (js_resource sp) = None \<longrightarrow>
         verify_output h reg' sp out source2 sink2 world2 host2 st2 t
         = (Inr (Unavailable (js_resource sp)), st2, t))"
proof -
  let ?v = "view_grant sp source sink" and ?v2 = "view_grant sp source2 sink2"
  obtain a p s1 b c where r: "spec_validate sp = Inr ()" "registry_get reg (js_resource sp) = Some a"
    "satisfies (rd_verification (ra_descriptor a)) (js_determinism sp)"
    "run_view h ?v (ra_prepare a world) s = (Inr p, s1)"
    "run_execute a world p context host (poll host 0 st) = (Inr b, st')"
    "view_commit ?v (og_name (js_output sp)) b s1 = (Inr c, s')"
    "out = run_output_of a c" "output_validate_against out sp = Inr ()"
    using assms(2) unfolding run_job_inner_Inr by blast
  obtain f where f: "reproducible a f" "rd_verification (ra_descriptor a) = ExactBytes"
    using assms(1) r(2) by (rule builtin_get_reproducible)
  have prep: "ra_prepare a world2 = ra_prepare a world" "never_commits (ra_prepare a world)"
    using f(1) unfolding reproducible_def by blast+
  have "run_view h ?v2 (ra_prepare a world2) t = (Inr p, t)"
    using reads_alike [of _ sp source2 t source s h sink2 sink, OF prep(2) assms(5)] never_commits_state [OF prep(2), of h ?v2 t] r(4)
    by (metis prep(1) fst_conv prod.collapse)
  moreover have "f p = Some b" using f(1) r(5) unfolding reproducible_def by blast
  then have "fst (run_execute a world2 p None host2 (poll host2 0 st2)) = Inr b"
    using f(1) assms(6) quiet_poll [of host2 0 st2] assms(7) unfolding reproducible_def by blast
  then obtain st3 where "run_execute a world2 p None host2 (poll host2 0 st2) = (Inr b, st3)"
    by (metis prod.collapse)
  moreover have "\<exists>t'. view_commit ?v2 (og_name (js_output sp)) b t = (Inr c, t')"
    using r(6) assms(3) assms(4) [rule_format, of b t]
    by (cases "sink2 b t") (auto simp: view_commit_Inr)
  moreover have "control_check (poll host2 0 st2) = Inr ()"
    using assms(6,7) by (simp add: quiet_check)
  ultimately obtain t' where "run_job h reg sp source2 sink2 world2 host2 st2 t = (Inr out, st3, t')"
    using r(1-3,7,8) unfolding run_job_def run_job_inner_Inr by blast
  with r(2,7,8) f(2) show ?thesis
    by (simp add: verify_output_def run_output_of_def)
qed

definition demo_lib :: lexical_lib where
  "demo_lib = \<lparr>ll_embed = (\<lambda>_ _. Inr []), ll_show = (\<lambda>_. [])\<rparr>"

theorem rerun_reproduces_witness:
  "\<exists>reg out. register_builtin demo_hash demo_lib [] = Inr reg
     \<and> fst (verify_output demo_hash reg demo_run_spec out (\<lambda>_ _. Inr (Some [1, 2, 3]))
         (\<lambda>b n. (Inr (blob_blake3 demo_hash b), n + 1)) (\<lambda>_. [9]) (\<lambda>_. 0) control_new (4 :: nat))
       = Inr (Reproduced (ImplementationId ''mesh.echo.identity/v1''))
     \<and> verify_output demo_hash [(ResourceId ''mesh.blake3/v1'', blake3_resource demo_hash)] demo_run_spec out
         (\<lambda>_ _. Inr (Some [1, 2, 3])) (\<lambda>b n. (Inr (blob_blake3 demo_hash b), n + 1)) (\<lambda>_. [9]) (\<lambda>_. 0) control_new
         (4 :: nat)
       = (Inr (Unavailable (ResourceId ''mesh.echo/v1'')), control_new, 4)"
proof -
  obtain reg where reg: "register_builtin demo_hash demo_lib [] = Inr reg"
    "registry_get reg (ResourceId ''mesh.echo/v1'') = Some echo_resource"
    using register_builtin_ok [of demo_hash demo_lib] by blast
  let ?st = "poll (\<lambda>_. 1) 1 (poll (\<lambda>_. 1) 0 control_new)"
  have "run_job demo_hash reg demo_run_spec (\<lambda>_ _. Inr (Some [1, 2, 3])) demo_sink (\<lambda>_. []) (\<lambda>_. 1) control_new []
   = (Inr \<lparr>jo_name = ''result'', jo_blob = blob_blake3 demo_hash [1, 2, 3],
       jo_resource = ResourceId ''mesh.echo/v1'',
       jo_implementation = ImplementationId ''mesh.echo.identity/v1'', jo_verification = ExactBytes\<rparr>,
      ?st, [[1, 2, 3]])" (is "_ = (Inr ?out, _)")
    unfolding demo_run_spec_def
    by (rule run_payload_job [where a = "echo_resource"])
      (simp_all add: builtin_idents reg(2) echo_resource_def echo_execute_def control_check_def is_cancelled_def
        read_signal_def poll_def escalate_def control_new_def demo_hash_def demo_sink_def MAX_OUTPUT_BYTES_def
        Let_def builtin_descriptor_def)
  note rerun = rerun_reproduces [OF reg(1) this [unfolded run_job_def], where t = "4 :: nat"
      and ?source2.0 = "\<lambda>_ _. Inr (Some [1, 2, 3])" and ?sink2.0 = "\<lambda>b n. (Inr (blob_blake3 demo_hash b), n + 1)"
      and ?host2.0 = "\<lambda>_. 0" and ?st2.0 = control_new and ?world2.0 = "\<lambda>_. [9]"
      and reg' = "[(ResourceId ''mesh.blake3/v1'', blake3_resource demo_hash)]"]
  have "js_resource demo_run_spec = ResourceId ''mesh.echo/v1''"
    by (simp add: demo_run_spec_def spec_simple_def)
  then show ?thesis
    using rerun reg(1) by (auto simp: demo_sink_def control_new_def registry_get_def bt_get_def)
qed

end
