(* ===== verification/Mesh_Worker.thy ===== *)
theory Mesh_Worker
  imports Mesh_Registry Mesh_Guarantees
begin

text \<open>
  What a device lends (\<^verbatim>\<open>crates/mesh/mesh/src/policy.rs\<close>) and the worker's decision
  function (\<^verbatim>\<open>worker.rs\<close>): a board, an identity and an offer at one clock reading
  go in, one action comes out. Each loop of the source that returns at the first match is
  \<open>first_some\<close> over the board's jobs in order.
\<close>

section \<open>Policy\<close>

datatype network_class = Offline | Metered | Wifi | Wired

instantiation network_class :: linorder
begin

fun network_rank :: "network_class \<Rightarrow> nat" where
  "network_rank Offline = 0"
| "network_rank Metered = 1"
| "network_rank Wifi = 2"
| "network_rank Wired = 3"

definition less_eq_network_class :: "network_class \<Rightarrow> network_class \<Rightarrow> bool" where
  "less_eq_network_class a b \<longleftrightarrow> network_rank a \<le> network_rank b"

definition less_network_class :: "network_class \<Rightarrow> network_class \<Rightarrow> bool" where
  "less_network_class a b \<longleftrightarrow> network_rank a < network_rank b"

instance
proof
  fix a b :: network_class
  assume "a \<le> b" "b \<le> a"
  then show "a = b"
    by (cases a; cases b) (simp_all add: less_eq_network_class_def)
qed (auto simp: less_eq_network_class_def less_network_class_def)

end

record quiet_hours =
  qh_start :: u8
  qh_end :: u8

definition quiet_contains :: "quiet_hours \<Rightarrow> u8 \<Rightarrow> bool" where
  "quiet_contains q hour =
     (if qh_start q = qh_end q then True
      else if qh_start q < qh_end q then hour \<ge> qh_start q \<and> hour < qh_end q
      else hour \<ge> qh_start q \<or> hour < qh_end q)"

record device_policy =
  dp_min_idle_ms :: u64
  dp_min_battery_pct :: u8
  dp_max_thermal_c :: u16
  dp_min_network :: network_class
  dp_max_bandwidth_in_use_kbps :: u32
  dp_quiet_hours :: "quiet_hours option"
  dp_max_concurrent_jobs :: u32
  dp_allowed_resources :: "resource_id list"
  dp_accepted_checkpoints :: "checkpoint_class list"
  dp_reclaim_grace_ms :: u64
  dp_supervises_leases :: bool

definition policy_permissive :: device_policy where
  "policy_permissive =
     \<lparr>dp_min_idle_ms = 0, dp_min_battery_pct = 0, dp_max_thermal_c = 0, dp_min_network = Offline,
      dp_max_bandwidth_in_use_kbps = 0, dp_quiet_hours = None, dp_max_concurrent_jobs = - 1,
      dp_allowed_resources = [], dp_accepted_checkpoints = [], dp_reclaim_grace_ms = 0,
      dp_supervises_leases = True\<rparr>"

definition policy_unsupervised :: device_policy where
  "policy_unsupervised = policy_permissive\<lparr>dp_supervises_leases := False\<rparr>"

definition policy_conservative :: device_policy where
  "policy_conservative =
     \<lparr>dp_min_idle_ms = 120000, dp_min_battery_pct = 40, dp_max_thermal_c = 85, dp_min_network = Wifi,
      dp_max_bandwidth_in_use_kbps = 0, dp_quiet_hours = Some \<lparr>qh_start = 22, qh_end = 8\<rparr>,
      dp_max_concurrent_jobs = 1, dp_allowed_resources = [],
      dp_accepted_checkpoints = [Restart, Resumable], dp_reclaim_grace_ms = 5000,
      dp_supervises_leases = True\<rparr>"

record device_conditions =
  dc_idle_ms :: u64
  dc_battery_pct :: u8
  dc_on_mains :: bool
  dc_thermal_c :: u16
  dc_network :: network_class
  dc_bandwidth_in_use_kbps :: u32
  dc_local_hour :: u8
  dc_running_jobs :: u32

definition conditions_spare :: device_conditions where
  "conditions_spare =
     \<lparr>dc_idle_ms = - 1, dc_battery_pct = 100, dc_on_mains = True, dc_thermal_c = 40, dc_network = Wired,
      dc_bandwidth_in_use_kbps = 0, dc_local_hour = 14, dc_running_jobs = 0\<rparr>"

definition conditions_in_use :: "device_conditions \<Rightarrow> device_conditions" where
  "conditions_in_use c = c\<lparr>dc_idle_ms := 0\<rparr>"

definition at_capacity :: "device_policy \<Rightarrow> device_conditions \<Rightarrow> bool" where
  "at_capacity p c \<longleftrightarrow> dc_running_jobs c \<ge> dp_max_concurrent_jobs p"

definition withholding :: "device_policy \<Rightarrow> device_conditions \<Rightarrow> reclaim_reason option" where
  "withholding p c =
     (if dc_idle_ms c < dp_min_idle_ms p then Some ForegroundActivity
      else if \<not> dc_on_mains c \<and> dc_battery_pct c < dp_min_battery_pct p then Some Battery
      else if dp_max_thermal_c p > 0 \<and> dc_thermal_c c \<ge> dp_max_thermal_c p then Some Thermal
      else if dc_network c < dp_min_network p then Some Network
      else if dp_max_bandwidth_in_use_kbps p > 0
        \<and> dc_bandwidth_in_use_kbps c \<ge> dp_max_bandwidth_in_use_kbps p then Some Network
      else if (case dp_quiet_hours p of None \<Rightarrow> False | Some q \<Rightarrow> quiet_contains q (dc_local_hour c))
      then Some QuietHours
      else None)"

definition policy_accepts :: "device_policy \<Rightarrow> job_spec \<Rightarrow> bool" where
  "policy_accepts p sp \<longleftrightarrow>
     (dp_supervises_leases p \<or> js_lease sp = None)
     \<and> (dp_allowed_resources p = [] \<or> js_resource sp \<in> set (dp_allowed_resources p))
     \<and> (dp_accepted_checkpoints p = [] \<or> js_checkpoint sp \<in> set (dp_accepted_checkpoints p))"

section \<open>The offer\<close>

record host_offer =
  ho_registry :: resource_registry
  ho_facts :: host_facts
  ho_policy :: device_policy
  ho_conditions :: device_conditions
  ho_now_ms :: u64
  ho_lease :: lease_policy
  ho_running :: "job_id list"

definition offer_new :: "resource_registry \<Rightarrow> host_facts \<Rightarrow> device_policy \<Rightarrow> host_offer" where
  "offer_new reg facts p =
     \<lparr>ho_registry = reg, ho_facts = facts, ho_policy = p, ho_conditions = conditions_spare,
      ho_now_ms = 0, ho_lease = lease_policy_default, ho_running = []\<rparr>"

definition offer_at :: "u64 \<Rightarrow> host_offer \<Rightarrow> host_offer" where
  "offer_at now_ms o' = o'\<lparr>ho_now_ms := now_ms\<rparr>"

definition offer_observing :: "device_conditions \<Rightarrow> host_offer \<Rightarrow> host_offer" where
  "offer_observing c o' = o'\<lparr>ho_conditions := c\<rparr>"

definition offer_running :: "job_id list \<Rightarrow> host_offer \<Rightarrow> host_offer" where
  "offer_running running o' = o'\<lparr>ho_running := running\<rparr>"

definition with_lease_policy :: "lease_policy \<Rightarrow> host_offer \<Rightarrow> host_offer" where
  "with_lease_policy lease o' = o'\<lparr>ho_lease := lease\<rparr>"

definition must_stop :: "host_offer \<Rightarrow> reclaim_reason option" where
  "must_stop o' = withholding (ho_policy o') (ho_conditions o')"

definition accepting :: "host_offer \<Rightarrow> bool" where
  "accepting o' \<longleftrightarrow> must_stop o' = None \<and> \<not> at_capacity (ho_policy o') (ho_conditions o')"

definition can_run :: "host_offer \<Rightarrow> job \<Rightarrow> bool" where
  "can_run o' j =
     (case job_spec j of
        Some sp \<Rightarrow> policy_accepts (ho_policy o') sp \<and> offers (ho_registry o') sp (ho_facts o')
      | None \<Rightarrow>
          (case job_kind j of
             None \<Rightarrow> False
           | Some kind \<Rightarrow>
               job_payload j \<noteq> None
               \<and> (case registry_get (ho_registry o') (legacy_resource_id kind) of
                    None \<Rightarrow> False
                  | Some a \<Rightarrow> satisfied_by (rd_requires (ra_descriptor a)) (ho_facts o'))))"

definition is_running :: "host_offer \<Rightarrow> job_id \<Rightarrow> bool" where
  "is_running o' i \<longleftrightarrow> i \<in> set (ho_running o')"

section \<open>The decision\<close>

datatype worker_action =
    Reclaim job_id key32 reclaim_reason
  | Heartbeat job_id key32
  | Grant job_id u32 u64 u64
  | Execute job_id
  | Claim job_id
  | Idle

fun first_some :: "('a \<Rightarrow> 'b option) \<Rightarrow> 'a list \<Rightarrow> 'b option" where
  "first_some f [] = None"
| "first_some f (x # xs) = (case f x of Some y \<Rightarrow> Some y | None \<Rightarrow> first_some f xs)"

definition reclaim_of ::
  "key32 \<Rightarrow> host_offer \<Rightarrow> reclaim_reason \<Rightarrow> job \<times> lease_phase \<Rightarrow> worker_action option" where
  "reclaim_of me o' reason = (\<lambda>(j, phase).
     if held_by phase me \<and> is_running o' (job_id j)
     then map_option (\<lambda>lease. Reclaim (job_id j) lease reason) (phase_lease phase)
     else None)"

definition heartbeat_of :: "key32 \<Rightarrow> host_offer \<Rightarrow> job \<times> lease_phase \<Rightarrow> worker_action option" where
  "heartbeat_of me o' = (\<lambda>(j, phase).
     case phase of
       Held _ lease _ _ last_seen _ \<Rightarrow>
         if held_by phase me
         then
           (case job_lease_terms j of
              None \<Rightarrow> None
            | Some terms \<Rightarrow>
                if ho_now_ms o' \<ge> sat_add last_seen (heartbeat_ms terms)
                then Some (Heartbeat (job_id j) lease) else None)
         else None
     | _ \<Rightarrow> None)"

definition is_mine :: "key32 \<Rightarrow> job \<times> lease_phase \<Rightarrow> bool" where
  "is_mine me = (\<lambda>(j, phase).
     case phase of
       Unleased \<Rightarrow> (case job_state j of Claimed w \<Rightarrow> w = me | _ \<Rightarrow> False)
     | _ \<Rightarrow> held_by phase me)"

definition execute_of :: "key32 \<Rightarrow> host_offer \<Rightarrow> job \<times> lease_phase \<Rightarrow> worker_action option" where
  "execute_of me o' = (\<lambda>(j, phase).
     if is_mine me (j, phase) \<and> \<not> is_running o' (job_id j) \<and> can_run o' j
     then Some (Execute (job_id j)) else None)"

definition grant_of :: "key32 \<Rightarrow> host_offer \<Rightarrow> job \<times> lease_phase \<Rightarrow> worker_action option" where
  "grant_of me o' = (\<lambda>(j, phase).
     case open_epoch phase of
       None \<Rightarrow> None
     | Some n \<Rightarrow>
         (case job_lease_terms j of
            None \<Rightarrow> None
          | Some terms \<Rightarrow>
              if next_holder j (ho_now_ms o') = Some me \<and> can_run o' j
              then Some (Grant (job_id j) n (ho_now_ms o') (sat_add (ho_now_ms o') (max_duration_ms terms)))
              else None))"

definition claim_of :: "key32 \<Rightarrow> host_offer \<Rightarrow> job \<times> lease_phase \<Rightarrow> worker_action option" where
  "claim_of me o' = (\<lambda>(j, phase).
     if \<not> can_run o' j then None
     else if (case phase of
                Unleased \<Rightarrow> job_state j = Posted
              | _ \<Rightarrow> open_epoch phase \<noteq> None \<and> \<not> has_claimed j me)
     then Some (Claim (job_id j)) else None)"

definition job_phases :: "job_board \<Rightarrow> host_offer \<Rightarrow> (job \<times> lease_phase) list" where
  "job_phases b o' = map (\<lambda>j. (j, lease_at j (ho_now_ms o') (ho_lease o'))) (bt_values (board_jobs b))"

definition next_action :: "job_board \<Rightarrow> key32 \<Rightarrow> host_offer \<Rightarrow> worker_action" where
  "next_action b me o' =
     (let phases = job_phases b o'
      in (case (case must_stop o' of
                  None \<Rightarrow> None
                | Some reason \<Rightarrow> first_some (reclaim_of me o' reason) phases) of
            Some a \<Rightarrow> a
          | None \<Rightarrow>
         (case first_some (heartbeat_of me o') phases of
            Some a \<Rightarrow> a
          | None \<Rightarrow>
         (case first_some (execute_of me o') phases of
            Some a \<Rightarrow> a
          | None \<Rightarrow>
              if \<not> accepting o' then Idle
              else
         (case first_some (grant_of me o') phases of
            Some a \<Rightarrow> a
          | None \<Rightarrow>
         (case first_some (claim_of me o') phases of
            Some a \<Rightarrow> a
          | None \<Rightarrow> Idle))))))"

section \<open>Reading a decision\<close>

lemma first_some_Some: "first_some f xs = Some y \<Longrightarrow> \<exists>x \<in> set xs. f x = Some y"
  by (induction xs) (auto split: option.splits)

lemma first_some_None: "first_some f xs = None \<longleftrightarrow> (\<forall>x \<in> set xs. f x = None)"
  by (induction xs) (auto split: option.splits)

lemma job_phases_mem:
  "(j, phase) \<in> set (job_phases b o') \<longleftrightarrow>
     j \<in> set (bt_values (board_jobs b)) \<and> phase = lease_at j (ho_now_ms o') (ho_lease o')"
  by (auto simp: job_phases_def)

lemma offer_at_simps [simp]:
  "must_stop (offer_at t o') = must_stop o'" "accepting (offer_at t o') = accepting o'"
  "is_running (offer_at t o') = is_running o'" "ho_now_ms (offer_at t o') = t"
  "ho_lease (offer_at t o') = ho_lease o'" "ho_running (offer_at t o') = ho_running o'"
  by (auto simp: offer_at_def must_stop_def accepting_def is_running_def)

lemma can_run_at [simp]: "can_run (offer_at t o') = can_run o'"
  by (rule ext) (simp add: can_run_def offer_at_def cong: option.case_cong)

lemmas rule_defs = reclaim_of_def heartbeat_of_def execute_of_def grant_of_def claim_of_def

text \<open>The kind of action each rule can give.\<close>

lemma rule_kinds:
  "reclaim_of me o' reason x = Some a \<Longrightarrow> \<exists>i l. a = Reclaim i l reason"
  "heartbeat_of me o' x = Some a \<Longrightarrow> \<exists>i l. a = Heartbeat i l"
  "execute_of me o' x = Some a \<Longrightarrow> \<exists>i. a = Execute i"
  "grant_of me o' x = Some a \<Longrightarrow> \<exists>i n s t. a = Grant i n s t"
  "claim_of me o' x = Some a \<Longrightarrow> \<exists>i. a = Claim i"
  by (cases x; auto simp: rule_defs split: if_splits option.splits lease_phase.splits)+

lemma first_kinds:
  "first_some (reclaim_of me o' reason) xs = Some a \<Longrightarrow> \<exists>i l. a = Reclaim i l reason"
  "first_some (heartbeat_of me o') xs = Some a \<Longrightarrow> \<exists>i l. a = Heartbeat i l"
  "first_some (execute_of me o') xs = Some a \<Longrightarrow> \<exists>i. a = Execute i"
  "first_some (grant_of me o') xs = Some a \<Longrightarrow> \<exists>i n s t. a = Grant i n s t"
  "first_some (claim_of me o') xs = Some a \<Longrightarrow> \<exists>i. a = Claim i"
  by (blast dest!: first_some_Some dest: rule_kinds)+

lemma next_action_Grant:
  assumes "next_action b me o' = Grant i n s t"
  shows "accepting o' \<and> first_some (grant_of me o') (job_phases b o') = Some (Grant i n s t)"
  using assms unfolding next_action_def Let_def
  by (auto split: option.splits if_splits dest!: first_kinds)

lemma next_action_Claim:
  assumes "next_action b me o' = Claim i"
  shows "accepting o' \<and> first_some (claim_of me o') (job_phases b o') = Some (Claim i)"
  using assms unfolding next_action_def Let_def
  by (auto split: option.splits if_splits dest!: first_kinds)

lemma next_action_Execute:
  assumes "next_action b me o' = Execute i"
  shows "first_some (execute_of me o') (job_phases b o') = Some (Execute i)"
  using assms unfolding next_action_def Let_def
  by (auto split: option.splits if_splits dest!: first_kinds)

lemma next_action_Heartbeat:
  assumes "next_action b me o' = Heartbeat i l"
  shows "first_some (heartbeat_of me o') (job_phases b o') = Some (Heartbeat i l)"
  using assms unfolding next_action_def Let_def
  by (auto split: option.splits if_splits dest!: first_kinds)

lemma next_action_Reclaim:
  assumes "next_action b me o' = Reclaim i l r"
  shows "must_stop o' = Some r \<and> first_some (reclaim_of me o' r) (job_phases b o') = Some (Reclaim i l r)"
proof -
  obtain s where "must_stop o' = Some s"
    "first_some (reclaim_of me o' s) (job_phases b o') = Some (Reclaim i l r)"
    using assms unfolding next_action_def Let_def
    by (auto split: option.splits if_splits dest!: first_kinds(2-))
  with first_kinds(1) [OF this(2)] show ?thesis by auto
qed

text \<open>A live lease of this device on a job of the board, as of the offer's clock.\<close>

definition holds :: "job_board \<Rightarrow> key32 \<Rightarrow> host_offer \<Rightarrow> job \<Rightarrow> key32 \<Rightarrow> bool" where
  "holds b me o' j l \<longleftrightarrow>
     j \<in> set (bt_values (board_jobs b))
     \<and> (\<exists>n x seen p. lease_at j (ho_now_ms o') (ho_lease o') = Held n l me x seen p)"

lemma held_by_Held: "held_by phase me \<longleftrightarrow> (\<exists>n l x seen p. phase = Held n l me x seen p)"
  by (cases phase) auto

lemma reclaim_of_Some:
  "reclaim_of me o' r (j, phase) = Some a \<longleftrightarrow>
     is_running o' (job_id j) \<and> (\<exists>n l x seen p. phase = Held n l me x seen p \<and> a = Reclaim (job_id j) l r)"
  by (auto simp: reclaim_of_def held_by_Held)

lemma heartbeat_of_Some:
  "heartbeat_of me o' (j, phase) = Some a \<longleftrightarrow>
     (\<exists>n l x seen p terms. phase = Held n l me x seen p \<and> job_lease_terms j = Some terms
        \<and> sat_add seen (heartbeat_ms terms) \<le> ho_now_ms o' \<and> a = Heartbeat (job_id j) l)"
  by (cases phase) (auto simp: heartbeat_of_def split: option.splits)

lemma grant_of_Some:
  "grant_of me o' (j, phase) = Some a \<longleftrightarrow>
     (\<exists>n terms. open_epoch phase = Some n \<and> job_lease_terms j = Some terms
        \<and> next_holder j (ho_now_ms o') = Some me \<and> can_run o' j
        \<and> a = Grant (job_id j) n (ho_now_ms o') (sat_add (ho_now_ms o') (max_duration_ms terms)))"
  by (auto simp: grant_of_def split: option.splits)

text \<open>
  When an action is due, said of the board, the device and the offer without reference to the
  order in which the worker looks for one.
\<close>

definition action_due :: "job_board \<Rightarrow> key32 \<Rightarrow> host_offer \<Rightarrow> worker_action \<Rightarrow> bool" where
  "action_due b me o' a =
     (let now = ho_now_ms o'; jobs = set (bt_values (board_jobs b));
          phase = (\<lambda>j. lease_at j now (ho_lease o'))
      in (case a of
        Reclaim i l r \<Rightarrow>
          must_stop o' = Some r \<and> is_running o' i \<and> (\<exists>j. holds b me o' j l \<and> job_id j = i)
      | Heartbeat i l \<Rightarrow>
          (\<exists>j \<in> jobs. job_id j = i
             \<and> (\<exists>n x seen p terms. phase j = Held n l me x seen p \<and> job_lease_terms j = Some terms
                  \<and> sat_add seen (heartbeat_ms terms) \<le> now))
      | Execute i \<Rightarrow>
          \<not> is_running o' i
          \<and> (\<exists>j \<in> jobs. job_id j = i \<and> can_run o' j
              \<and> (if job_lease_terms j = None then job_state j = Claimed me else (\<exists>l. holds b me o' j l)))
      | Grant i n s t \<Rightarrow>
          accepting o' \<and> s = now
          \<and> (\<exists>j \<in> jobs. job_id j = i \<and> can_run o' j \<and> next_holder j now = Some me
              \<and> open_epoch (phase j) = Some n
              \<and> (\<exists>terms. job_lease_terms j = Some terms \<and> t = sat_add now (max_duration_ms terms)))
      | Claim i \<Rightarrow>
          accepting o'
          \<and> (\<exists>j \<in> jobs. job_id j = i \<and> can_run o' j
              \<and> (if job_lease_terms j = None then job_state j = Posted
                 else open_epoch (phase j) \<noteq> None \<and> \<not> has_claimed j me))
      | Idle \<Rightarrow> True))"

fun action_rank :: "worker_action \<Rightarrow> nat" where
  "action_rank (Reclaim _ _ _) = 0"
| "action_rank (Heartbeat _ _) = 1"
| "action_rank (Execute _) = 2"
| "action_rank (Grant _ _ _ _) = 3"
| "action_rank (Claim _) = 4"
| "action_rank Idle = 5"

lemma phase_Unleased: "lease_at j t p = Unleased \<longleftrightarrow> job_lease_terms j = None"
  by (auto simp: lease_at_def phase_at_def phase_of_epoch_cases split: option.splits)

lemma is_mine_iff:
  "is_mine me (j, lease_at j t p) \<longleftrightarrow>
     (if job_lease_terms j = None then job_state j = Claimed me else held_by (lease_at j t p) me)"
  using phase_Unleased [of j t p]
  by (cases "lease_at j t p") (auto simp: is_mine_def split: job_state.splits)

lemma execute_of_iff:
  "execute_of me o' (j, lease_at j t p) = Some a \<longleftrightarrow>
     a = Execute (job_id j) \<and> \<not> is_running o' (job_id j) \<and> can_run o' j
     \<and> (if job_lease_terms j = None then job_state j = Claimed me else held_by (lease_at j t p) me)"
  by (auto simp: execute_of_def is_mine_iff)

lemma ex_holds:
  "j \<in> set (bt_values (board_jobs b)) \<Longrightarrow>
     (\<exists>l. holds b me o' j l) \<longleftrightarrow> held_by (lease_at j (ho_now_ms o') (ho_lease o')) me"
  by (auto simp: holds_def held_by_Held)

lemma claim_of_iff:
  "claim_of me o' (j, lease_at j t p) = Some a \<longleftrightarrow>
     a = Claim (job_id j) \<and> can_run o' j
     \<and> (if job_lease_terms j = None then job_state j = Posted
        else open_epoch (lease_at j t p) \<noteq> None \<and> \<not> has_claimed j me)"
  using phase_Unleased [of j t p]
  by (cases "lease_at j t p") (auto simp: claim_of_def)

lemma ex_phases:
  "(\<exists>x \<in> set (job_phases b o'). P x) \<longleftrightarrow>
     (\<exists>j \<in> set (bt_values (board_jobs b)). P (j, lease_at j (ho_now_ms o') (ho_lease o')))"
  by (auto simp: job_phases_def)

text \<open>An action is due exactly when its rule gives it for a job of the board.\<close>

lemma due_iff_rule:
  "action_due b me o' (Reclaim i l r) \<longleftrightarrow>
     must_stop o' = Some r \<and> (\<exists>x \<in> set (job_phases b o'). reclaim_of me o' r x = Some (Reclaim i l r))"
  "action_due b me o' (Heartbeat i l) \<longleftrightarrow>
     (\<exists>x \<in> set (job_phases b o'). heartbeat_of me o' x = Some (Heartbeat i l))"
  "action_due b me o' (Execute i) \<longleftrightarrow>
     (\<exists>x \<in> set (job_phases b o'). execute_of me o' x = Some (Execute i))"
  "action_due b me o' (Grant i n s t) \<longleftrightarrow>
     accepting o' \<and> (\<exists>x \<in> set (job_phases b o'). grant_of me o' x = Some (Grant i n s t))"
  "action_due b me o' (Claim i) \<longleftrightarrow>
     accepting o' \<and> (\<exists>x \<in> set (job_phases b o'). claim_of me o' x = Some (Claim i))"
proof -
  show "action_due b me o' (Reclaim i l r) \<longleftrightarrow>
     must_stop o' = Some r \<and> (\<exists>x \<in> set (job_phases b o'). reclaim_of me o' r x = Some (Reclaim i l r))"
    by (auto simp: action_due_def Let_def holds_def ex_phases reclaim_of_Some)
  show "action_due b me o' (Heartbeat i l) \<longleftrightarrow>
     (\<exists>x \<in> set (job_phases b o'). heartbeat_of me o' x = Some (Heartbeat i l))"
    by (simp add: action_due_def Let_def ex_phases heartbeat_of_Some) blast
  show "action_due b me o' (Execute i) \<longleftrightarrow>
     (\<exists>x \<in> set (job_phases b o'). execute_of me o' x = Some (Execute i))"
    unfolding action_due_def Let_def ex_phases execute_of_iff worker_action.case
    by (auto simp: ex_holds)
  show "action_due b me o' (Grant i n s t) \<longleftrightarrow>
     accepting o' \<and> (\<exists>x \<in> set (job_phases b o'). grant_of me o' x = Some (Grant i n s t))"
    by (simp add: action_due_def Let_def ex_phases grant_of_Some) blast
  show "action_due b me o' (Claim i) \<longleftrightarrow>
     accepting o' \<and> (\<exists>x \<in> set (job_phases b o'). claim_of me o' x = Some (Claim i))"
    by (auto simp: action_due_def Let_def ex_phases claim_of_iff)
qed

lemma next_action_due: "action_due b me o' (next_action b me o')"
proof (cases "next_action b me o'")
  case (Reclaim i l r)
  then show ?thesis
    by (auto simp: due_iff_rule dest!: next_action_Reclaim intro: first_some_Some)
next
  case Idle
  then show ?thesis by (simp add: action_due_def Let_def)
qed (auto simp: due_iff_rule dest!: next_action_Heartbeat next_action_Execute next_action_Grant
    next_action_Claim intro: first_some_Some)

lemma next_action_first:
  assumes "action_due b me o' a"
  shows "action_rank (next_action b me o') \<le> action_rank a"
proof -
  have some: "\<exists>c. first_some f (job_phases b o') = Some c"
    if "\<exists>x \<in> set (job_phases b o'). f x = Some c" for f :: "job \<times> lease_phase \<Rightarrow> worker_action option" and c
    using that first_some_None [of f] by fastforce
  have rank: "first_some (reclaim_of me o' r) xs = Some c \<Longrightarrow> action_rank c = 0"
    "first_some (heartbeat_of me o') xs = Some c \<Longrightarrow> action_rank c = 1"
    "first_some (execute_of me o') xs = Some c \<Longrightarrow> action_rank c = 2"
    "first_some (grant_of me o') xs = Some c \<Longrightarrow> action_rank c = 3"
    "first_some (claim_of me o') xs = Some c \<Longrightarrow> action_rank c = 4" for r xs c
    by (auto dest!: first_kinds)
  show ?thesis
    using assms unfolding next_action_def Let_def
    by (cases a) (auto simp: due_iff_rule dest!: some split: option.splits dest: rank)
qed

text \<open>
  C27. The worker's decision is due, and nothing due outranks it. A reclaim names a run under a
  lease this device holds now, while the owner wants the device back; a heartbeat one whose
  last word is a heartbeat interval old; the start of a job one this device holds or, without
  lease terms, whose claim it won, that is not running yet; a grant the open epoch of a job
  whose claim race this device has won, from now for as long as the posted terms allow; a claim
  an open job this device has not claimed for that epoch. Grants and claims need a device that
  accepts new work, and these and starts one that can run the job. Reclaims come before
  heartbeats, then starts, grants and claims; the device idles only when none of them is due.
\<close>

theorem decision_keeps_contract:
  "action_due b me o' (next_action b me o')
   \<and> (\<forall>a. action_due b me o' a \<longrightarrow> action_rank (next_action b me o') \<le> action_rank a)"
  using next_action_due next_action_first by blast

text \<open>The leased job of the demonstration mesh while device 2 holds epoch 0.\<close>

definition demo_held :: job_board where
  "demo_held =
     board_fold (demo_p2panda demo_leases) demo_ed25519 7 [demo_op 1 5 0, demo_op 2 10 1, demo_op 2 11 2]"

definition demo_held_job :: job where
  "demo_held_job =
     demo_job\<lparr>job_state := Claimed 2,
       job_lease := [(hd demo_epochs)\<lparr>ep_end := None\<rparr>], job_next_claimants := []\<rparr>"

lemma demo_held_eval: "board_jobs demo_held = [(5, demo_held_job)]"
  by (simp add: demo_held_def demo_held_job_def demo_job_def demo_epochs_def demo_defs demo_leases_def
      gather_eval resolve_eval chain_eval)

lemma demo_held_phase:
  "lease_at demo_held_job 500 lease_policy_default = Held 0 11 2 5000 30 lease_progress_default"
  by (simp add: demo_held_job_def demo_job_def demo_epochs_def lease_at_def phase_at_def
      phase_of_epoch_def job_lease_terms_def lapse_at_def sat_add_def silence_window_ms_def sat_mul_def
      lease_policy_default_def lease_terms_new_def)

lemma demo_held_id [simp]: "job_id demo_held_job = 5"
  by (simp add: demo_held_job_def demo_job_def)

definition demo_offer :: "job_id list \<Rightarrow> host_offer" where
  "demo_offer running =
     offer_running running
       (offer_observing (conditions_in_use conditions_spare)
         (offer_at 500 (offer_new [(ResourceId ''mesh.echo/v1'', echo_resource)]
            \<lparr>hf_memory_mib = 1024, hf_gpu = False\<rparr> policy_conservative)))"

lemmas offer_defs = demo_offer_def offer_running_def offer_observing_def offer_at_def offer_new_def

lemma demo_offer_stop: "must_stop (demo_offer running) = Some ForegroundActivity"
  by (simp add: offer_defs must_stop_def withholding_def policy_conservative_def conditions_in_use_def)

lemma demo_offer_holds: "holds demo_held 2 (demo_offer running) demo_held_job 11"
  by (simp add: holds_def demo_held_eval bt_values_def offer_defs demo_held_phase)

theorem decision_keeps_contract_witness:
  "action_due demo_held 2 (demo_offer [5]) (Reclaim 5 11 ForegroundActivity)
   \<and> action_rank (next_action demo_held 2 (demo_offer [5])) = 0"
proof -
  have "action_due demo_held 2 (demo_offer [5]) (Reclaim 5 11 ForegroundActivity)"
    using demo_offer_stop [of "[5]"] demo_offer_holds [of "[5]"] demo_held_id
    by (auto simp: action_due_def Let_def is_running_def offer_defs)
  then show ?thesis
    using decision_keeps_contract [of demo_held 2 "demo_offer [5]"] by fastforce
qed





text \<open>
  Device 2 takes the job for 100 seconds and falls silent; device 3 claims it at some time after
  the silence has passed the miss allowance and the tolerated skew.
\<close>

definition demo_silent_events :: "u64 \<Rightarrow> mesh_event list" where
  "demo_silent_events t =
     [JobPostedV2 demo_spec 0 10, JobClaimed 5 20, LeaseGranted 5 0 30 100030, JobClaimed 5 t]"

definition demo_silent :: "u64 \<Rightarrow> demo_header operation list \<Rightarrow> job_board" where
  "demo_silent t claims =
     board_fold (demo_p2panda (demo_silent_events t)) demo_ed25519 7
       ([demo_op 1 5 0, demo_op 2 10 1, demo_op 2 11 2] @ claims)"

definition demo_silent_job :: job where
  "demo_silent_job =
     demo_held_job\<lparr>job_lease := [(hd demo_epochs)\<lparr>ep_expires_at_ms := 100030, ep_end := None\<rparr>]\<rparr>"

lemma demo_silent_eval:
  "board_jobs (demo_silent t []) = [(5, demo_silent_job)]"
  "t < 100030 \<Longrightarrow> board_jobs (demo_silent t [demo_op 3 12 3]) = [(5, demo_silent_job)]"
  by (simp_all add: demo_silent_def demo_silent_job_def demo_held_job_def demo_job_def demo_epochs_def
      demo_defs demo_silent_events_def gather_eval resolve_eval chain_eval not_le)

definition demo_free_offer :: "u64 \<Rightarrow> host_offer" where
  "demo_free_offer now = offer_at now (offer_observing conditions_spare (demo_offer []))"

lemma demo_silent_phase:
  assumes "63030 \<le> now" "now < 160030"
  shows "lease_at demo_silent_job now lease_policy_default = Lapsed 0 11 2 HeartbeatSilence"
proof -
  have "30 \<le> now"
    by (rule order_trans [OF _ assms(1)]) simp
  then have "30 \<le> sat_add now 60000"
    using le_sat_add1 by (rule order_trans)
  moreover have "sat_add 30 3000 = 3030" "sat_add 3030 60000 = 63030" "sat_add 100030 60000 = 160030"
    "sat_mul 1000 3 = 3000"
    by (simp_all add: sat_add_def sat_mul_def)
  ultimately show ?thesis
    using assms
    by (simp add: demo_silent_job_def demo_held_job_def demo_job_def demo_epochs_def lease_at_def
        phase_at_def phase_of_epoch_def job_lease_terms_def lapse_at_def silence_window_ms_def
        lease_policy_default_def lease_terms_new_def not_le)
qed

text \<open>
  C39. A claim made after a lease lapsed by silence, and before its signed expiry, can be
  forgotten. On the demonstration mesh the lease of device 2 has lapsed from 63030 on and
  expires at 100030. At every time in between, device 3 is told to claim the job; its claim,
  made at any of these times, leaves the board with exactly the same job; and from then on,
  until the expiry has passed by the tolerated skew, every decision on that board is to claim
  the job again. The lapsed epoch counts as open from the silence on, but only claims from its
  expiry on count for the next epoch.
\<close>

theorem claim_after_silence_repeats:
  assumes "63030 \<le> t" "t < 100030" "t \<le> t'" "t' < 160030"
  shows "next_action (demo_silent t []) 3 (demo_free_offer t) = Claim 5
   \<and> board_jobs (demo_silent t [demo_op 3 12 3]) = board_jobs (demo_silent t [])
   \<and> next_action (demo_silent t [demo_op 3 12 3]) 3 (demo_free_offer t') = Claim 5"
proof -
  have lease: "ho_lease (demo_free_offer t) = lease_policy_default" "ho_now_ms (demo_free_offer t) = t"
    "must_stop (demo_free_offer t) = None" "accepting (demo_free_offer t)" for t
    by (simp_all add: demo_free_offer_def offer_defs must_stop_def accepting_def withholding_def
        policy_conservative_def conditions_spare_def at_capacity_def quiet_contains_def
        less_network_class_def)
  have "can_run (demo_free_offer 0) demo_silent_job"
    by code_simp
  then have run: "can_run (demo_free_offer t) demo_silent_job" for t
    by (simp add: demo_free_offer_def)
  have job: "job_id demo_silent_job = 5" "job_next_claimants demo_silent_job = []"
    "job_lease_terms demo_silent_job = Some (lease_terms_new 100000 1000)"
    by (simp_all add: demo_silent_job_def demo_held_job_def demo_job_def job_lease_terms_def)
  have claim: "next_action b 3 (demo_free_offer now) = Claim 5"
    if "63030 \<le> now" "now < 160030" "board_jobs b = [(5, demo_silent_job)]" for b now
    using run demo_silent_phase [OF that(1,2)]
    by (simp add: next_action_def job_phases_def that(3) bt_values_def lease heartbeat_of_def
        execute_of_def is_mine_def grant_of_def claim_of_def job next_holder_def has_claimed_def)
  have "63030 \<le> t'" "t < 160030"
    using assms by order+
  then show ?thesis
    using claim assms demo_silent_eval by simp
qed

theorem claim_after_silence_repeats_witness:
  "next_action (demo_silent 70000 [demo_op 3 12 3]) 3 (demo_free_offer 71000) = Claim 5"
  using claim_after_silence_repeats [of 70000 71000] by simp

section \<open>When a device withholds itself\<close>

text \<open>Quiet hours are a stretch of the clock face that begins at the start hour.\<close>

lemma quiet_contains_circular:
  assumes "unat (qh_start q) < 24" "unat (qh_end q) < 24" "unat hour < 24"
  shows "quiet_contains q hour \<longleftrightarrow>
    qh_start q = qh_end q
    \<or> (unat hour + 24 - unat (qh_start q)) mod 24 < (unat (qh_end q) + 24 - unat (qh_start q)) mod 24"
proof -
  have eq: "qh_start q = qh_end q \<longleftrightarrow> unat (qh_start q) = unat (qh_end q)"
    by (simp add: word_unat_eq_iff)
  have face: "(x + 24 - s) mod 24 = (if s \<le> x then x - s else x + 24 - s)" if "x < 24" "s < 24" for x s :: nat
  proof (cases "s \<le> x")
    case True
    then have "x + 24 - s = x - s + 24" by simp
    with True that show ?thesis by (simp only: mod_add_self2 if_True) simp
  qed (use that in simp)
  show ?thesis
    using assms by (auto simp: quiet_contains_def eq word_le_nat_alt word_less_nat_alt face)
qed

text \<open>
  A device lends itself exactly when every condition its owner set is met: idle for long
  enough, charged or on mains, below the thermal ceiling and the bandwidth ceiling where one is
  set, on a link no worse than the floor, and outside the quiet hours, which run around the
  clock face from the start hour to the end hour, midnight included.
\<close>

theorem withholding_exact:
  assumes "unat (dc_local_hour c) < 24"
    and "\<And>q. dp_quiet_hours p = Some q \<Longrightarrow> unat (qh_start q) < 24 \<and> unat (qh_end q) < 24"
  shows "withholding p c = None \<longleftrightarrow>
     dp_min_idle_ms p \<le> dc_idle_ms c
     \<and> (dc_on_mains c \<or> dp_min_battery_pct p \<le> dc_battery_pct c)
     \<and> (dp_max_thermal_c p = 0 \<or> dc_thermal_c c < dp_max_thermal_c p)
     \<and> dp_min_network p \<le> dc_network c
     \<and> (dp_max_bandwidth_in_use_kbps p = 0 \<or> dc_bandwidth_in_use_kbps c < dp_max_bandwidth_in_use_kbps p)
     \<and> (case dp_quiet_hours p of
          None \<Rightarrow> True
        | Some q \<Rightarrow>
            qh_start q \<noteq> qh_end q
            \<and> (unat (qh_end q) + 24 - unat (qh_start q)) mod 24
                \<le> (unat (dc_local_hour c) + 24 - unat (qh_start q)) mod 24)"
  using assms quiet_contains_circular [of _ "dc_local_hour c"]
  by (auto simp: withholding_def not_less not_le word_neq_0_conv split: option.splits)

theorem withholding_exact_witness:
  "withholding policy_conservative (conditions_spare\<lparr>dc_local_hour := 23\<rparr>) \<noteq> None
   \<and> withholding policy_conservative conditions_spare = None"
  using withholding_exact [of "conditions_spare\<lparr>dc_local_hour := 23\<rparr>" policy_conservative]
    withholding_exact [of conditions_spare policy_conservative]
  by (simp add: conditions_spare_def policy_conservative_def less_eq_network_class_def)

end
