(* ===== verification/Mesh_Progress.thy ===== *)
theory Mesh_Progress
  imports Mesh_Worker "HOL-Library.Multiset"
begin

text \<open>
  The worker and the board together: what the worker proposes is what the fold accepts. A
  proposed grant, once authored, becomes the job's next lease epoch on every replica; and a
  device alone on its mesh goes from a posted job to its execution by following its own
  decisions.
\<close>

section \<open>A grant added to the gathered ones\<close>

lemma mset_bt_insert:
  "bt_get m k = None \<Longrightarrow> mset (bt_values (bt_insert k v m)) = add_mset v (mset (bt_values m))"
  unfolding bt_values_def bt_get_def
  by (induction k v m rule: bt_insert.induct) (auto split: if_splits)

definition grant_key :: "grant_fact \<Rightarrow> u32 \<times> u64 \<times> key32" where
  "grant_key gr = (gf_epoch gr, gf_granted_at_ms gr, gf_operation gr)"

lemma pending_grants_key: "pending_grants g = sort_key grant_key (bt_values (gl_grants g))"
  by (simp add: pending_grants_def grant_key_def [abs_def])

text \<open>The grants of a job carry the hash they are stored under.\<close>

definition grants_keyed :: "(key32, grant_fact) btmap \<Rightarrow> bool" where
  "grants_keyed m \<longleftrightarrow> bt_inv m \<and> (\<forall>k f. bt_get m k = Some f \<longrightarrow> gf_operation f = k)"

lemma grants_keyed_inj: "grants_keyed m \<Longrightarrow> inj_on grant_key (set (bt_values m))"
  by (rule inj_onI) (auto simp: grants_keyed_def grant_key_def bt_values_nth)

lemma grants_keyed_insert:
  "grants_keyed m \<Longrightarrow> gf_operation gr = k \<Longrightarrow> grants_keyed (bt_insert k gr m)"
  by (auto simp: grants_keyed_def bt_get_insert)

lemma sorted_key_split:
  "sorted (map f xs) \<Longrightarrow> xs = filter (\<lambda>x. f x < (c :: 'a :: linorder)) xs @ filter (\<lambda>x. \<not> f x < c) xs"
proof (induction xs)
  case (Cons x xs)
  show ?case
  proof (cases "f x < c")
    case False
    with Cons.prems have "filter (\<lambda>x. f x < c) xs = []" "filter (\<lambda>x. \<not> f x < c) xs = xs"
      by (auto simp: filter_empty_conv filter_id_conv)
    with False show ?thesis by simp
  qed (use Cons in auto)
qed simp

lemma pending_grants_insert:
  assumes "grants_keyed (gl_grants g)" "bt_get (gl_grants g) k = None" "gf_operation gr = k"
  obtains xs ys where "pending_grants g = xs @ ys"
    "pending_grants (g\<lparr>gl_grants := bt_insert k gr (gl_grants g)\<rparr>) = xs @ gr # ys"
    "\<forall>y \<in> set ys. gf_epoch gr \<le> gf_epoch y"
proof -
  let ?p = "pending_grants g" and ?c = "grant_key gr"
  let ?xs = "filter (\<lambda>x. grant_key x < ?c) ?p" and ?ys = "filter (\<lambda>x. \<not> grant_key x < ?c) ?p"
  have sorted: "sorted (map grant_key ?p)"
    by (simp add: pending_grants_key)
  have split: "?p = ?xs @ ?ys"
    using sorted_key_split [OF sorted] .
  have "sorted (map grant_key (?xs @ gr # ?ys))"
    using sorted by (auto simp: sorted_append sorted_map intro!: sorted_wrt_filter)
  moreover have "mset (bt_values (bt_insert k gr (gl_grants g))) = mset (?xs @ gr # ?ys)"
    using arg_cong [OF split, of mset]
    by (simp add: mset_bt_insert [OF assms(2)]) (simp add: pending_grants_key)
  moreover have "inj_on grant_key (set (bt_values (bt_insert k gr (gl_grants g))))"
    by (intro grants_keyed_inj grants_keyed_insert assms)
  ultimately have "pending_grants (g\<lparr>gl_grants := bt_insert k gr (gl_grants g)\<rparr>) = ?xs @ gr # ?ys"
    by (simp add: pending_grants_key sort_key_inj_key_eq)
  moreover have "\<forall>y \<in> set ?ys. gf_epoch gr \<le> gf_epoch y"
    by (auto simp: grant_key_def not_less less_eq_prod_def)
  ultimately show thesis using that split by blast
qed

text \<open>Resolution only appends, so what is resolved stays.\<close>

lemma resolve_step_append: "\<exists>t. resolve_step g terms w gr r = r @ t"
  by (simp add: resolve_step_def push_epoch_def apply_facts_snoc)

lemma fold_resolve_append: "\<exists>t. fold (resolve_step g terms w) grs r = r @ t"
proof (induction grs arbitrary: r)
  case (Cons gr grs)
  obtain t where "resolve_step g terms w gr r = r @ t"
    using resolve_step_append by blast
  with Cons [of "r @ t"] show ?case by auto
qed simp

text \<open>Grants for epochs that do not exist yet change nothing.\<close>

lemma fold_resolve_later:
  assumes "fold (resolve_step g terms w) grs r0 = r" "chain_ok terms r0"
    "length r < 2 ^ 32" "\<forall>y \<in> set grs. of_nat (length r) \<le> gf_epoch y"
  shows "r0 = r"
  using assms
proof (induction grs)
  case (Cons gr grs)
  show ?case
  proof (cases "grant_admissible r0 terms w gr")
    case True
    then have "gf_epoch gr = of_nat (length r0)"
      by (auto simp: grant_admissible_def accepts_grant_def split: option.splits
          dest: chain_next_epoch [OF Cons.prems(2)])
    then have le: "(of_nat (length r) :: u32) \<le> of_nat (length r0)"
      using Cons.prems(4) by simp
    obtain t where "r = resolve_step g terms w gr r0 @ t"
      using Cons.prems(1) fold_resolve_append [of g terms w grs "resolve_step g terms w gr r0"] by auto
    with True have "length r0 < length r"
      by (simp add: resolve_step_def push_epoch_def apply_facts_snoc)
    with le Cons.prems(3) have False
      by (simp add: word_le_nat_alt unat_of_nat)
    then show ?thesis ..
  qed (use Cons in \<open>simp add: resolve_step_def\<close>)
qed simp

lemma leases_resolve_insert:
  assumes "grants_keyed (gl_grants g)" "bt_get (gl_grants g) (gf_operation gr) = None" "facts_wf g"
    and r: "r = leases_resolve g [] terms w" "length r < 2 ^ 32" "grant_admissible r terms w gr"
  shows "\<exists>t. leases_resolve (g\<lparr>gl_grants := bt_insert (gf_operation gr) gr (gl_grants g)\<rparr>) [] terms w
    = r @ apply_to_epoch (bt_values (gl_facts g)) (epoch_of_grant gr) # t"
proof -
  let ?g = "g\<lparr>gl_grants := bt_insert (gf_operation gr) gr (gl_grants g)\<rparr>"
  have step: "resolve_step ?g = resolve_step g"
    by (intro ext) (simp add: resolve_step_def apply_facts_def)
  obtain xs ys where p: "pending_grants g = xs @ ys" "pending_grants ?g = xs @ gr # ys"
    and ys: "\<forall>y \<in> set ys. gf_epoch gr \<le> gf_epoch y"
    using pending_grants_insert [OF assms(1,2) refl] .
  define r1 where "r1 = fold (resolve_step g terms w) xs []"
  have chain: "chain_ok terms r1" "chain_ok terms r"
    unfolding r1_def r(1)
    by (rule fold_invariant [where Q = "\<lambda>_. True"],
        simp_all add: assms(3) resolve_step_chain_ok leases_resolve_chain_ok)
  have "gf_epoch gr = of_nat (length r)"
    using r(3) by (auto simp: grant_admissible_def accepts_grant_def split: option.splits
        dest: chain_next_epoch [OF chain(2)])
  then have "r1 = r"
    using fold_resolve_later [OF _ chain(1) r(2), of g w ys] ys r(1)
    by (simp add: leases_resolve_def p(1) r1_def)
  then have "leases_resolve ?g [] terms w
      = fold (resolve_step g terms w) ys (r @ [apply_to_epoch (bt_values (gl_facts g)) (epoch_of_grant gr)])"
    using r(3) by (simp add: leases_resolve_def p(2) step r1_def [symmetric])
      (simp add: resolve_step_def push_epoch_def apply_facts_snoc)
  then show ?thesis
    using fold_resolve_append by (metis append.assoc append_Cons append_Nil)
qed

section \<open>A proposed grant is admissible\<close>

lemma bt_values_board:
  "j \<in> set (bt_values (board_jobs (board_fold pp ed mesh ops))) \<Longrightarrow>
     board_job (board_fold pp ed mesh ops) (job_id j) = Some j"
proof -
  let ?s = "gathered pp ed mesh ops"
  assume "j \<in> set (bt_values (board_jobs (board_fold pp ed mesh ops)))"
  then obtain i post where "(i, post) \<in> set (g_posted ?s)" "j = resolve_job ?s i post"
    by (auto simp: bt_values_def board_fold_def fold_from_snapshot_def resolve_board_def gathered_def)
  moreover have "bt_inv (g_posted ?s)"
    by (intro gather_inv_maps gathered_inv_empty)
  moreover have "job_id (resolve_job ?s i post) = i"
    by (simp add: resolve_job_def Let_def)
  ultimately show ?thesis
    by (auto simp: board_job_iff present.simps bt_get_eq_iff_mem)
qed

lemma resolve_job_claimants:
  "js_lease sp = Some terms \<Longrightarrow> po_spec post = Some sp \<Longrightarrow>
   next_epoch (job_lease (resolve_job s i post)) = Some (n, since) \<Longrightarrow>
   job_next_claimants (resolve_job s i post) =
     map (\<lambda>c. \<lparr>cl_author = cf_author c, cl_at_ms = cf_at_ms c\<rparr>)
       (filter (\<lambda>c. cf_at_ms c \<ge> since) (bt_values (job_claims s i)))"
  by (simp add: resolve_job_def Let_def job_claims_def)

lemma resolve_job_no_claimants:
  "js_lease sp = Some terms \<Longrightarrow> po_spec post = Some sp \<Longrightarrow>
   next_epoch (job_lease (resolve_job s i post)) = None \<Longrightarrow>
   job_next_claimants (resolve_job s i post) = []"
  by (simp add: resolve_job_def Let_def)

text \<open>The next holder is the winner among the claims from the boundary on.\<close>

lemma next_holder_winner:
  assumes "js_lease sp = Some terms" "po_spec post = Some sp"
    and "next_holder (resolve_job s i post) now = Some me"
  obtains n since where "next_epoch (job_lease (resolve_job s i post)) = Some (n, since)"
    "claim_winner (job_claims s i) since now = Some me" "since \<le> now"
proof (cases "next_epoch (job_lease (resolve_job s i post))")
  case None
  with assms resolve_job_no_claimants show thesis by (simp add: next_holder_def)
next
  case (Some p)
  obtain n since where p: "p = (n, since)" by (cases p)
  have "claim_winner (job_claims s i) since now = Some me"
    using assms(3) resolve_job_claimants [OF assms(1,2)] Some p
    by (auto simp: next_holder_def claim_winner_def find_map find_filter comp_def option.map_comp)
  moreover from this have "since \<le> now"
    by (auto simp: claim_winner_def find_Some_iff)
  ultimately show thesis using that Some p by simp
qed

text \<open>The phase of a chain whose last boundary has passed speaks about its last epoch.\<close>

lemma open_epoch_next:
  assumes "chain_ok terms r" "next_epoch r = Some (m, since)" "since \<le> now"
    and "open_epoch (phase_at r (Some terms) now p) = Some n"
  shows "n = m"
proof (cases r rule: rev_cases)
  case Nil
  with assms(2,4) show ?thesis by (simp add: phase_at_def)
next
  case (snoc r' e)
  with assms(1,2) have e: "ep_granted_at_ms e \<le> since" "m = ep_epoch e + 1"
    by (auto simp: chain_ok_snoc next_epoch_snoc epoch_ok_def split: if_splits)
  then have "ep_granted_at_ms e \<le> sat_add now (max_skew_ms p)"
    using assms(3) le_sat_add1 [of now "max_skew_ms p"] by (blast intro: order_trans)
  with assms(4) snoc e(2) show ?thesis
    by (simp add: phase_at_def phase_of_epoch_open)
qed

lemma terms_duration:
  "spec_validate sp = Inr () \<Longrightarrow> js_lease sp = Some terms \<Longrightarrow> 0 < max_duration_ms terms"
  by (auto simp: spec_validate_def lease_terms_validate_def word_neq_0_conv
      split: sum.splits if_splits)

lemma sat_add_less: "t < - 1 \<Longrightarrow> 0 < d \<Longrightarrow> t < sat_add t d"
  by (simp add: word_less_nat_alt unat_sat_add unsigned_minus_1_eq_mask mask_eq_exp_minus_1)

lemma sat_add_diff: "sat_add t d - t \<le> d"
  using sat_add_window [of t d] le_sat_add1 [of t d] by (simp add: word_le_nat_alt unat_sub)

text \<open>A job of a folded board, with the posting and the facts behind it.\<close>

lemma board_job_posted:
  assumes "board_job (board_fold pp ed mesh ops) i = Some j" "job_lease_terms j = Some terms"
  obtains post sp where "present (WPosted i post) (gathered pp ed mesh ops)"
    "j = resolve_job (gathered pp ed mesh ops) i post" "po_spec post = Some sp"
    "js_lease sp = Some terms" "spec_validate sp = Inr ()"
proof -
  obtain post sp where p: "present (WPosted i post) (gathered pp ed mesh ops)"
    "j = resolve_job (gathered pp ed mesh ops) i post" "po_spec post = Some sp" "js_lease sp = Some terms"
    using assms by (auto simp: board_job_iff job_lease_terms_def Option.bind_eq_Some_conv)
  with gathered_said [OF p(1)] have "spec_validate sp = Inr ()"
    by (auto dest!: event_write_posted)
  with p that show thesis by blast
qed

lemma proposed_grant:
  assumes "next_action (board_fold pp ed mesh ops) me o' = Grant i n granted expires"
  obtains j terms where "board_job (board_fold pp ed mesh ops) i = Some j"
    "job_lease_terms j = Some terms" "next_holder j (ho_now_ms o') = Some me"
    "open_epoch (lease_at j (ho_now_ms o') (ho_lease o')) = Some n" "granted = ho_now_ms o'"
    "expires = sat_add (ho_now_ms o') (max_duration_ms terms)"
proof -
  obtain j phase where "(j, phase) \<in> set (job_phases (board_fold pp ed mesh ops) o')"
    "grant_of me o' (j, phase) = Some (Grant i n granted expires)"
    using next_action_Grant [OF assms] by (auto dest!: first_some_Some)
  then have "j \<in> set (bt_values (board_jobs (board_fold pp ed mesh ops)))"
    and "grant_of me o' (j, lease_at j (ho_now_ms o') (ho_lease o')) = Some (Grant i n granted expires)"
    by (simp_all add: job_phases_mem)
  then show thesis
    using that [of j] bt_values_board [of j pp ed mesh ops] by (auto simp only: grant_of_Some worker_action.inject)
qed

lemma proposed_grant_admissible:
  assumes "next_action (board_fold pp ed mesh ops) me o' = Grant i n granted expires"
    and "ho_now_ms o' < - 1"
  obtains j terms where "board_job (board_fold pp ed mesh ops) i = Some j"
    "job_lease_terms j = Some terms"
    "grant_admissible (job_lease j) terms (claim_winner (job_claims (gathered pp ed mesh ops) i))
      \<lparr>gf_operation = h, gf_author = me, gf_epoch = n, gf_granted_at_ms = granted, gf_expires_at_ms = expires\<rparr>"
proof -
  let ?now = "ho_now_ms o'"
  obtain j terms where j: "board_job (board_fold pp ed mesh ops) i = Some j"
    "job_lease_terms j = Some terms" "next_holder j ?now = Some me"
    "open_epoch (lease_at j ?now (ho_lease o')) = Some n" "granted = ?now"
    "expires = sat_add ?now (max_duration_ms terms)"
    using proposed_grant [OF assms(1)] .
  obtain post sp where p: "j = resolve_job (gathered pp ed mesh ops) i post" "po_spec post = Some sp"
    "js_lease sp = Some terms" "spec_validate sp = Inr ()"
    using board_job_posted [OF j(1,2)] .
  obtain m since where m: "next_epoch (job_lease j) = Some (m, since)"
    "claim_winner (job_claims (gathered pp ed mesh ops) i) since ?now = Some me" "since \<le> ?now"
    unfolding p(1) by (rule next_holder_winner [OF p(3,2) j(3) [unfolded p(1)]])
  have "n = m"
    using open_epoch_next [OF board_job_chain [OF j(1,2)] m(1,3)] j(2,4) by (simp add: lease_at_def)
  then have "grant_admissible (job_lease j) terms (claim_winner (job_claims (gathered pp ed mesh ops) i))
      \<lparr>gf_operation = h, gf_author = me, gf_epoch = n, gf_granted_at_ms = granted, gf_expires_at_ms = expires\<rparr>"
    using m sat_add_less [OF assms(2) terms_duration [OF p(4,3)]] sat_add_diff [of ?now "max_duration_ms terms"]
    by (simp add: grant_admissible_def accepts_grant_def j(5,6) not_le not_less)
  with j(1,2) that show thesis by blast
qed

section \<open>An authored grant becomes the next epoch\<close>

lemma gathered_snoc:
  assumes "says pp mesh x me (LeaseGranted i n granted expires)"
  shows "gathered pp ed mesh (ops @ [x]) =
    add_grant i (op_hash x)
      \<lparr>gf_operation = op_hash x, gf_author = me, gf_epoch = n, gf_granted_at_ms = granted,
       gf_expires_at_ms = expires\<rparr> (gathered pp ed mesh ops)"
  using assms by (simp add: gathered_def gather_op_def says_def)

lemma add_grant_reads:
  "job_claims (add_grant i k f s) = job_claims s"
  "g_posted (add_grant i k f s) = g_posted s" "g_retained (add_grant i k f s) = g_retained s"
  "job_facts (add_grant i k f s) i = (job_facts s i)\<lparr>gj_grants := bt_insert k f (gj_grants (job_facts s i))\<rparr>"
  by (auto simp: add_grant_def job_claims_def job_facts_def bt_get_entry fun_eq_iff)

lemma gathered_grants_keyed: "grants_keyed (gj_grants (job_facts (gathered pp ed mesh ops) i))"
proof -
  have "gf_operation f = k" if "present (WGrant i k f) (gathered pp ed mesh ops)" for k f
    using gathered_said [OF that] by (auto dest!: event_write_grant)
  then show ?thesis
    by (auto simp: grants_keyed_def job_facts_present
        intro: leases_inv_maps job_facts_inv gathered_inv_empty)
qed

lemma gathered_grant_fresh:
  assumes "h \<notin> op_hash ` set ops"
  shows "bt_get (gj_grants (job_facts (gathered pp ed mesh ops) i)) h = None"
proof (rule ccontr)
  assume "\<not> ?thesis"
  then obtain f where "present (WGrant i h f) (gathered pp ed mesh ops)"
    by (auto simp: job_facts_present)
  with assms show False
    by (auto dest!: gathered_said event_write_grant)
qed

text \<open>
  C25. What the worker proposes, the board accepts. When the worker proposes a grant on a folded
  board and the device signs it, every replica that adds the operation folds a board on which
  the job's leases are the earlier ones, unchanged, followed by an epoch that this very
  operation opened, held by this device for the proposed window; grants by other devices that
  wait among the operations cannot take its place. The clock must be below its last value and
  the epoch counter must not have wrapped around.
\<close>

theorem proposed_grant_takes_effect:
  assumes "next_action (board_fold pp ed mesh ops) me o' = Grant i n granted expires"
    and "says pp mesh x me (LeaseGranted i n granted expires)" "op_hash x \<notin> op_hash ` set ops"
    and "ho_now_ms o' < - 1"
    and "\<And>j. board_job (board_fold pp ed mesh ops) i = Some j \<Longrightarrow> length (job_lease j) < 2 ^ 32"
  shows "\<exists>j j' e later. board_job (board_fold pp ed mesh ops) i = Some j
    \<and> board_job (board_fold pp ed mesh (ops @ [x])) i = Some j'
    \<and> job_lease j' = job_lease j @ e # later
    \<and> ep_lease e = op_hash x \<and> ep_holder e = me \<and> ep_epoch e = n
    \<and> ep_granted_at_ms e = ho_now_ms o' \<and> ep_expires_at_ms e = expires"
proof -
  let ?s = "gathered pp ed mesh ops"
  define gr where "gr = \<lparr>gf_operation = op_hash x, gf_author = me, gf_epoch = n,
    gf_granted_at_ms = granted, gf_expires_at_ms = expires\<rparr>"
  obtain j terms where j: "board_job (board_fold pp ed mesh ops) i = Some j" "job_lease_terms j = Some terms"
    and adm: "grant_admissible (job_lease j) terms (claim_winner (job_claims ?s i)) gr"
    unfolding gr_def using proposed_grant_admissible [OF assms(1,4)] .
  obtain post sp where p: "present (WPosted i post) ?s" "j = resolve_job ?s i post"
    "po_spec post = Some sp" "js_lease sp = Some terms"
    using board_job_posted [OF j] .
  define g where "g = \<lparr>gl_grants = gj_grants (job_facts ?s i),
    gl_facts = admit_completions sp (gj_completions (job_facts ?s i)) (gj_facts (job_facts ?s i))\<rparr>"
  have lease: "job_lease j = leases_resolve g [] terms (claim_winner (job_claims ?s i))"
    using p by (simp add: resolve_job_lease job_leases_resolve_Some g_def)
  have "\<exists>t. leases_resolve (g\<lparr>gl_grants := bt_insert (gf_operation gr) gr (gl_grants g)\<rparr>) [] terms
      (claim_winner (job_claims ?s i)) = job_lease j @ apply_to_epoch (bt_values (gl_facts g)) (epoch_of_grant gr) # t"
  proof (rule leases_resolve_insert [OF _ _ _ lease assms(5) [OF j(1)] adm])
    show "grants_keyed (gl_grants g)" "bt_get (gl_grants g) (gf_operation gr) = None" "facts_wf g"
      by (simp_all add: g_def gr_def gathered_grants_keyed gathered_grant_fresh assms(3) facts_wf_def
          admit_completions_wf job_facts_wf)
  qed
  moreover have "board_job (board_fold pp ed mesh (ops @ [x])) i
      = Some (resolve_job (gathered pp ed mesh (ops @ [x])) i post)"
    using p(1) by (auto simp: board_job_iff gathered_snoc [OF assms(2)] add_grant_reads present.simps)
  moreover have "job_lease (resolve_job (gathered pp ed mesh (ops @ [x])) i post)
      = leases_resolve (g\<lparr>gl_grants := bt_insert (gf_operation gr) gr (gl_grants g)\<rparr>) [] terms
        (claim_winner (job_claims ?s i))"
    using p(3,4) by (simp add: resolve_job_lease job_leases_resolve_Some gathered_snoc [OF assms(2)]
        add_grant_reads g_def gr_def)
  moreover have "granted = ho_now_ms o'"
    using proposed_grant [OF assms(1)] by metis
  ultimately show ?thesis
    using j(1) apply_to_epoch_same_window [of "bt_values (gl_facts g)" "epoch_of_grant gr"]
    by (auto simp: same_window_def epoch_of_grant_def gr_def)
qed

text \<open>Device 2 has claimed the demonstration job and proposes its grant at time 30.\<close>

definition demo_claimed :: "demo_header operation list" where
  "demo_claimed = [demo_op 1 5 0, demo_op 2 10 1]"

definition demo_claimed_job :: job where
  "demo_claimed_job =
     demo_job\<lparr>job_state := Claimed 2, job_lease := [],
       job_next_claimants := [\<lparr>cl_author = 2, cl_at_ms = 20\<rparr>]\<rparr>"

lemma demo_claimed_eval:
  "board_jobs (board_fold (demo_p2panda (demo_silent_events 70000)) demo_ed25519 7 demo_claimed)
    = [(5, demo_claimed_job)]"
  by (simp add: demo_claimed_def demo_claimed_job_def demo_job_def demo_defs demo_silent_events_def
      gather_eval resolve_eval chain_eval)

lemma demo_claimed_action:
  "next_action (board_fold (demo_p2panda (demo_silent_events 70000)) demo_ed25519 7 demo_claimed) 2
     (demo_free_offer 30) = Grant 5 0 30 100030"
proof -
  have "can_run (demo_free_offer 0) demo_claimed_job"
    by code_simp
  then have run: "can_run (demo_free_offer 30) demo_claimed_job"
    by (simp add: demo_free_offer_def)
  have offer: "ho_lease (demo_free_offer 30) = lease_policy_default" "ho_now_ms (demo_free_offer 30) = 30"
    "must_stop (demo_free_offer 30) = None" "accepting (demo_free_offer 30)"
    by (simp_all add: demo_free_offer_def offer_defs must_stop_def accepting_def withholding_def
        policy_conservative_def conditions_spare_def at_capacity_def quiet_contains_def
        less_network_class_def)
  have job: "job_id demo_claimed_job = 5" "lease_at demo_claimed_job 30 lease_policy_default = Open 0"
    "job_lease_terms demo_claimed_job = Some (lease_terms_new 100000 1000)"
    "next_holder demo_claimed_job 30 = Some 2"
    by (simp_all add: demo_claimed_job_def demo_job_def job_lease_terms_def next_holder_def lease_at_def
        phase_at_def)
  show ?thesis
    using run by (simp add: next_action_def job_phases_def demo_claimed_eval bt_values_def offer job
        heartbeat_of_def execute_of_def is_mine_def grant_of_def lease_terms_new_def sat_add_def)
qed

theorem proposed_grant_takes_effect_witness:
  "\<exists>j j' e later.
     board_job (board_fold (demo_p2panda (demo_silent_events 70000)) demo_ed25519 7 demo_claimed) 5 = Some j
     \<and> board_job (board_fold (demo_p2panda (demo_silent_events 70000)) demo_ed25519 7
          (demo_claimed @ [demo_op 2 11 2])) 5 = Some j'
     \<and> job_lease j' = job_lease j @ e # later
     \<and> ep_lease e = op_hash (demo_op 2 11 2) \<and> ep_holder e = 2 \<and> ep_epoch e = 0
     \<and> ep_granted_at_ms e = ho_now_ms (demo_free_offer 30) \<and> ep_expires_at_ms e = 100030"
proof (rule proposed_grant_takes_effect [OF demo_claimed_action])
  show "says (demo_p2panda (demo_silent_events 70000)) 7 (demo_op 2 11 2) 2 (LeaseGranted 5 0 30 100030)"
    by (simp add: says_def verify_def from_operation_def demo_defs demo_silent_events_def)
  show "length (job_lease j) < 2 ^ 32"
    if "board_job (board_fold (demo_p2panda (demo_silent_events 70000)) demo_ed25519 7 demo_claimed) 5 = Some j" for j
    using that by (auto simp: board_job_def demo_claimed_eval bt_get_def demo_claimed_job_def)
qed (simp_all add: demo_claimed_def demo_op_def demo_free_offer_def)

section \<open>A device alone on its mesh\<close>

lemma says_gather:
  "says pp mesh x a ev \<Longrightarrow> gather_op pp ed mesh x s = gather_event ed (op_hash x) a ev s"
  by (simp add: says_def gather_op_def)

lemmas event_eval = gather_empty_def add_defs no_leases_def bt_entry_def bt_get_def

lemma lone_posted:
  assumes "says pp mesh p poster (JobPostedV2 sp nonce t)" "spec_validate sp = Inr ()"
    "js_lease sp = Some terms"
  shows "board_jobs (board_fold pp ed mesh [p]) =
    [(op_hash p, \<lparr>job_id = op_hash p, job_kind = None, job_payload = None, job_spec = Some sp,
       job_posted_by = poster, job_state = Posted, job_lease = [], job_next_claimants = []\<rparr>)]"
  using assms(2,3) by (simp add: says_gather [OF assms(1)] event_eval resolve_eval chain_eval)

lemma lone_claimed:
  assumes "says pp mesh p poster (JobPostedV2 sp nonce t)" "spec_validate sp = Inr ()"
    "js_lease sp = Some terms" "says pp mesh c me (JobClaimed (op_hash p) t1)"
  shows "board_jobs (board_fold pp ed mesh [p, c]) =
    [(op_hash p, \<lparr>job_id = op_hash p, job_kind = None, job_payload = None, job_spec = Some sp,
       job_posted_by = poster, job_state = Claimed me, job_lease = [],
       job_next_claimants = [\<lparr>cl_author = me, cl_at_ms = t1\<rparr>]\<rparr>)]"
  using assms(2,3)
  by (simp add: says_gather [OF assms(1)] says_gather [OF assms(4)] event_eval resolve_eval chain_eval)

lemma lone_granted:
  assumes "says pp mesh p poster (JobPostedV2 sp nonce t)" "spec_validate sp = Inr ()"
    "js_lease sp = Some terms" "says pp mesh c me (JobClaimed (op_hash p) t1)"
    "says pp mesh g me (LeaseGranted (op_hash p) 0 t2 (sat_add t2 (max_duration_ms terms)))"
    "t1 \<le> t2" "t2 < - 1"
  shows "board_jobs (board_fold pp ed mesh [p, c, g]) =
    [(op_hash p, \<lparr>job_id = op_hash p, job_kind = None, job_payload = None, job_spec = Some sp,
       job_posted_by = poster, job_state = Claimed me,
       job_lease = [\<lparr>ep_epoch = 0, ep_lease = op_hash g, ep_holder = me, ep_granted_at_ms = t2,
         ep_expires_at_ms = sat_add t2 (max_duration_ms terms), ep_last_seen_ms = t2,
         ep_progress = lease_progress_default, ep_end = None\<rparr>],
       job_next_claimants =
         (if sat_add t2 (max_duration_ms terms) \<le> t1 then [\<lparr>cl_author = me, cl_at_ms = t1\<rparr>] else [])\<rparr>)]"
  using assms(2,3,6) sat_add_diff [of t2 "max_duration_ms terms"]
    sat_add_less [OF assms(7) terms_duration [OF assms(2,3)]]
  by (simp add: says_gather [OF assms(1)] says_gather [OF assms(4)] says_gather [OF assms(5)]
      event_eval resolve_eval chain_eval not_le not_less)

lemma silence_window_ge:
  assumes "0 < miss_allowance terms"
  shows "heartbeat_ms terms \<le> silence_window_ms terms"
proof -
  have "1 \<le> unat (ucast (miss_allowance terms) :: u64)"
    using assms unsigned_less [where ?'a = nat, of "miss_allowance terms"]
    by (simp add: word_less_nat_alt unsigned_ucast_eq take_bit_nat_eq_self)
  then have "unat (heartbeat_ms terms) * 1 \<le> unat (heartbeat_ms terms) * unat (ucast (miss_allowance terms) :: u64)"
    by (rule mult_le_mono2)
  then show ?thesis
    using unat_u64_bound [of "heartbeat_ms terms"]
    by (simp add: silence_window_ms_def word_le_nat_alt unat_sat_mul)
qed

lemma sat_add_mono2: "b \<le> c \<Longrightarrow> sat_add a b \<le> sat_add a c"
  by (simp add: word_le_nat_alt unat_sat_add)

lemma lone_phase:
  assumes e: "ep_end e = None" "ep_last_seen_ms e = t2" "ep_granted_at_ms e = t2" "ep_holder e = me"
    and "t2 \<le> now" "now < ep_expires_at_ms e" "now < sat_add t2 (heartbeat_ms terms)"
    "0 < miss_allowance terms"
  shows "\<exists>n l x q. phase_at [e] (Some terms) now pol = Held n l me x t2 q"
proof -
  have "t2 \<le> sat_add now (max_skew_ms pol)"
    using assms(5) le_sat_add1 order_trans by blast
  then have "phase_at [e] (Some terms) now pol = phase_of_epoch e terms now (max_skew_ms pol)"
    by (simp add: phase_at_def e(3))
  moreover have "now < sat_add (ep_last_seen_ms e) (silence_window_ms terms)"
    using assms(7) sat_add_mono2 [OF silence_window_ge [OF assms(8)], of t2] e(2) less_le_trans by blast
  ultimately show ?thesis
    using phase_of_epoch_heldI [OF e(1) assms(6), of terms "max_skew_ms pol"] e(2,4)
    by (auto simp: held_by_Held dest: phase_of_epoch_lapses)
qed

text \<open>
  C28. A device alone on its mesh makes progress by following its own decisions: when its owner
  lends it and it can run a posted leased job, it claims the job; once its claim is on the
  board, it grants itself the lease for the signed duration; and once its grant is on the
  board, it executes the job at any time before the first heartbeat is due and the lease
  expires. At each of the three times the owner lends the device, which accepts new work and
  runs nothing yet, and no heartbeat is due.
\<close>

theorem lone_device_makes_progress:
  assumes "says pp mesh p poster (JobPostedV2 sp nonce t)" "spec_validate sp = Inr ()"
    and "js_lease sp = Some terms"
    and "says pp mesh c me (JobClaimed (op_hash p) t1)"
    and "says pp mesh g me (LeaseGranted (op_hash p) 0 t2 (sat_add t2 (max_duration_ms terms)))"
    and "t1 \<le> t2" "t2 < - 1" "t2 \<le> t3" "t3 < sat_add t2 (max_duration_ms terms)"
    "t3 < sat_add t2 (heartbeat_ms terms)"
    and "accepting o'" "policy_accepts (ho_policy o') sp" "offers (ho_registry o') sp (ho_facts o')"
    and "ho_running o' = []"
  shows "next_action (board_fold pp ed mesh [p]) me (offer_at t1 o') = Claim (op_hash p)
    \<and> next_action (board_fold pp ed mesh [p, c]) me (offer_at t2 o')
        = Grant (op_hash p) 0 t2 (sat_add t2 (max_duration_ms terms))
    \<and> next_action (board_fold pp ed mesh [p, c, g]) me (offer_at t3 o') = Execute (op_hash p)"
proof -
  have run: "can_run o' j" if "Mesh_Board.job_spec j = Some sp" for j
    using assms(12,13) that by (simp add: can_run_def)
  have stop: "must_stop o' = None"
    using assms(11) by (simp add: accepting_def)
  have idle: "\<not> is_running o' i" for i
    by (simp add: is_running_def assms(14))
  have miss: "0 < miss_allowance terms"
    using assms(2,3) by (auto simp: spec_validate_def lease_terms_validate_def word_neq_0_conv
        split: sum.splits if_splits)
  note posted = lone_posted [OF assms(1-3), of ed] and claimed = lone_claimed [OF assms(1-4), of ed]
    and granted = lone_granted [OF assms(1-7), of ed]
  note eval = next_action_def job_phases_def bt_values_def lease_at_def job_lease_terms_def run stop idle
    assms(3,11) is_mine_def heartbeat_of_def execute_of_def grant_of_def claim_of_def next_holder_def
    has_claimed_def
  have "next_action (board_fold pp ed mesh [p]) me (offer_at t1 o') = Claim (op_hash p)"
    by (simp add: posted eval phase_at_def)
  moreover have "next_action (board_fold pp ed mesh [p, c]) me (offer_at t2 o')
      = Grant (op_hash p) 0 t2 (sat_add t2 (max_duration_ms terms))"
    using assms(6) by (simp add: claimed eval phase_at_def)
  moreover have "next_action (board_fold pp ed mesh [p, c, g]) me (offer_at t3 o') = Execute (op_hash p)"
  proof -
    let ?e = "\<lparr>ep_epoch = 0, ep_lease = op_hash g, ep_holder = me, ep_granted_at_ms = t2,
      ep_expires_at_ms = sat_add t2 (max_duration_ms terms), ep_last_seen_ms = t2,
      ep_progress = lease_progress_default, ep_end = None\<rparr> :: lease_epoch"
    obtain n l x q where "phase_at [?e] (Some terms) t3 (ho_lease o') = Held n l me x t2 q"
      using lone_phase [of ?e t2 me t3 terms "ho_lease o'"] assms(8-10) miss by auto
    then show ?thesis
      using assms(10) by (simp add: granted eval not_le)
  qed
  ultimately show ?thesis by blast
qed

text \<open>The demonstration job again, with device 2 as the only worker.\<close>

theorem lone_device_makes_progress_witness:
  "next_action (board_fold (demo_p2panda (demo_silent_events 70000)) demo_ed25519 7 [demo_op 1 5 0]) 2
     (offer_at 20 (demo_free_offer 0)) = Claim 5
   \<and> next_action (board_fold (demo_p2panda (demo_silent_events 70000)) demo_ed25519 7
       [demo_op 1 5 0, demo_op 2 10 1]) 2 (offer_at 30 (demo_free_offer 0)) = Grant 5 0 30 100030
   \<and> next_action (board_fold (demo_p2panda (demo_silent_events 70000)) demo_ed25519 7
       [demo_op 1 5 0, demo_op 2 10 1, demo_op 2 11 2]) 2 (offer_at 500 (demo_free_offer 0)) = Execute 5"
proof -
  let ?pp = "demo_p2panda (demo_silent_events 70000)" and ?terms = "lease_terms_new 100000 1000"
  have hash: "op_hash (demo_op 1 5 0) = 5"
    by (simp add: demo_op_def)
  have says: "says ?pp 7 (demo_op 1 5 0) 1 (JobPostedV2 demo_spec 0 10)"
    "says ?pp 7 (demo_op 2 10 1) 2 (JobClaimed 5 20)"
    "says ?pp 7 (demo_op 2 11 2) 2 (LeaseGranted 5 0 30 100030)"
    by (simp_all add: says_def verify_def from_operation_def demo_defs demo_silent_events_def)
  have sat: "sat_add 30 (max_duration_ms ?terms) = 100030" "sat_add 30 (heartbeat_ms ?terms) = 1030"
    by (simp_all add: lease_terms_new_def sat_add_def)
  have offer: "accepting (demo_free_offer 0)" "ho_running (demo_free_offer 0) = []"
    by (simp_all add: demo_free_offer_def offer_defs must_stop_def accepting_def withholding_def
        policy_conservative_def conditions_spare_def at_capacity_def quiet_contains_def
        less_network_class_def)
  have can: "policy_accepts (ho_policy (demo_free_offer 0)) demo_spec"
    "offers (ho_registry (demo_free_offer 0)) demo_spec (ho_facts (demo_free_offer 0))"
    by code_simp+
  show ?thesis
    using lone_device_makes_progress [of ?pp 7 "demo_op 1 5 0" 1 demo_spec 0 10 ?terms "demo_op 2 10 1" 2 20
        "demo_op 2 11 2" 30 500 "demo_free_offer 0" demo_ed25519] says offer can
    by (simp only: hash sat demo_spec_valid demo_spec_lease) simp
qed

end
