(* ===== verification/Mesh_Host.thy ===== *)
theory Mesh_Host
  imports Mesh_Worker
begin

text \<open>
  The host supervisor (\<^verbatim>\<open>crates/mesh/host/src/host.rs\<close>, \<^verbatim>\<open>inflight.rs\<close> and the
  input delivery of \<^verbatim>\<open>courier.rs\<close>): the runs in flight with the control state each
  shares with its host, and the tick that reaps finished runs, drops lost leases, escalates
  overdue reclaims and takes one action of the worker. The synced mesh, the clock, the observed
  conditions and the courier are parameters; what a run does between two ticks is any sequence
  of control calls followed by any outcome.
\<close>

section \<open>Runs in flight\<close>

datatype run_outcome = OutCommitted job_output | OutInline bytes

record reclaiming =
  rc_reason :: reclaim_reason
  rc_hard_cancel_at_ms :: u64
  rc_signalled :: bool

text \<open>What a spawned task runs, and how it ended: a join error is a panic of the task.\<close>

datatype spawned =
    SpawnSpec job_spec run_context "key32 list"
  | SpawnLegacy job_kind bytes

datatype joined = Joined "run_error + run_outcome" | Panicked

record in_flight =
  fl_handle :: control_state
  fl_spawned :: spawned
  fl_joined :: "joined option"
  fl_lease :: "key32 option"
  fl_reclaim :: "reclaiming option"

definition is_reclaiming :: "in_flight \<Rightarrow> bool" where
  "is_reclaiming fl \<longleftrightarrow> fl_reclaim fl \<noteq> None"

definition still_held :: "job_board \<Rightarrow> job_id \<Rightarrow> key32 \<Rightarrow> key32 \<Rightarrow> u64 \<Rightarrow> lease_policy \<Rightarrow> bool" where
  "still_held b job lease me at_ms policy =
     (case board_job b job of
        None \<Rightarrow> False
      | Some j \<Rightarrow>
          (case lease_at j at_ms policy of
             Held _ held holder _ _ _ \<Rightarrow> held = lease \<and> holder = me
           | _ \<Rightarrow> False))"

fun release_reason_for :: "run_error \<Rightarrow> release_reason" where
  "release_reason_for (RunNamespace (MissingBlob _)) = InputUnavailable"
| "release_reason_for _ = Failed"

section \<open>Input delivery\<close>

text \<open>
  The courier brings a blob into the device's space from one of the given devices; its answer
  is dropped, the run fails on a missing input by itself.
\<close>

fun deliver_loop ::
  "('b \<Rightarrow> blob_source) \<Rightarrow> (blob_ref \<Rightarrow> key32 list \<Rightarrow> 'b \<Rightarrow> 'b) \<Rightarrow> key32 list \<Rightarrow> job_input list \<Rightarrow> 'b \<Rightarrow> 'b" where
  "deliver_loop source courier sources [] s = s"
| "deliver_loop source courier sources (i # is) s =
     deliver_loop source courier sources is
       (case source s (in_blob i) of
          Inr (Some _) \<Rightarrow> s
        | _ \<Rightarrow> courier (in_blob i) sources s)"

definition deliver_inputs ::
  "('b \<Rightarrow> blob_source) \<Rightarrow> (blob_ref \<Rightarrow> key32 list \<Rightarrow> 'b \<Rightarrow> 'b) \<Rightarrow> key32 list \<Rightarrow> job_spec
   \<Rightarrow> control_state \<Rightarrow> 'b \<Rightarrow> control_state \<times> 'b" where
  "deliver_inputs source courier sources sp st s =
     (set_activity Preparing (set_activity Fetching st),
      deliver_loop source courier sources (js_inputs sp) s)"

text \<open>The body of the spawned task.\<close>

definition run_spawned ::
  "(bytes \<Rightarrow> bytes) \<Rightarrow> (bytes \<Rightarrow> string) \<Rightarrow> (store_error \<Rightarrow> string) \<Rightarrow> resource_registry
   \<Rightarrow> ('b \<Rightarrow> blob_source) \<Rightarrow> 'b blob_sink \<Rightarrow> (blob_ref \<Rightarrow> key32 list \<Rightarrow> 'b \<Rightarrow> 'b) \<Rightarrow> world \<Rightarrow> host_level
   \<Rightarrow> spawned \<Rightarrow> control_state \<Rightarrow> 'b \<Rightarrow> (run_error + run_outcome) \<times> control_state \<times> 'b" where
  "run_spawned h hex str_of reg source sink courier world host task st s =
     (case task of
        SpawnSpec sp context sources \<Rightarrow>
          (let (st, s) = deliver_inputs source courier sources sp st s
           in (case run_job_for h reg context sp source sink world host st s of
                 (r, st, s) \<Rightarrow> (map_sum id OutCommitted r, st, s)))
      | SpawnLegacy kind payload \<Rightarrow>
          (case run_legacy h hex str_of reg kind payload world host st of
             (r, st) \<Rightarrow> (map_sum id OutInline r, st, s)))"

section \<open>The supervisor\<close>

datatype host_step =
    StepClaimed job_id
  | StepGranted job_id u32 key32
  | StepHeartbeat job_id key32 lease_progress
  | StepStarted job_id "key32 option"
  | StepCompleted job_id "key32 option"
  | StepReleased job_id key32 release_reason
  | StepAwaitingStop job_id
  | StepReclaimed job_id key32 reclaim_reason lease_progress
  | StepLeaseLost job_id key32
  | StepIdle

datatype ('e, 'f) host_error = HostSync 'e | HostStore 'f

record ('e, 'f, 'w) synced_mesh =
  sm_author :: "mesh_event \<Rightarrow> 'w \<Rightarrow> ('e + key32) \<times> 'w"
  sm_board :: "'w \<Rightarrow> 'f + job_board"

record host_config =
  hc_registry :: resource_registry
  hc_facts :: host_facts
  hc_policy :: device_policy
  hc_lease :: lease_policy

text \<open>
  A run dropped from the map goes on until its next cooperative point; \<open>mh_detached\<close>
  records such runs.
\<close>

record mesh_host =
  mh_me :: key32
  mh_config :: host_config
  mh_inflight :: "(job_id, in_flight) btmap"
  mh_detached :: "in_flight list"

definition config_supervised :: "resource_registry \<Rightarrow> host_config" where
  "config_supervised builtin =
     \<lparr>hc_registry = builtin, hc_facts = host_facts_cpu 4096, hc_policy = policy_permissive,
      hc_lease = lease_policy_default\<rparr>"

definition host_new :: "key32 \<Rightarrow> host_config \<Rightarrow> mesh_host" where
  "host_new me config = \<lparr>mh_me = me, mh_config = config, mh_inflight = [], mh_detached = []\<rparr>"

definition host_running :: "mesh_host \<Rightarrow> job_id list" where
  "host_running h = map fst (mh_inflight h)"

definition host_progress :: "mesh_host \<Rightarrow> job_id \<Rightarrow> lease_progress option" where
  "host_progress h job = map_option (\<lambda>fl. control_progress (fl_handle fl)) (bt_get (mh_inflight h) job)"

definition set_policy :: "device_policy \<Rightarrow> mesh_host \<Rightarrow> mesh_host" where
  "set_policy p h = h\<lparr>mh_config := (mh_config h)\<lparr>hc_policy := p\<rparr>\<rparr>"

definition host_author ::
  "('e, 'f, 'w) synced_mesh \<Rightarrow> mesh_event \<Rightarrow> 'w \<Rightarrow> (('e, 'f) host_error + key32) \<times> 'w" where
  "host_author sy event w =
     (case sm_author sy event w of (Inl e, w) \<Rightarrow> (Inl (HostSync e), w) | (Inr hash, w) \<Rightarrow> (Inr hash, w))"

definition announce ::
  "('e, 'f, 'w) synced_mesh \<Rightarrow> derived_key_attestation \<Rightarrow> 'w \<Rightarrow> (('e, 'f) host_error + unit) \<times> 'w" where
  "announce sy attestation w =
     (case host_author sy (DeviceAttested attestation) w of
        (Inl e, w) \<Rightarrow> (Inl e, w) | (Inr _, w) \<Rightarrow> (Inr (), w))"

subsection \<open>Finished runs\<close>

definition give_back ::
  "('e, 'f, 'w) synced_mesh \<Rightarrow> job_id \<Rightarrow> key32 option \<Rightarrow> release_reason \<Rightarrow> u64 \<Rightarrow> 'w
   \<Rightarrow> (('e, 'f) host_error + host_step) \<times> 'w" where
  "give_back sy job lease reason now_ms w =
     (case lease of
        None \<Rightarrow> (Inr (StepReleased job 0 reason), w)
      | Some l \<Rightarrow>
          (case host_author sy (LeaseReleased job l reason now_ms) w of
             (Inl e, w) \<Rightarrow> (Inl e, w)
           | (Inr _, w) \<Rightarrow> (Inr (StepReleased job l reason), w)))"

definition author_step ::
  "('e, 'f, 'w) synced_mesh \<Rightarrow> mesh_event \<Rightarrow> host_step \<Rightarrow> 'w \<Rightarrow> (('e, 'f) host_error + host_step) \<times> 'w" where
  "author_step sy event step w =
     (case host_author sy event w of (Inl e, w) \<Rightarrow> (Inl e, w) | (Inr _, w) \<Rightarrow> (Inr step, w))"

fun succeeded :: "joined \<Rightarrow> bool" where
  "succeeded (Joined (Inr _)) = True"
| "succeeded _ = False"

definition reap_one ::
  "('e, 'f, 'w) synced_mesh \<Rightarrow> u64 \<Rightarrow> job_id \<Rightarrow> in_flight \<Rightarrow> joined \<Rightarrow> 'w
   \<Rightarrow> (('e, 'f) host_error + host_step) \<times> 'w" where
  "reap_one sy now_ms job fl outcome w =
     (case (fl_reclaim fl, fl_lease fl, succeeded outcome) of
        (Some rc, Some lease, False) \<Rightarrow>
          author_step sy (LeaseRevokedByOwner job lease (rc_reason rc) now_ms)
            (StepReclaimed job lease (rc_reason rc) (control_progress (fl_handle fl))) w
      | _ \<Rightarrow>
          (case outcome of
             Joined (Inr (OutCommitted out)) \<Rightarrow>
               author_step sy
                 (case fl_lease fl of
                    Some lease \<Rightarrow> JobCompletedUnderLease job lease out now_ms
                  | None \<Rightarrow> JobDoneV2 job out now_ms)
                 (StepCompleted job (fl_lease fl)) w
           | Joined (Inr (OutInline result)) \<Rightarrow>
               author_step sy (JobDone job result now_ms) (StepCompleted job None) w
           | Joined (Inl e) \<Rightarrow> give_back sy job (fl_lease fl) (release_reason_for e) now_ms w
           | Panicked \<Rightarrow> give_back sy job (fl_lease fl) Failed now_ms w))"

definition finished_runs :: "mesh_host \<Rightarrow> (job_id \<times> in_flight \<times> joined) list" where
  "finished_runs h =
     List.map_filter (\<lambda>(job, fl). map_option (\<lambda>out. (job, fl, out)) (fl_joined fl)) (mh_inflight h)"

fun reap_loop ::
  "('e, 'f, 'w) synced_mesh \<Rightarrow> u64 \<Rightarrow> (job_id \<times> in_flight \<times> joined) list \<Rightarrow> host_step list \<Rightarrow> mesh_host \<Rightarrow> 'w
   \<Rightarrow> (('e, 'f) host_error + host_step list) \<times> mesh_host \<times> 'w" where
  "reap_loop sy now_ms [] steps h w = (Inr steps, h, w)"
| "reap_loop sy now_ms ((job, fl, out) # rest) steps h w =
     (let h = h\<lparr>mh_inflight := bt_remove job (mh_inflight h)\<rparr>
      in (case reap_one sy now_ms job fl out w of
            (Inl e, w) \<Rightarrow> (Inl e, h, w)
          | (Inr step, w) \<Rightarrow> reap_loop sy now_ms rest (steps @ [step]) h w))"

definition reap ::
  "('e, 'f, 'w) synced_mesh \<Rightarrow> u64 \<Rightarrow> mesh_host \<Rightarrow> 'w
   \<Rightarrow> (('e, 'f) host_error + host_step list) \<times> mesh_host \<times> 'w" where
  "reap sy now_ms h w = reap_loop sy now_ms (finished_runs h) [] h w"

subsection \<open>Lost leases and overdue reclaims\<close>

definition lost_leases :: "mesh_host \<Rightarrow> job_board \<Rightarrow> u64 \<Rightarrow> (job_id \<times> key32) list" where
  "lost_leases h b now_ms =
     List.map_filter (\<lambda>(job, fl).
       case fl_lease fl of
         None \<Rightarrow> None
       | Some held \<Rightarrow>
           if still_held b job held (mh_me h) now_ms (hc_lease (mh_config h)) then None else Some (job, held))
       (mh_inflight h)"

definition drop_run :: "job_id \<Rightarrow> mesh_host \<Rightarrow> mesh_host" where
  "drop_run job h =
     (case bt_get (mh_inflight h) job of
        None \<Rightarrow> h
      | Some fl \<Rightarrow>
          h\<lparr>mh_inflight := bt_remove job (mh_inflight h),
            mh_detached := fl\<lparr>fl_handle := handle_cancel (fl_handle fl)\<rparr> # mh_detached h\<rparr>)"

definition abandon_lost_leases :: "mesh_host \<Rightarrow> job_board \<Rightarrow> u64 \<Rightarrow> host_step list \<times> mesh_host" where
  "abandon_lost_leases h b now_ms =
     (let lost = lost_leases h b now_ms
      in (map (\<lambda>(job, lease). StepLeaseLost job lease) lost, fold (\<lambda>(job, lease). drop_run job) lost h))"

definition escalate_flight :: "u64 \<Rightarrow> in_flight \<Rightarrow> in_flight" where
  "escalate_flight now_ms fl =
     (case fl_reclaim fl of
        None \<Rightarrow> fl
      | Some rc \<Rightarrow>
          if \<not> rc_signalled rc \<and> now_ms \<ge> rc_hard_cancel_at_ms rc
          then fl\<lparr>fl_handle := handle_cancel (fl_handle fl), fl_reclaim := Some (rc\<lparr>rc_signalled := True\<rparr>)\<rparr>
          else fl)"

definition escalate_reclaims :: "u64 \<Rightarrow> mesh_host \<Rightarrow> mesh_host" where
  "escalate_reclaims now_ms h =
     h\<lparr>mh_inflight := map (\<lambda>(job, fl). (job, escalate_flight now_ms fl)) (mh_inflight h)\<rparr>"

subsection \<open>Starting and reclaiming\<close>

definition blob_sources :: "key32 \<Rightarrow> job_board \<Rightarrow> key32 \<Rightarrow> key32 list" where
  "blob_sources me b posted_by =
     (case master_of (board_devices b) posted_by of
        Some m \<Rightarrow> if posted_by \<noteq> me then [m] else []
      | None \<Rightarrow> [])
     @ map snd (filter (\<lambda>(author, _). author \<noteq> posted_by \<and> author \<noteq> me) (board_devices b))"

definition start :: "mesh_host \<Rightarrow> job_board \<Rightarrow> job_id \<Rightarrow> u64 \<Rightarrow> host_step option \<times> mesh_host" where
  "start h b job now_ms =
     (case board_job b job of
        None \<Rightarrow> (None, h)
      | Some record \<Rightarrow>
     (case (case lease_at record now_ms (hc_lease (mh_config h)) of
              Held _ lease holder _ _ _ \<Rightarrow>
                if holder = mh_me h then Some (Some lease)
                else if job_lease_terms record \<noteq> None then None else Some None
            | _ \<Rightarrow> if job_lease_terms record \<noteq> None then None else Some None) of
        None \<Rightarrow> (None, h)
      | Some lease \<Rightarrow>
     (case (case (job_spec record, job_kind record) of
              (Some sp, _) \<Rightarrow>
                Some (SpawnSpec sp \<lparr>rc_job = job, rc_lease = lease\<rparr>
                  (blob_sources (mh_me h) b (job_posted_by record)))
            | (None, Some kind) \<Rightarrow> map_option (SpawnLegacy kind) (job_payload record)
            | (None, None) \<Rightarrow> None) of
        None \<Rightarrow> (None, h)
      | Some task \<Rightarrow>
          (Some (StepStarted job lease),
           h\<lparr>mh_inflight :=
               bt_insert job
                 \<lparr>fl_handle = control_new, fl_spawned = task, fl_joined = None, fl_lease = lease,
                  fl_reclaim = None\<rparr> (mh_inflight h)\<rparr>))))"

definition reclaim_flight :: "reclaim_reason \<Rightarrow> checkpoint_class \<Rightarrow> u64 \<Rightarrow> u64 \<Rightarrow> in_flight \<Rightarrow> in_flight" where
  "reclaim_flight reason cls grace now_ms fl =
     (if is_reclaiming fl then fl
      else
        (let (handle, signalled) =
               (case cls of
                  Restart \<Rightarrow> (handle_cancel (fl_handle fl), True)
                | Resumable \<Rightarrow> (request_checkpoint (fl_handle fl), True)
                | NonInterruptible \<Rightarrow> (fl_handle fl, False))
         in fl\<lparr>fl_handle := handle,
               fl_reclaim :=
                 Some \<lparr>rc_reason = reason,
                       rc_hard_cancel_at_ms = sat_add now_ms (if signalled then 0 else grace),
                       rc_signalled = signalled\<rparr>\<rparr>))"

definition begin_reclaim :: "job_id \<Rightarrow> reclaim_reason \<Rightarrow> checkpoint_class \<Rightarrow> u64 \<Rightarrow> mesh_host \<Rightarrow> mesh_host" where
  "begin_reclaim job reason cls now_ms h =
     (case bt_get (mh_inflight h) job of
        None \<Rightarrow> h
      | Some fl \<Rightarrow>
          h\<lparr>mh_inflight :=
              bt_insert job (reclaim_flight reason cls (dp_reclaim_grace_ms (hc_policy (mh_config h))) now_ms fl)
                (mh_inflight h)\<rparr>)"

subsection \<open>The tick\<close>

definition host_offer_at :: "mesh_host \<Rightarrow> u64 \<Rightarrow> device_conditions \<Rightarrow> host_offer" where
  "host_offer_at h now_ms conditions =
     with_lease_policy (hc_lease (mh_config h))
       (offer_running (host_running h)
         (offer_observing (conditions\<lparr>dc_running_jobs := of_nat (length (mh_inflight h))\<rparr>)
           (offer_at now_ms
             (offer_new (hc_registry (mh_config h)) (hc_facts (mh_config h)) (hc_policy (mh_config h))))))"

definition class_of :: "job_board \<Rightarrow> job_id \<Rightarrow> checkpoint_class" where
  "class_of b job =
     (case Option.bind (board_job b job) job_spec of None \<Rightarrow> Restart | Some sp \<Rightarrow> js_checkpoint sp)"

definition take_action ::
  "('e, 'f, 'w) synced_mesh \<Rightarrow> u64 \<Rightarrow> job_board \<Rightarrow> worker_action \<Rightarrow> host_step list \<Rightarrow> mesh_host \<Rightarrow> 'w
   \<Rightarrow> (('e, 'f) host_error + host_step list) \<times> mesh_host \<times> 'w" where
  "take_action sy now_ms b action steps h w =
     (case action of
        Idle \<Rightarrow> (Inr (steps @ [StepIdle]), h, w)
      | Claim job \<Rightarrow>
          (case host_author sy (JobClaimed job now_ms) w of
             (Inl e, w) \<Rightarrow> (Inl e, h, w)
           | (Inr _, w) \<Rightarrow> (Inr (steps @ [StepClaimed job]), h, w))
      | Grant job n granted expires \<Rightarrow>
          (case host_author sy (LeaseGranted job n granted expires) w of
             (Inl e, w) \<Rightarrow> (Inl e, h, w)
           | (Inr hash, w) \<Rightarrow> (Inr (steps @ [StepGranted job n hash]), h, w))
      | Heartbeat job lease \<Rightarrow>
          (let progress = (case host_progress h job of None \<Rightarrow> lease_progress_default | Some p \<Rightarrow> p)
           in (case host_author sy (LeaseHeartbeat job lease progress now_ms) w of
                 (Inl e, w) \<Rightarrow> (Inl e, h, w)
               | (Inr _, w) \<Rightarrow> (Inr (steps @ [StepHeartbeat job lease progress]), h, w)))
      | Execute job \<Rightarrow>
          (case start h b job now_ms of
             (Some step, h) \<Rightarrow> (Inr (steps @ [step]), h, w)
           | (None, h) \<Rightarrow> (Inr steps, h, w))
      | Reclaim job lease reason \<Rightarrow>
          (Inr (steps @ [StepAwaitingStop job]), begin_reclaim job reason (class_of b job) now_ms h, w))"

definition tick ::
  "('e, 'f, 'w) synced_mesh \<Rightarrow> u64 \<Rightarrow> device_conditions \<Rightarrow> mesh_host \<Rightarrow> 'w
   \<Rightarrow> (('e, 'f) host_error + host_step list) \<times> mesh_host \<times> 'w" where
  "tick sy now_ms conditions h w =
     (case reap sy now_ms h w of
        (Inl e, h, w) \<Rightarrow> (Inl e, h, w)
      | (Inr steps, h, w) \<Rightarrow>
     (case sm_board sy w of
        Inl e \<Rightarrow> (Inl (HostStore e), h, w)
      | Inr b \<Rightarrow>
     (let (lost, h) = abandon_lost_leases h b now_ms;
          h = escalate_reclaims now_ms h;
          action = next_action b (mh_me h) (host_offer_at h now_ms conditions)
      in take_action sy now_ms b action (steps @ lost) h w)))"

text \<open>On shutdown every run is cancelled, aborted and waited for, so none is left.\<close>

definition shutdown ::
  "('w \<Rightarrow> ('e + unit) \<times> 'w) \<Rightarrow> mesh_host \<Rightarrow> 'w \<Rightarrow> (('e, 'f) host_error + unit) \<times> mesh_host \<times> 'w" where
  "shutdown leave h w =
     (let h = h\<lparr>mh_inflight := []\<rparr>
      in (case leave w of (Inl e, w) \<Rightarrow> (Inl (HostSync e), h, w) | (Inr _, w) \<Rightarrow> (Inr (), h, w)))"

end
