(* ===== verification/Mesh_Supervision.thy ===== *)
theory Mesh_Supervision
  imports Mesh_Host
begin

text \<open>
  What a supervised host guarantees: the events a tick authors are earned, stop requests follow
  the owner's reclaims and reach the run, over every interleaving of ticks with the runs'
  own progress; and two places where the supervisor does not do what it documents.
\<close>

section \<open>What a tick authors\<close>











lemma finished_runs_mem:
  "(job, fl, out) \<in> set (finished_runs h) \<longleftrightarrow> (job, fl) \<in> set (mh_inflight h) \<and> fl_joined fl = Some out"
  by (force simp: finished_runs_def List.map_filter_def image_iff)

text \<open>Reaping, dropping and escalating keep the identity, the settings and what runs report.\<close>

definition same_host :: "mesh_host \<Rightarrow> mesh_host \<Rightarrow> bool" where
  "same_host h h' \<longleftrightarrow>
     mh_me h' = mh_me h \<and> mh_config h' = mh_config h
     \<and> (\<forall>job p. host_progress h' job = Some p \<longrightarrow> host_progress h job = Some p)"

lemma same_host_trans: "same_host a b \<Longrightarrow> same_host b c \<Longrightarrow> same_host a c"
  by (simp add: same_host_def)

lemma same_host_refl [simp]: "same_host h h"
  by (simp add: same_host_def)

lemma same_host_remove:
  "same_host h (h\<lparr>mh_inflight := bt_remove job (mh_inflight h), mh_detached := d\<rparr>)"
  "same_host h (h\<lparr>mh_inflight := bt_remove job (mh_inflight h)\<rparr>)"
  by (auto simp: same_host_def host_progress_def bt_get_remove)


lemma drop_run_same: "same_host h (drop_run job h)"
  by (auto simp: drop_run_def same_host_remove split: option.splits)

lemma abandon_same: "abandon_lost_leases h b now = (lost, h') \<Longrightarrow> same_host h h'"
proof -
  have "same_host h (fold (\<lambda>(job, lease). drop_run job) lost h)" for lost :: "(job_id \<times> key32) list"
    by (induction lost arbitrary: h) (auto intro: drop_run_same same_host_trans)
  then show "abandon_lost_leases h b now = (lost, h') \<Longrightarrow> same_host h h'"
    by (auto simp: abandon_lost_leases_def Let_def)
qed

lemma bt_get_map_values: "bt_get (map (\<lambda>(k, v). (k, f v)) m) k = map_option f (bt_get m k)"
  unfolding bt_get_def by (induction m) auto

lemma escalate_flight_same [simp]:
  "control_progress (fl_handle (escalate_flight now fl)) = control_progress (fl_handle fl)"
  "fl_lease (escalate_flight now fl) = fl_lease fl"
  by (simp_all add: escalate_flight_def control_progress_def handle_cancel_def escalate_def
      split: option.splits)

lemma escalate_same: "same_host h (escalate_reclaims now h)"
  by (auto simp: same_host_def escalate_reclaims_def host_progress_def bt_get_map_values)

text \<open>A tick in the order it happens.\<close>

lemma tickE:
  assumes "tick sy now c h w = (r, h', w')"
  obtains (reap_failed) e where "reap sy now h w = (Inl e, h', w')" "r = Inl e"
  | (board_failed) steps e where "reap sy now h w = (Inr steps, h', w')" "sm_board sy w' = Inl e" "r = Inl (HostStore e)"
  | (acted) steps h1 w1 b lost h2 where "reap sy now h w = (Inr steps, h1, w1)" "sm_board sy w1 = Inr b"
      "abandon_lost_leases h1 b now = (lost, h2)"
      "take_action sy now b
         (next_action b (mh_me h2) (host_offer_at (escalate_reclaims now h2) now c))
         (steps @ lost) (escalate_reclaims now h2) w1 = (r, h', w')"
proof -
  have "mh_me (escalate_reclaims now h2) = mh_me h2" for h2
    by (simp add: escalate_reclaims_def)
  then show thesis
    using assms that unfolding tick_def Let_def
    by (auto split: prod.splits sum.splits)
qed

lemma host_offer_at_simps:
  "ho_now_ms (host_offer_at h now c) = now" "ho_policy (host_offer_at h now c) = hc_policy (mh_config h)"
  "ho_running (host_offer_at h now c) = host_running h" "ho_lease (host_offer_at h now c) = hc_lease (mh_config h)"
  by (simp_all add: host_offer_at_def with_lease_policy_def offer_running_def offer_observing_def
      offer_at_def offer_new_def)


section \<open>Ticks and runs interleaved\<close>

text \<open>
  The host between and during ticks: a tick with any clock reading and conditions, a change of
  policy, a control call of a running job, and the end of one with any outcome.
\<close>

fun run_side :: "control_call \<Rightarrow> bool" where
  "run_side HostCancel = False"
| "run_side HostCheckpoint = False"
| "run_side _ = True"

inductive host_move ::
  "('e, 'f, 'w) synced_mesh \<Rightarrow> mesh_host \<times> 'w \<Rightarrow> mesh_host \<times> 'w \<Rightarrow> bool" for sy where
  tick: "tick sy now c h w = (r, h', w') \<Longrightarrow> host_move sy (h, w) (h', w')"
| policy: "host_move sy (h, w) (set_policy p h, w)"
| works: "bt_get (mh_inflight h) job = Some fl \<Longrightarrow> fl_joined fl = None \<Longrightarrow> run_side call \<Longrightarrow>
    host_move sy (h, w)
      (h\<lparr>mh_inflight := bt_insert job (fl\<lparr>fl_handle := control_exec call (fl_handle fl)\<rparr>) (mh_inflight h)\<rparr>, w)"
| ends: "bt_get (mh_inflight h) job = Some fl \<Longrightarrow> fl_joined fl = None \<Longrightarrow>
    host_move sy (h, w) (h\<lparr>mh_inflight := bt_insert job (fl\<lparr>fl_joined := Some out\<rparr>) (mh_inflight h)\<rparr>, w)"
| world: "host_move sy (h, w) (h, w')"

text \<open>
  A predicate on the runs in flight that every operation keeps is kept by the whole tick: the
  flights after a tick are earlier ones, escalated or reclaimed, and a fresh one.
\<close>

definition flights_all :: "(job_id \<Rightarrow> in_flight \<Rightarrow> bool) \<Rightarrow> mesh_host \<Rightarrow> bool" where
  "flights_all P h \<longleftrightarrow>
     bt_inv (mh_inflight h) \<and> (\<forall>job fl. bt_get (mh_inflight h) job = Some fl \<longrightarrow> P job fl)"

lemma flights_all_remove [simp]:
  "flights_all P h \<Longrightarrow> flights_all P (h\<lparr>mh_inflight := bt_remove job (mh_inflight h), mh_detached := d\<rparr>)"
  "flights_all P h \<Longrightarrow> flights_all P (h\<lparr>mh_inflight := bt_remove job (mh_inflight h)\<rparr>)"
  by (auto simp: flights_all_def bt_get_remove split: if_splits)

lemma flights_all_insert:
  "flights_all P h \<Longrightarrow> P job fl \<Longrightarrow> flights_all P (h\<lparr>mh_inflight := bt_insert job fl (mh_inflight h)\<rparr>)"
  by (auto simp: flights_all_def bt_get_insert split: if_splits)

lemma flights_all_escalate:
  "flights_all P h \<Longrightarrow> (\<And>job fl. P job fl \<Longrightarrow> Q job (escalate_flight now fl)) \<Longrightarrow>
     flights_all Q (escalate_reclaims now h)"
  by (auto simp: flights_all_def escalate_reclaims_def bt_get_map_values bt_inv_def comp_def case_prod_beta)

lemma reap_loop_all:
  "reap_loop sy now runs steps h w = (r, h', w') \<Longrightarrow> flights_all P h \<Longrightarrow>
     flights_all P h' \<and> mh_detached h' = mh_detached h"
proof (induction runs arbitrary: steps h w)
  case (Cons run runs)
  obtain job fl out where run: "run = (job, fl, out)" by (cases run)
  obtain s w1 where one: "reap_one sy now job fl out w = (s, w1)" by fastforce
  show ?case
  proof (cases s)
    case (Inr step)
    then show ?thesis
      using Cons.IH [of "steps @ [step]" "h\<lparr>mh_inflight := bt_remove job (mh_inflight h)\<rparr>" w1] Cons.prems one run
      by (simp add: Let_def)
  qed (use Cons.prems one run in \<open>auto simp: Let_def\<close>)
qed simp

lemma handle_cancel_cancelled: "is_cancelled (handle_cancel st)"
  by (auto simp: is_cancelled_def read_signal_def handle_cancel_def escalate_def max_def word_le_nat_alt)

lemma abandon_all:
  assumes "flights_all P h" "abandon_lost_leases h b now = (lost, h')"
  shows "flights_all P h' \<and>
    (\<forall>fl \<in> set (mh_detached h'). fl \<in> set (mh_detached h) \<or> is_cancelled (fl_handle fl))"
proof -
  have "flights_all P (fold (\<lambda>(job, lease). drop_run job) ls g) \<and>
      (\<forall>fl \<in> set (mh_detached (fold (\<lambda>(job, lease). drop_run job) ls g)).
         fl \<in> set (mh_detached g) \<or> is_cancelled (fl_handle fl))"
    if "flights_all P g" for ls :: "(job_id \<times> key32) list" and g
    using that
  proof (induction ls arbitrary: g)
    case (Cons l ls)
    have "flights_all P (drop_run (fst l) g)"
      using Cons.prems by (auto simp: drop_run_def split: option.splits)
    with Cons.IH [OF this] show ?case
      by (cases l) (auto simp: drop_run_def handle_cancel_cancelled split: option.splits)
  qed simp
  with assms show ?thesis
    by (auto simp: abandon_lost_leases_def Let_def)
qed

text \<open>What holds of a run that has just been spawned.\<close>

definition fresh_flight :: "in_flight \<Rightarrow> bool" where
  "fresh_flight fl \<longleftrightarrow> fl_handle fl = control_new \<and> fl_reclaim fl = None \<and> fl_joined fl = None"

lemma fresh_flightI:
  "fresh_flight \<lparr>fl_handle = control_new, fl_spawned = t, fl_joined = None, fl_lease = l, fl_reclaim = None\<rparr>"
  by (simp add: fresh_flight_def)

lemma start_None: "start h b job now = (None, h') \<Longrightarrow> h' = h"
  unfolding start_def by (auto split: option.splits lease_phase.splits if_splits)

lemma start_Some:
  "start h b job now = (Some s, h') \<Longrightarrow>
     \<exists>fl. fresh_flight fl \<and> h' = h\<lparr>mh_inflight := bt_insert job fl (mh_inflight h)\<rparr>"
  unfolding start_def
  by (auto split: option.splits lease_phase.splits if_splits
      intro!: exI [of _ "\<lparr>fl_handle = control_new, fl_spawned = _, fl_joined = None, fl_lease = _, fl_reclaim = None\<rparr>"]
        fresh_flightI)

lemma take_action_flights:
  assumes "take_action sy now b a steps h w = (r, h', w')"
  shows "h' = h
    \<or> (\<exists>job fl. fresh_flight fl \<and> h' = h\<lparr>mh_inflight := bt_insert job fl (mh_inflight h)\<rparr>)
    \<or> (\<exists>job lease reason. a = Reclaim job lease reason
        \<and> h' = begin_reclaim job reason (class_of b job) now h)"
proof (cases a)
  case (Execute job)
  then show ?thesis
    using assms start_None [of h b job now] start_Some [of h b job now]
    by (auto simp: take_action_def split: prod.splits option.splits)
qed (use assms in \<open>auto simp: take_action_def class_of_def Let_def split: prod.splits sum.splits\<close>)

lemma begin_reclaim_all:
  assumes "flights_all P h" "\<And>fl grace. P job fl \<Longrightarrow> P job (reclaim_flight reason cls grace now fl)"
  shows "flights_all P (begin_reclaim job reason cls now h)
    \<and> mh_detached (begin_reclaim job reason cls now h) = mh_detached h"
proof (cases "bt_get (mh_inflight h) job")
  case (Some fl)
  with assms have "P job (reclaim_flight reason cls grace now fl)" for grace
    by (auto simp: flights_all_def)
  with Some assms(1) show ?thesis
    by (simp add: begin_reclaim_def flights_all_insert)
qed (simp add: begin_reclaim_def assms(1))

lemma tick_all:
  assumes "tick sy now c h w = (r, h', w')" "flights_all P h"
    and fresh: "\<And>job fl. fresh_flight fl \<Longrightarrow> P job fl"
    and overdue: "\<And>job fl. P job fl \<Longrightarrow> P job (escalate_flight now fl)"
    and reclaim: "\<And>job fl w1 b reason grace. sm_board sy w1 = Inr b \<Longrightarrow> P job fl \<Longrightarrow>
      P job (reclaim_flight reason (class_of b job) grace now fl)"
  shows "flights_all P h' \<and> (\<forall>fl \<in> set (mh_detached h'). fl \<in> set (mh_detached h) \<or> is_cancelled (fl_handle fl))"
  using assms(1)
proof (cases rule: tickE)
  case (acted steps h1 w1 b lost h2)
  let ?h = "escalate_reclaims now h2"
  have "flights_all P h1" "mh_detached h1 = mh_detached h"
    using reap_loop_all [OF acted(1) [unfolded reap_def] assms(2)] by simp_all
  then have "flights_all P h2" and d2: "\<forall>fl \<in> set (mh_detached h2). fl \<in> set (mh_detached h) \<or> is_cancelled (fl_handle fl)"
    using abandon_all [OF _ acted(3), of P] by simp_all
  then have esc: "flights_all P ?h" "mh_detached ?h = mh_detached h2"
    using flights_all_escalate [of P h2 P now] overdue by (auto simp: escalate_reclaims_def)
  then have "flights_all P h' \<and> mh_detached h' = mh_detached h2"
    using take_action_flights [OF acted(4)] fresh
      begin_reclaim_all [OF esc(1), of _ _ "class_of b _" now] reclaim [OF acted(2)]
    by (auto simp: flights_all_insert)
  with d2 show ?thesis by simp
qed (use reap_loop_all [of sy now "finished_runs h" "[]" h w _ h' w' P] assms(2) in \<open>auto simp: reap_def\<close>)

section \<open>When a run is told to stop\<close>

text \<open>
  A run carries no request before its owner asks for the device, none while it is in its grace
  window, and one afterwards.
\<close>

definition flight_inv :: "in_flight \<Rightarrow> bool" where
  "flight_inv fl =
     (case fl_reclaim fl of
        None \<Rightarrow> cs_signal (fl_handle fl) = 0
      | Some rc \<Rightarrow> if rc_signalled rc then cs_signal (fl_handle fl) \<ge> 1 else cs_signal (fl_handle fl) = 0)"

definition host_inv :: "mesh_host \<Rightarrow> bool" where
  "host_inv h \<longleftrightarrow>
     flights_all (\<lambda>_. flight_inv) h \<and> (\<forall>fl \<in> set (mh_detached h). is_cancelled (fl_handle fl))"

lemmas signal_defs = handle_cancel_def request_checkpoint_def escalate_def max_def

lemma flight_inv_fresh: "fresh_flight fl \<Longrightarrow> flight_inv fl"
  by (simp add: fresh_flight_def flight_inv_def control_new_def)

lemma flight_inv_escalate: "flight_inv fl \<Longrightarrow> flight_inv (escalate_flight now fl)"
  by (auto simp: escalate_flight_def flight_inv_def signal_defs split: option.splits if_splits)

lemma flight_inv_reclaim: "flight_inv fl \<Longrightarrow> flight_inv (reclaim_flight reason cls grace now fl)"
  by (cases cls) (auto simp: reclaim_flight_def is_reclaiming_def flight_inv_def signal_defs)

lemma run_side_signal: "run_side call \<Longrightarrow> cs_signal (control_exec call st) = cs_signal st"
  by (cases call) (simp_all add: control_report_def set_activity_def hold_checkpoint_def)

lemma host_move_inv: "host_move sy s s' \<Longrightarrow> host_inv (fst s) \<Longrightarrow> host_inv (fst s')"
proof (induction rule: host_move.induct)
  case (tick now c h w r h' w')
  then show ?case
    using tick_all [of sy now c h w r h' w' "\<lambda>_. flight_inv"] flight_inv_fresh flight_inv_escalate flight_inv_reclaim
    by (fastforce simp: host_inv_def)
next
  case (policy h w p)
  then show ?case by (simp add: host_inv_def flights_all_def set_policy_def)
next
  case (works h job fl call w)
  then have "flight_inv fl"
    by (simp add: host_inv_def flights_all_def)
  then have "flight_inv (fl\<lparr>fl_handle := control_exec call (fl_handle fl)\<rparr>)"
    using works(3) by (auto simp: flight_inv_def run_side_signal split: option.splits)
  with works show ?case by (simp add: host_inv_def flights_all_insert)
next
  case (ends h job fl w out)
  then have "flight_inv fl"
    by (simp add: host_inv_def flights_all_def)
  then have "flight_inv (fl\<lparr>fl_joined := Some out\<rparr>)"
    by (auto simp: flight_inv_def split: option.splits)
  with ends show ?case by (simp add: host_inv_def flights_all_insert)
qed simp

lemma host_new_inv: "host_inv (host_new me config)"
  by (simp add: host_inv_def flights_all_def host_new_def)

lemma host_reach_inv:
  assumes "(host_move sy)\<^sup>*\<^sup>* (host_new me config, w0) (h, w)"
  shows "host_inv h"
proof -
  have "host_inv (fst s)" if "(host_move sy)\<^sup>*\<^sup>* (host_new me config, w0) s" for s
    using that by (induction rule: rtranclp_induct) (auto simp: host_new_inv dest: host_move_inv)
  from this [OF assms] show ?thesis by simp
qed

text \<open>A run that has not ended stays through reaping, and leaves the map only with its lease.\<close>

lemma reap_loop_keeps:
  "reap_loop sy now runs steps h w = (r, h', w') \<Longrightarrow> job \<notin> fst ` set runs \<Longrightarrow>
     bt_get (mh_inflight h') job = bt_get (mh_inflight h) job"
proof (induction runs arbitrary: steps h w)
  case (Cons run runs)
  obtain i fl out where run: "run = (i, fl, out)" by (cases run)
  obtain s w1 where one: "reap_one sy now i fl out w = (s, w1)" by fastforce
  show ?case
  proof (cases s)
    case (Inr step)
    then show ?thesis
      using Cons.IH [of "steps @ [step]" "h\<lparr>mh_inflight := bt_remove i (mh_inflight h)\<rparr>" w1] Cons.prems one run
      by (auto simp: Let_def bt_get_remove)
  qed (use Cons.prems one run in \<open>auto simp: Let_def bt_get_remove\<close>)
qed simp

lemma reap_keeps:
  assumes "reap sy now h w = (r, h', w')" "bt_inv (mh_inflight h)"
    "bt_get (mh_inflight h) job = Some fl" "fl_joined fl = None"
  shows "bt_get (mh_inflight h') job = Some fl"
proof -
  have "job \<notin> fst ` set (finished_runs h)"
    using assms(2-4) by (auto simp: finished_runs_mem bt_get_eq_iff_mem [symmetric])
  with reap_loop_keeps [OF assms(1) [unfolded reap_def]] assms(3) show ?thesis by simp
qed

lemma fold_drop_get:
  "bt_get (mh_inflight (fold (\<lambda>(job, lease). drop_run job) ls h)) job =
     (if job \<in> fst ` set ls then None else bt_get (mh_inflight h) job)"
proof (induction ls arbitrary: h)
  case (Cons l ls)
  have "bt_get (mh_inflight (drop_run (fst l) h)) job = (if job = fst l then None else bt_get (mh_inflight h) job)"
    by (auto simp: drop_run_def bt_get_remove split: option.splits)
  with Cons [of "drop_run (fst l) h"] show ?case by (cases l) auto
qed simp

lemma abandon_get:
  assumes "abandon_lost_leases h b now = (lost, h')" "bt_inv (mh_inflight h)"
    "bt_get (mh_inflight h) job = Some fl"
  shows "bt_get (mh_inflight h') job = Some fl
    \<or> bt_get (mh_inflight h') job = None
      \<and> (\<exists>l. fl_lease fl = Some l \<and> \<not> still_held b job l (mh_me h) now (hc_lease (mh_config h)))"
proof -
  have "(job, l) \<in> set (lost_leases h b now) \<Longrightarrow>
      fl_lease fl = Some l \<and> \<not> still_held b job l (mh_me h) now (hc_lease (mh_config h))" for l
    using assms(2,3)
    by (auto simp: lost_leases_def List.map_filter_def bt_get_eq_iff_mem [symmetric] split: option.splits if_splits)
  moreover have "h' = fold (\<lambda>(job, lease). drop_run job) (lost_leases h b now) h"
    using assms(1) by (simp add: abandon_lost_leases_def Let_def)
  ultimately show ?thesis
    using assms(3) fold_drop_get [of "lost_leases h b now" h job]
    by (cases "job \<in> fst ` set (lost_leases h b now)") auto
qed

lemma start_lease:
  "start h b job now = (Some s, h') \<Longrightarrow>
     \<exists>fl. fresh_flight fl \<and> h' = h\<lparr>mh_inflight := bt_insert job fl (mh_inflight h)\<rparr>
       \<and> (\<forall>l. fl_lease fl = Some l \<longrightarrow> still_held b job l (mh_me h) now (hc_lease (mh_config h)))"
  unfolding start_def
  by (auto simp: still_held_def split: option.splits lease_phase.splits if_splits
      intro!: exI [of _ "\<lparr>fl_handle = control_new, fl_spawned = _, fl_joined = None, fl_lease = _, fl_reclaim = None\<rparr>"]
        fresh_flightI)

text \<open>What the action of a tick can make of a run: nothing, a reclaim, or a new run beside it.\<close>

lemma take_action_get:
  assumes "take_action sy now b a steps h w = (r, h', w')" "action_due b me o' a"
    "ho_running o' = host_running h" "bt_get (mh_inflight h') job = Some fl'"
  shows "bt_get (mh_inflight h) job = Some fl'
    \<or> (\<exists>fl reason grace cls. bt_get (mh_inflight h) job = Some fl \<and> fl' = reclaim_flight reason cls grace now fl)
    \<or> bt_get (mh_inflight h) job = None
      \<and> (\<forall>l. fl_lease fl' = Some l \<longrightarrow> still_held b job l (mh_me h) now (hc_lease (mh_config h)))"
proof (cases a)
  case (Execute i)
  then have "bt_get (mh_inflight h) i = None"
    using assms(2,3) by (simp add: action_due_def Let_def is_running_def host_running_def bt_get_def map_of_eq_None_iff)
  with Execute show ?thesis
    using assms(1,4) start_None [of h b i now] start_lease [of h b i now]
    by (auto simp: take_action_def bt_get_insert split: prod.splits option.splits if_splits)
next
  case (Reclaim i l reason)
  with assms(1) have "h' = begin_reclaim i reason (class_of b i) now h"
    by (simp add: take_action_def class_of_def Let_def)
  with assms(4) show ?thesis
    by (auto simp: begin_reclaim_def bt_get_insert split: option.splits if_splits)
qed (use assms(1,4) in \<open>auto simp: take_action_def Let_def split: prod.splits sum.splits\<close>)

text \<open>
  C29. The owner always gets the device back, in the promised order. Whatever the ticks, the
  policy changes and the runs do: a run carries no stop request before its owner asked for the
  device nor during a grace window, and it carries one from the moment it counts as signalled;
  every run dropped with its lease has been cancelled. And the grace ends: a tick at or after
  the moment a reclaim names leaves no unfinished run of that lease in flight without a stop
  request.
\<close>

theorem reclaims_reach_the_run:
  assumes "(host_move sy)\<^sup>*\<^sup>* (host_new me config, w0) (h, w)"
  shows "host_inv h
    \<and> (tick sy now c h w = (Inr steps, h', w') \<and> bt_get (mh_inflight h) job = Some fl \<and> fl_joined fl = None
        \<and> fl_reclaim fl = Some rc \<and> rc_hard_cancel_at_ms rc \<le> now
        \<and> bt_get (mh_inflight h') job = Some fl' \<and> fl_lease fl' = fl_lease fl
       \<longrightarrow> cs_signal (fl_handle fl') \<ge> 1)"
proof (intro conjI impI)
  show inv: "host_inv h" by (rule host_reach_inv [OF assms])
  assume as: "tick sy now c h w = (Inr steps, h', w') \<and> bt_get (mh_inflight h) job = Some fl
    \<and> fl_joined fl = None \<and> fl_reclaim fl = Some rc \<and> rc_hard_cancel_at_ms rc \<le> now
    \<and> bt_get (mh_inflight h') job = Some fl' \<and> fl_lease fl' = fl_lease fl"
  from inv as have "bt_inv (mh_inflight h)" "flight_inv fl"
    by (auto simp: host_inv_def flights_all_def)
  from as have "tick sy now c h w = (Inr steps, h', w')" by simp
  then show "cs_signal (fl_handle fl') \<ge> 1"
  proof (cases rule: tickE)
    case (acted steps1 h1 w1 b lost h2)
    let ?h = "escalate_reclaims now h2"
    have same: "same_host h1 h2" "same_host h2 ?h"
      using abandon_same [OF acted(3)] escalate_same by simp_all
    have h1: "bt_get (mh_inflight h1) job = Some fl" "bt_inv (mh_inflight h1)"
      using reap_keeps [OF acted(1) \<open>bt_inv _\<close>] as
        reap_loop_all [OF acted(1) [unfolded reap_def], of "\<lambda>_ _. True"] \<open>bt_inv _\<close>
      by (auto simp: flights_all_def)
    have get: "bt_get (mh_inflight ?h) job = map_option (escalate_flight now) (bt_get (mh_inflight h2) job)"
      by (simp add: escalate_reclaims_def bt_get_map_values)
    have signal: "cs_signal (fl_handle (escalate_flight now fl)) \<ge> 1" "is_reclaiming (escalate_flight now fl)"
      using as \<open>flight_inv fl\<close>
      by (auto simp: escalate_flight_def flight_inv_def is_reclaiming_def signal_defs split: if_splits)
    show ?thesis
      using take_action_get [OF acted(4), of "mh_me h2" "host_offer_at ?h now c" job fl']
        next_action_due [of b "mh_me h2" "host_offer_at ?h now c"] as
        abandon_get [OF acted(3) h1(2,1)] get signal same
      by (auto simp: host_offer_at_simps reclaim_flight_def same_host_def)
  qed simp_all
qed

subsection \<open>A supervised run\<close>

text \<open>
  Device 2 holds the demonstration lease on a board that does not change and whose job makes a
  given promise about interruption; the owner lends the device while idle and gives 100
  milliseconds of grace.
\<close>

definition demo_host_board :: "checkpoint_class \<Rightarrow> job_board" where
  "demo_host_board cls =
     \<lparr>board_jobs = [(5, demo_held_job\<lparr>job_spec := Some (demo_spec\<lparr>js_checkpoint := cls\<rparr>)\<rparr>)], board_devices = []\<rparr>"

definition demo_sync :: "checkpoint_class \<Rightarrow> (unit, unit, unit) synced_mesh" where
  "demo_sync cls = \<lparr>sm_author = (\<lambda>_ w. (Inr 0, w)), sm_board = (\<lambda>_. Inr (demo_host_board cls))\<rparr>"

definition demo_config :: host_config where
  "demo_config =
     (config_supervised [(ResourceId ''mesh.echo/v1'', echo_resource)])
       \<lparr>hc_policy := policy_permissive\<lparr>dp_min_idle_ms := 1, dp_reclaim_grace_ms := 100\<rparr>\<rparr>"

definition demo_host_job :: "checkpoint_class \<Rightarrow> job" where
  "demo_host_job cls = demo_held_job\<lparr>job_spec := Some (demo_spec\<lparr>js_checkpoint := cls\<rparr>)\<rparr>"

lemma demo_host_job_simps [simp]:
  "job_id (demo_host_job cls) = 5" "job_spec (demo_host_job cls) = Some (demo_spec\<lparr>js_checkpoint := cls\<rparr>)"
  "job_lease_terms (demo_host_job cls) = Some (lease_terms_new 100000 1000)"
  "board_jobs (demo_host_board cls) = [(5, demo_host_job cls)]"
  "board_job (demo_host_board cls) 5 = Some (demo_host_job cls)"
  by (simp_all add: demo_host_job_def demo_host_board_def job_lease_terms_def demo_held_job_def demo_job_def
      board_job_def bt_get_def)

lemma demo_host_phase:
  "now = 500 \<or> now = 600 \<or> now = 800 \<Longrightarrow>
     lease_at (demo_host_job cls) now lease_policy_default = Held 0 11 2 5000 30 lease_progress_default"
  by (auto simp: demo_host_job_def demo_held_job_def demo_job_def demo_epochs_def lease_at_def phase_at_def
      phase_of_epoch_def job_lease_terms_def lapse_at_def sat_add_def silence_window_ms_def sat_mul_def
      lease_policy_default_def lease_terms_new_def)

lemma demo_host_can_run: "can_run (host_offer_at (host_new 2 demo_config) 500 conditions_spare) (demo_host_job cls)"
  by (cases cls; code_simp)

lemma demo_host_stop:
  "must_stop (host_offer_at h now c) =
     withholding (hc_policy (mh_config h)) (c\<lparr>dc_running_jobs := of_nat (length (mh_inflight h))\<rparr>)"
  by (simp add: must_stop_def host_offer_at_def with_lease_policy_def offer_running_def offer_observing_def
      offer_at_def offer_new_def)

lemma demo_execute:
  "next_action (demo_host_board cls) 2 (host_offer_at (host_new 2 demo_config) 500 conditions_spare) = Execute 5"
  using demo_host_can_run [of cls]
  by (simp add: next_action_def job_phases_def bt_values_def host_offer_at_simps host_new_def demo_config_def
      config_supervised_def demo_host_phase demo_host_stop withholding_def policy_permissive_def
      conditions_spare_def less_network_class_def reclaim_of_def heartbeat_of_def lease_terms_new_def sat_add_def
      execute_of_def is_mine_def is_running_def host_running_def)

definition demo_flight :: "checkpoint_class \<Rightarrow> in_flight" where
  "demo_flight cls =
     \<lparr>fl_handle = control_new,
      fl_spawned = SpawnSpec (demo_spec\<lparr>js_checkpoint := cls\<rparr>) \<lparr>rc_job = 5, rc_lease = Some 11\<rparr> [],
      fl_joined = None, fl_lease = Some 11, fl_reclaim = None\<rparr>"

definition demo_host :: "in_flight \<Rightarrow> mesh_host" where
  "demo_host fl = (host_new 2 demo_config)\<lparr>mh_inflight := [(5, fl)]\<rparr>"

lemma demo_start:
  "tick (demo_sync cls) 500 conditions_spare (host_new 2 demo_config) ()
    = (Inr [StepStarted 5 (Some 11)], demo_host (demo_flight cls), ())"
  using demo_execute [of cls]
  by (simp add: tick_def reap_def finished_runs_def List.map_filter_def host_new_def demo_sync_def
      abandon_lost_leases_def lost_leases_def escalate_reclaims_def take_action_def start_def demo_host_phase
      demo_config_def config_supervised_def demo_host_def demo_flight_def blob_sources_def master_of_def
      demo_host_board_def [THEN arg_cong [of _ _ board_devices]])

lemma demo_reclaim_action:
  assumes "now = 600 \<or> now = 800"
  shows "next_action (demo_host_board cls) 2 (host_offer_at (demo_host fl) now (conditions_in_use conditions_spare))
    = Reclaim 5 11 ForegroundActivity"
  using demo_host_phase [of now cls] assms
  by (auto simp: next_action_def job_phases_def bt_values_def host_offer_at_simps host_new_def demo_config_def
      config_supervised_def demo_host_stop withholding_def policy_permissive_def demo_host_def
      conditions_in_use_def reclaim_of_def is_running_def host_running_def)

lemma demo_reclaim:
  assumes "now = 600 \<or> now = 800" "fl_lease fl = Some 11" "fl_joined fl = None"
  shows "tick (demo_sync cls) now (conditions_in_use conditions_spare) (demo_host fl) ()
    = (Inr [StepAwaitingStop 5],
       demo_host (reclaim_flight ForegroundActivity cls 100 now (escalate_flight now fl)), ())"
proof -
  have "lease_at (demo_host_job cls) now (hc_lease demo_config) = Held 0 11 2 5000 30 lease_progress_default"
    using demo_host_phase [of now cls] assms(1) by (auto simp: demo_config_def config_supervised_def)
  then have "lost_leases (demo_host fl) (demo_host_board cls) now = []"
    by (simp add: lost_leases_def demo_host_def host_new_def List.map_filter_def still_held_def assms(2))
  moreover have "finished_runs (demo_host fl) = []"
    by (simp add: finished_runs_def demo_host_def List.map_filter_def assms(3))
  moreover have "escalate_reclaims now (demo_host fl) = demo_host (escalate_flight now fl)"
    by (simp add: escalate_reclaims_def demo_host_def)
  moreover have "mh_me (demo_host x) = 2" "hc_policy (mh_config (demo_host x)) = hc_policy demo_config"
    "dp_reclaim_grace_ms (hc_policy demo_config) = 100" for x
    by (simp_all add: demo_host_def host_new_def demo_config_def)
  ultimately show ?thesis
    using demo_reclaim_action [OF assms(1), of cls "escalate_flight now fl"]
    by (simp add: tick_def reap_def demo_sync_def abandon_lost_leases_def take_action_def begin_reclaim_def
        class_of_def)
      (simp add: demo_host_def bt_get_def)
qed

text \<open>The run as the owner comes back at 600 and is still there at 800.\<close>

definition demo_asked :: "checkpoint_class \<Rightarrow> in_flight" where
  "demo_asked cls = reclaim_flight ForegroundActivity cls 100 600 (demo_flight cls)"

lemma demo_reach:
  "(host_move (demo_sync cls))\<^sup>*\<^sup>* (host_new 2 demo_config, ()) (demo_host (demo_asked cls), ())"
proof -
  have "escalate_flight 600 (demo_flight cls) = demo_flight cls"
    by (simp add: escalate_flight_def demo_flight_def)
  then have "tick (demo_sync cls) 600 (conditions_in_use conditions_spare) (demo_host (demo_flight cls)) ()
      = (Inr [StepAwaitingStop 5], demo_host (demo_asked cls), ())"
    using demo_reclaim [of 600 "demo_flight cls" cls] by (simp add: demo_asked_def demo_flight_def)
  then have "host_move (demo_sync cls) (demo_host (demo_flight cls), ()) (demo_host (demo_asked cls), ())"
    by (rule host_move.tick)
  moreover have "host_move (demo_sync cls) (host_new 2 demo_config, ()) (demo_host (demo_flight cls), ())"
    by (rule host_move.tick [OF demo_start])
  ultimately show ?thesis by (meson converse_rtranclp_into_rtranclp rtranclp.rtrancl_refl)
qed

theorem reclaims_reach_the_run_witness:
  "host_inv (demo_host (demo_asked NonInterruptible))
   \<and> cs_signal (fl_handle (demo_asked NonInterruptible)) = 0
   \<and> (\<exists>h' fl'. tick (demo_sync NonInterruptible) 800 (conditions_in_use conditions_spare)
          (demo_host (demo_asked NonInterruptible)) () = (Inr [StepAwaitingStop 5], h', ())
        \<and> bt_get (mh_inflight h') 5 = Some fl' \<and> cs_signal (fl_handle fl') \<ge> 1)"
proof -
  let ?fl = "demo_asked NonInterruptible"
  let ?fl' = "reclaim_flight ForegroundActivity NonInterruptible 100 800 (escalate_flight 800 ?fl)"
  have fl: "fl_lease ?fl = Some 11" "fl_joined ?fl = None" "cs_signal (fl_handle ?fl) = 0"
    "fl_reclaim ?fl = Some \<lparr>rc_reason = ForegroundActivity, rc_hard_cancel_at_ms = 700, rc_signalled = False\<rparr>"
    by (simp_all add: demo_asked_def reclaim_flight_def is_reclaiming_def demo_flight_def sat_add_def control_new_def)
  then have lease: "fl_lease ?fl' = Some 11"
    by (simp add: reclaim_flight_def escalate_flight_def is_reclaiming_def)
  have get: "bt_get (mh_inflight (demo_host x)) 5 = Some x" for x
    by (simp add: demo_host_def bt_get_def)
  note t = demo_reclaim [of 800, OF _ fl(1,2), of NonInterruptible, simplified]
  show ?thesis
    using reclaims_reach_the_run [OF demo_reach, of NonInterruptible 800 "conditions_in_use conditions_spare"
        "[StepAwaitingStop 5]" "demo_host ?fl'" "()" 5 ?fl
        "\<lparr>rc_reason = ForegroundActivity, rc_hard_cancel_at_ms = 700, rc_signalled = False\<rparr>" ?fl'] t fl lease get
    by simp
qed




section \<open>Two reports that are never made\<close>

text \<open>
  C36. A job that promised to be resumable is never cancelled by its owner's reclaim. Whatever the
  ticks and the runs do, as long as the board shows the job as resumable, the control of its
  run in flight carries at most the request for a checkpoint, and a run that only asks whether
  it was cancelled is told to go on: a resource without checkpoints keeps the device until it
  is done. The moment of the hard cancel, which a reclaim of such a job records as the moment
  of the request, is never acted on.
\<close>

theorem resumable_run_is_never_cancelled:
  assumes "(host_move sy)\<^sup>*\<^sup>* (host_new me config, w0) (h, w)"
    and "\<And>w b. sm_board sy w = Inr b \<Longrightarrow> class_of b job = Resumable"
    and "bt_get (mh_inflight h) job = Some fl"
  shows "cs_signal (fl_handle fl) \<le> 1 \<and> control_check (fl_handle fl) = Inr ()"
proof -
  define P where "P i fl \<longleftrightarrow>
    (i = job \<longrightarrow> cs_signal (fl_handle fl) \<le> 1 \<and> (\<forall>rc. fl_reclaim fl = Some rc \<longrightarrow> rc_signalled rc))"
    for i :: job_id and fl :: in_flight
  have fresh: "P i fl" if "fresh_flight fl" for i fl
    using that by (simp add: P_def fresh_flight_def control_new_def)
  have overdue: "P i (escalate_flight now fl)" if "P i fl" for i fl now
    using that by (auto simp: P_def escalate_flight_def split: option.splits)
  have reclaim: "P i (reclaim_flight reason (class_of b i) grace now fl)"
    if "sm_board sy w1 = Inr b" "P i fl" for i fl w1 b reason grace now
    using that assms(2) [OF that(1)]
    by (auto simp: P_def reclaim_flight_def is_reclaiming_def signal_defs split: checkpoint_class.splits)
  have step: "flights_all P (fst s')" if "host_move sy s s'" "flights_all P (fst s)" for s s'
    using that
  proof (induction rule: host_move.induct)
    case (tick now c h w r h' w')
    then show ?case
      using tick_all [OF tick(1), of P] fresh overdue reclaim by simp
  next
    case (works h job' fl call w)
    then have "P job' (fl\<lparr>fl_handle := control_exec call (fl_handle fl)\<rparr>)"
      by (auto simp: P_def flights_all_def run_side_signal)
    with works show ?case by (simp add: flights_all_insert)
  next
    case (ends h job' fl w out)
    then have "P job' (fl\<lparr>fl_joined := Some out\<rparr>)"
      by (auto simp: P_def flights_all_def)
    with ends show ?case by (simp add: flights_all_insert)
  qed (simp_all add: flights_all_def set_policy_def)
  have "flights_all P (fst s)" if "(host_move sy)\<^sup>*\<^sup>* (host_new me config, w0) s" for s
    using that
    by (induction rule: rtranclp_induct) (simp add: flights_all_def host_new_def, blast intro: step)
  from this [OF assms(1)] assms(3) have "cs_signal (fl_handle fl) \<le> 1"
    by (auto simp: flights_all_def P_def)
  with level_le_1 [OF this] show ?thesis
    by (auto simp: control_check_def is_cancelled_def read_signal_def)
qed

theorem resumable_run_is_never_cancelled_witness:
  "fl_reclaim (demo_asked Resumable) \<noteq> None \<and> cs_signal (fl_handle (demo_asked Resumable)) = 1
   \<and> control_check (fl_handle (demo_asked Resumable)) = Inr ()"
proof -
  have "class_of b 5 = Resumable" if "sm_board (demo_sync Resumable) w = Inr b" for w b
    using that by (auto simp: demo_sync_def class_of_def)
  then have "control_check (fl_handle (demo_asked Resumable)) = Inr ()"
    using resumable_run_is_never_cancelled [OF demo_reach, of Resumable 5 "demo_asked Resumable"]
    by (simp add: demo_host_def bt_get_def)
  then show ?thesis
    by (simp add: demo_asked_def reclaim_flight_def is_reclaiming_def demo_flight_def signal_defs control_new_def)
qed

text \<open>
  C35. A missing input is reported as a failure of the worker. A run whose input no device
  delivered ends with the missing blob wrapped as an error of the resource, and the supervisor
  reports every such error as failed; the reason reserved for unavailable inputs is never
  given for a run of a job manifest, when the blob space does not answer a write with a
  missing blob.
\<close>

theorem missing_input_reported_as_failure:
  assumes "\<And>b s e. fst (sink b s) = Inl e \<Longrightarrow> \<forall>name. e \<noteq> MissingBlob name"
    and "fst (run_spawned h hex str_of reg source sink courier world host (SpawnSpec sp context sources) st s) = Inl e"
  shows "release_reason_for e = Failed"
proof -
  let ?s = "deliver_loop source courier sources (js_inputs sp) s"
  obtain st1 s1 where run: "run_job_inner h reg sp source sink world host (Some context)
      (set_activity Preparing (set_activity Fetching st)) ?s = (Inl e, st1, s1)"
    using assms(2) by (auto simp: run_spawned_def deliver_inputs_def run_job_for_def Let_def
        split: prod.splits sum.splits) (metis old.sum.exhaust map_sum.simps sum.inject(1) sum.distinct id_apply)
  have commit: "e' \<noteq> MissingBlob name"
    if "view_commit (view_grant sp source sink) out b t = (Inl e', t')" for out b t e' t' name
    using that assms(1) [of b t e']
    by (auto simp: view_commit_def Let_def split: if_splits prod.splits sum.splits)
  have "e \<noteq> RunNamespace (MissingBlob name)" for name
    using run by (auto simp: run_job_inner_def Let_def split: sum.splits option.splits prod.splits if_splits
        dest: commit)
  then show ?thesis by (cases e rule: release_reason_for.cases) auto
qed

text \<open>An echo run on a device that holds nothing and that nobody serves.\<close>

theorem missing_input_reported_as_failure_witness:
  "fst (run_spawned demo_hash (\<lambda>_. []) (\<lambda>_. []) [(ResourceId ''mesh.echo/v1'', echo_resource)]
     (\<lambda>_ _. Inr None) (\<lambda>b s. (Inr (blob_blake3 demo_hash b), s)) (\<lambda>_ _ s. s) (\<lambda>_. []) (\<lambda>_. 0)
     (SpawnSpec demo_run_spec \<lparr>rc_job = 5, rc_lease = Some 11\<rparr> []) control_new ())
   = Inl (RunResource (ResourceNamespace (MissingBlob ''payload'')))
   \<and> release_reason_for (RunResource (ResourceNamespace (MissingBlob ''payload''))) = Failed"
  (is "?run = Inl ?e \<and> _")
proof
  have "spec_validate demo_run_spec = Inr ()" "satisfies ExactBytes Exact"
    by code_simp+
  then show run: "?run = Inl ?e"
    by (simp add: run_spawned_def deliver_inputs_def run_job_for_def run_job_inner_def demo_run_spec_def
        spec_simple_def registry_get_def bt_get_def echo_resource_def builtin_descriptor_def read_payload_def
        PAYLOAD_def view_grant_def view_read_def Let_def)
  show "release_reason_for ?e = Failed"
    by (rule missing_input_reported_as_failure [OF _ run]) auto
qed

end
