(* ===== verification/Stickleback_Keys.thy ===== *)
theory Stickleback_Keys
  imports Muniment
begin

text \<open>
  The key schema of the operation store (\<^verbatim>\<open>crates/stickleback/src/store.rs\<close>): the
  log entries, the pointers by operation id, the topic associations and the payload references of a
  flat string key space. Hex, CBOR and the header format belong to other crates; they are the
  fields of \<open>store_codec\<close>, and \<open>codec_ok\<close> states what the store relies on. The
  formatting and parsing of numbers and the UTF-8 check are the standard library's.
\<close>

section \<open>Numbers and text\<close>

text \<open>\<^verbatim>\<open>format!("{:016x}")\<close> of a sequence number.\<close>

definition hex_digit :: "nat \<Rightarrow> char" where
  "hex_digit d = ''0123456789abcdef'' ! d"

fun hex_pad :: "nat \<Rightarrow> nat \<Rightarrow> string" where
  "hex_pad 0 v = []"
| "hex_pad (Suc w) v = hex_pad w (v div 16) @ [hex_digit (v mod 16)]"

definition seq_hex :: "u32 \<Rightarrow> string" where
  "seq_hex n = hex_pad 16 (unat n)"

text \<open>\<^verbatim>\<open>u32::from_str_radix(s, 16)\<close>.\<close>

definition radix_digit :: "char \<Rightarrow> nat option" where
  "radix_digit c =
     (let n = of_char c :: nat
      in if is_ascii_digit c then Some (n - 48)
         else if 97 \<le> n \<and> n \<le> 102 then Some (n - 87)
         else if 65 \<le> n \<and> n \<le> 70 then Some (n - 55)
         else None)"

fun radix_loop :: "nat \<Rightarrow> string \<Rightarrow> string + nat" where
  "radix_loop acc [] = Inr acc"
| "radix_loop acc (c # cs) =
     (case radix_digit c of
        None \<Rightarrow> Inl ''invalid digit found in string''
      | Some d \<Rightarrow>
          if acc * 16 + d \<ge> 2 ^ 32 then Inl ''number too large to fit in target type''
          else radix_loop (acc * 16 + d) cs)"

definition u32_from_hex :: "string \<Rightarrow> string + u32" where
  "u32_from_hex s =
     (if s = [] then Inl ''cannot parse integer from empty string''
      else if s = ''+'' \<or> s = ''-'' then Inl ''invalid digit found in string''
      else and_then (radix_loop 0 (if hd s = CHR ''+'' then tl s else s)) (\<lambda>n. Inr (of_nat n)))"

text \<open>\<^verbatim>\<open>String::into_bytes\<close> and \<^verbatim>\<open>String::from_utf8\<close>.\<close>

definition str_bytes :: "string \<Rightarrow> bytes" where
  "str_bytes s = map (\<lambda>c. of_nat (of_char c)) s"

definition cont :: "u8 \<Rightarrow> bool" where
  "cont b \<longleftrightarrow> 0x80 \<le> b \<and> b \<le> 0xBF"

fun utf8_valid :: "bytes \<Rightarrow> bool" where
  "utf8_valid [] \<longleftrightarrow> True"
| "utf8_valid (a # s) \<longleftrightarrow>
     (if a < 0x80 then utf8_valid s
      else if 0xC2 \<le> a \<and> a \<le> 0xDF then
        (case s of b # s \<Rightarrow> cont b \<and> utf8_valid s | _ \<Rightarrow> False)
      else if 0xE0 \<le> a \<and> a \<le> 0xEF then
        (case s of
           b # c # s \<Rightarrow>
             cont b \<and> (a = 0xE0 \<longrightarrow> 0xA0 \<le> b) \<and> (a = 0xED \<longrightarrow> b \<le> 0x9F) \<and> cont c \<and> utf8_valid s
         | _ \<Rightarrow> False)
      else if 0xF0 \<le> a \<and> a \<le> 0xF4 then
        (case s of
           b # c # d # s \<Rightarrow>
             cont b \<and> (a = 0xF0 \<longrightarrow> 0x90 \<le> b) \<and> (a = 0xF4 \<longrightarrow> b \<le> 0x8F) \<and> cont c \<and> cont d
             \<and> utf8_valid s
         | _ \<Rightarrow> False)
      else False)"

section \<open>Operations and their encodings\<close>

text \<open>What is read of a header and an operation of the external log format.\<close>

record 'x op_header =
  oh_verifying_key :: key32
  oh_seq_num :: u32
  oh_backlink :: "key32 option"
  oh_payload_hash :: "key32 option"
  oh_payload_size :: u32
  oh_extensions :: 'x

record 'x replica_op =
  ro_hash :: key32
  ro_header :: "'x op_header"
  ro_body :: "bytes option"

record ('l, 'x) store_codec =
  cd_hex32 :: "key32 \<Rightarrow> string"
  cd_hex :: "bytes \<Rightarrow> string"
  cd_unhex :: "string \<Rightarrow> string + bytes"
  cd_verifying_key :: "bytes \<Rightarrow> string + key32"
  cd_encode_log :: "'l \<Rightarrow> string + bytes"
  cd_decode_log :: "bytes \<Rightarrow> string + 'l"
  cd_encode_header :: "'x op_header \<Rightarrow> bytes"
  cd_decode_header :: "bytes \<Rightarrow> string + 'x op_header"
  cd_encode_pair :: "bytes \<times> bytes option \<Rightarrow> string + bytes"
  cd_decode_pair :: "bytes \<Rightarrow> string + bytes \<times> bytes option"
  cd_header_hash :: "'x op_header \<Rightarrow> key32"
  cd_digest :: "bytes \<Rightarrow> key32"
  cd_utf8_error :: "bytes \<Rightarrow> string"

definition codec :: "string + 'a \<Rightarrow> store_error + 'a" where
  "codec r = (case r of Inl e \<Rightarrow> Inl (CodecError e) | Inr x \<Rightarrow> Inr x)"

lemma codec_simps [simp]: "codec (Inl e) = Inl (CodecError e)" "codec (Inr x) = Inr x"
  by (simp_all add: codec_def)

definition from_utf8 :: "('l, 'x) store_codec \<Rightarrow> bytes \<Rightarrow> store_error + string" where
  "from_utf8 E b =
     (if utf8_valid b then Inr (map (\<lambda>x. char_of (unat x)) b) else Inl (CodecError (cd_utf8_error E b)))"

definition stale_blob :: "string + 'a \<Rightarrow> store_error + 'a" where
  "stale_blob r =
     (case r of
        Inl e \<Rightarrow>
          Inl (CodecError (''stored operation is not p2panda 0.7.1 format; export semantic events with '' @
            ''the previous build and re-author them into a fresh store: '' @ e))
      | Inr x \<Rightarrow> Inr x)"

definition encode_blob :: "('l, 'x) store_codec \<Rightarrow> 'x op_header \<Rightarrow> bytes option \<Rightarrow> store_error + bytes" where
  "encode_blob E header body = codec (cd_encode_pair E (cd_encode_header E header, body))"

definition decode_blob :: "('l, 'x) store_codec \<Rightarrow> bytes \<Rightarrow> store_error + 'x op_header \<times> bytes option" where
  "decode_blob E b =
     and_then (stale_blob (cd_decode_pair E b)) (\<lambda>(header_bytes, body).
       and_then (stale_blob (cd_decode_header E header_bytes)) (\<lambda>header. Inr (header, body)))"

definition encode_op :: "('l, 'x) store_codec \<Rightarrow> 'x replica_op \<Rightarrow> store_error + bytes" where
  "encode_op E oper = encode_blob E (ro_header oper) (ro_body oper)"

definition decode_op :: "('l, 'x) store_codec \<Rightarrow> bytes \<Rightarrow> store_error + 'x replica_op" where
  "decode_op E b =
     and_then (decode_blob E b) (\<lambda>(header, body).
       Inr \<lparr>ro_hash = cd_header_hash E header, ro_header = header, ro_body = body\<rparr>)"

section \<open>Keys\<close>

definition op_ptr :: "('l, 'x) store_codec \<Rightarrow> key32 \<Rightarrow> string" where
  "op_ptr E hash = ''op/'' @ cd_hex32 E hash"

definition log_seg :: "('l, 'x) store_codec \<Rightarrow> 'l \<Rightarrow> store_error + string" where
  "log_seg E log_id = and_then (codec (cd_encode_log E log_id)) (\<lambda>b. Inr (cd_hex E b))"

definition log_prefix :: "('l, 'x) store_codec \<Rightarrow> key32 \<Rightarrow> 'l \<Rightarrow> store_error + string" where
  "log_prefix E author log_id =
     and_then (log_seg E log_id) (\<lambda>seg. Inr (''log/'' @ cd_hex32 E author @ ''/'' @ seg @ ''/''))"

definition scan_end :: "string \<Rightarrow> string" where
  "scan_end p = p @ ''g''"

definition seq_from_key :: "string \<Rightarrow> string \<Rightarrow> store_error + u32" where
  "seq_from_key key p =
     (case strip_prefix p key of
        None \<Rightarrow> Inl (CodecError ''log key missing its prefix'')
      | Some seq \<Rightarrow> codec (u32_from_hex seq))"

definition topic_key :: "('l, 'x) store_codec \<Rightarrow> key32 \<Rightarrow> key32 \<Rightarrow> 'l \<Rightarrow> store_error + string" where
  "topic_key E topic author log_id =
     and_then (log_seg E log_id) (\<lambda>seg.
       Inr (''topic/'' @ cd_hex32 E topic @ ''/'' @ cd_hex32 E author @ ''/'' @ seg))"

definition payload_ref_prefix :: "('l, 'x) store_codec \<Rightarrow> key32 \<Rightarrow> string" where
  "payload_ref_prefix E payload_hash = ''payload-ref/'' @ cd_hex32 E payload_hash @ ''/''"

definition payload_ref_key :: "('l, 'x) store_codec \<Rightarrow> key32 \<Rightarrow> key32 \<Rightarrow> string" where
  "payload_ref_key E payload_hash operation_hash =
     payload_ref_prefix E payload_hash @ cd_hex32 E operation_hash"

definition pending_payload_key :: "('l, 'x) store_codec \<Rightarrow> key32 \<Rightarrow> string" where
  "pending_payload_key E payload_hash = ''pending-payload/'' @ cd_hex32 E payload_hash"

definition in_range :: "u32 \<Rightarrow> u32 option \<Rightarrow> u32 option \<Rightarrow> bool" where
  "in_range seq after_seq until \<longleftrightarrow>
     (case after_seq of None \<Rightarrow> True | Some a \<Rightarrow> seq > a) \<and> (case until of None \<Rightarrow> True | Some u \<Rightarrow> seq \<le> u)"

section \<open>What the store relies on\<close>

definition hex_char :: "char \<Rightarrow> bool" where
  "hex_char c \<longleftrightarrow> c \<in> set ''0123456789abcdef''"

text \<open>
  Hex output is lowercase hex and tells its inputs apart, and decoding inverts encoding.
\<close>

definition codec_ok :: "('l, 'x) store_codec \<Rightarrow> bool" where
  "codec_ok E \<longleftrightarrow>
     inj (cd_hex32 E) \<and> (\<forall>k. list_all hex_char (cd_hex32 E k))
     \<and> inj (cd_hex E) \<and> (\<forall>b. list_all hex_char (cd_hex E b))
     \<and> (\<forall>l b. cd_encode_log E l = Inr b \<longrightarrow> cd_decode_log E b = Inr l)
     \<and> (\<forall>h. cd_decode_header E (cd_encode_header E h) = Inr h)
     \<and> (\<forall>p b. cd_encode_pair E p = Inr b \<longrightarrow> cd_decode_pair E b = Inr p)"

lemma decode_encode_blob: "codec_ok E \<Longrightarrow> encode_blob E h body = Inr b \<Longrightarrow> decode_blob E b = Inr (h, body)"
  by (auto simp: codec_ok_def encode_blob_def decode_blob_def stale_blob_def codec_def split: sum.splits)

lemma log_seg_inj: "codec_ok E \<Longrightarrow> log_seg E l = Inr s \<Longrightarrow> log_seg E l' = Inr s \<Longrightarrow> l = l'"
  by (auto simp: codec_ok_def log_seg_def and_then_eq_Inr codec_def inj_def split: sum.splits) (metis sum.inject(2))

lemma hex_no_slash: "list_all hex_char s \<Longrightarrow> CHR ''/'' \<notin> set s"
  by (auto simp: hex_char_def list_all_iff)

lemma log_seg_hex: "codec_ok E \<Longrightarrow> log_seg E l = Inr s \<Longrightarrow> list_all hex_char s"
  by (auto simp: codec_ok_def log_seg_def and_then_eq_Inr)

lemma log_prefix_inj:
  assumes "codec_ok E" "log_prefix E a l = Inr p" "log_prefix E a' l' = Inr p"
  shows "a = a' \<and> l = l'"
proof -
  obtain s s' where s: "log_seg E l = Inr s" "log_seg E l' = Inr s'"
    and p: "p = ''log/'' @ cd_hex32 E a @ ''/'' @ s @ ''/''" "p = ''log/'' @ cd_hex32 E a' @ ''/'' @ s' @ ''/''"
    using assms(2,3) by (auto simp: log_prefix_def and_then_eq_Inr)
  have slash: "CHR ''/'' \<notin> set (cd_hex32 E k)" for k
    using assms(1) hex_no_slash by (auto simp: codec_ok_def)
  from p have "cd_hex32 E a @ CHR ''/'' # (s @ ''/'') = cd_hex32 E a' @ CHR ''/'' # (s' @ ''/'')" by simp
  then have "split_on (CHR ''/'') (cd_hex32 E a @ CHR ''/'' # (s @ ''/'')) = split_on (CHR ''/'') (cd_hex32 E a' @ CHR ''/'' # (s' @ ''/''))"
    by (rule arg_cong)
  then have "cd_hex32 E a = cd_hex32 E a'" "s @ ''/'' = s' @ ''/''"
    using p slash by (simp_all add: split_on_append)
  with assms(1) s log_seg_inj [OF assms(1), of l s l'] show ?thesis by (auto simp: codec_ok_def inj_def)
qed

section \<open>Sequence numbers in keys\<close>

lemma length_hex_pad [simp]: "length (hex_pad w v) = w"
  by (induction w arbitrary: v) simp_all

lemma hex_digit_char: "d < 16 \<Longrightarrow> hex_char (hex_digit d)"
  unfolding hex_digit_def hex_char_def by (rule nth_mem) simp

lemma hex_pad_hex: "list_all hex_char (hex_pad w v)"
  by (induction w arbitrary: v) (simp_all add: hex_digit_char)

lemma digits_sorted: "sorted_wrt (<) ''0123456789abcdef''"
  by code_simp

lemma hex_digit_less: "d < e \<Longrightarrow> e < 16 \<Longrightarrow> hex_digit d < hex_digit e"
  using sorted_wrt_nth_less [OF digits_sorted, of d e] by (simp add: hex_digit_def)

lemma less_snoc:
  fixes xs ys :: "'a::linorder list"
  shows "length xs = length ys \<Longrightarrow> xs @ [x] < ys @ [y] \<longleftrightarrow> xs < ys \<or> xs = ys \<and> x < y"
  by (induction xs ys rule: list_induct2) auto

lemma hex_pad_less: "v < u \<Longrightarrow> u < 16 ^ w \<Longrightarrow> hex_pad w v < hex_pad w u"
proof (induction w arbitrary: v u)
  case (Suc w)
  then have "u div 16 < 16 ^ w" by (simp add: less_mult_imp_div_less mult.commute)
  moreover have "v div 16 < u div 16 \<or> v div 16 = u div 16 \<and> v mod 16 < u mod 16"
  proof -
    have "v div 16 \<le> u div 16" using Suc.prems(1) by (simp add: div_le_mono)
    moreover have "v mod 16 < u mod 16" if "v div 16 = u div 16"
      using Suc.prems(1) that div_mult_mod_eq [of v 16] div_mult_mod_eq [of u 16] by linarith
    ultimately show ?thesis by linarith
  qed
  ultimately show ?case
    using Suc.IH by (auto simp: less_snoc intro: hex_digit_less)
qed simp

lemma length_seq_hex [simp]: "length (seq_hex n) = 16"
  by (simp add: seq_hex_def)

lemma seq_hex_less: "seq_hex n < seq_hex m \<longleftrightarrow> n < m"
proof -
  have less: "seq_hex n < seq_hex m" if "n < m" for n m
  proof -
    have "unat m < 16 ^ 16" using unsigned_less [of m, where ?'a = nat] by simp
    with that show ?thesis unfolding seq_hex_def by (intro hex_pad_less) (simp_all add: word_less_nat_alt)
  qed
  show ?thesis using less [of n m] less [of m n] by (cases n m rule: linorder_cases) auto
qed

lemma seq_hex_inj: "seq_hex n = seq_hex m \<longleftrightarrow> n = m"
  using seq_hex_less [of n m] seq_hex_less [of m n] by (cases n m rule: linorder_cases) auto

lemma radix_loop_append: "radix_loop acc (xs @ ys) = and_then (radix_loop acc xs) (\<lambda>a. radix_loop a ys)"
  by (induction xs arbitrary: acc) (auto split: option.splits)

lemma radix_hex_digit: "d < 16 \<Longrightarrow> radix_digit (hex_digit d) = Some d"
proof -
  have "\<forall>d \<in> set [0..<16]. radix_digit (hex_digit d) = Some d" by code_simp
  then show "d < 16 \<Longrightarrow> ?thesis" by simp
qed

lemma radix_loop_hex_pad: "acc * 16 ^ w + v < 2 ^ 32 \<Longrightarrow> v < 16 ^ w \<Longrightarrow> radix_loop acc (hex_pad w v) = Inr (acc * 16 ^ w + v)"
proof (induction w arbitrary: v)
  case (Suc w)
  have split: "(acc * 16 ^ w + v div 16) * 16 + v mod 16 = acc * 16 ^ Suc w + v" by simp
  have "acc * 16 ^ w + v div 16 \<le> (acc * 16 ^ w + v div 16) * 16 + v mod 16" by simp
  then have "acc * 16 ^ w + v div 16 < 2 ^ 32" unfolding split using Suc.prems(1) by (rule le_less_trans)
  moreover have "v div 16 < 16 ^ w" using Suc.prems(2) by (simp add: less_mult_imp_div_less mult.commute)
  ultimately show ?case
    using Suc split by (simp add: radix_loop_append radix_hex_digit)
qed simp

lemma seq_hex_head: "seq_hex n \<noteq> [] \<and> hd (seq_hex n) \<noteq> CHR ''+'' \<and> length (seq_hex n) \<noteq> 1"
proof -
  have "hex_char (hd (seq_hex n))"
  proof (cases "seq_hex n")
    case Nil
    then show ?thesis using length_seq_hex [of n] by simp
  next
    case (Cons c cs)
    then show ?thesis using hex_pad_hex [of 16 "unat n"] by (simp add: seq_hex_def)
  qed
  moreover have "seq_hex n \<noteq> []" using length_seq_hex [of n] by (metis list.size(3) zero_neq_numeral)
  ultimately show ?thesis by (auto simp: hex_char_def)
qed

lemma u32_from_seq_hex: "u32_from_hex (seq_hex n) = Inr n"
proof -
  have n: "unat n < 2 ^ 32" using unsigned_less [of n, where ?'a = nat] by simp
  then have "radix_loop 0 (seq_hex n) = Inr (unat n)"
    unfolding seq_hex_def using radix_loop_hex_pad [of 0 16 "unat n"] by simp
  moreover have "seq_hex n \<noteq> ''+''" "seq_hex n \<noteq> ''-''" "seq_hex n \<noteq> []" "hd (seq_hex n) \<noteq> CHR ''+''"
    using seq_hex_head [of n] by (auto simp del: length_seq_hex)
  ultimately show ?thesis by (simp add: u32_from_hex_def)
qed

lemma seq_from_log_key: "seq_from_key (p @ seq_hex n) p = Inr n"
proof -
  have "strip_prefix p (p @ seq_hex n) = Some (seq_hex n)" by (simp add: strip_prefix_Some)
  then show ?thesis by (simp add: seq_from_key_def u32_from_seq_hex)
qed

section \<open>Text that survives as bytes\<close>

lemma from_utf8_ascii:
  "list_all (\<lambda>c. of_char c < (128 :: nat)) s \<Longrightarrow> from_utf8 E (str_bytes s) = Inr s"
proof -
  assume ascii: "list_all (\<lambda>c. of_char c < (128 :: nat)) s"
  have small: "unat (of_nat (of_char c) :: u8) = of_char c" for c :: char
    by (simp add: unat_of_nat)
  have "utf8_valid (str_bytes s)"
    using ascii by (induction s) (auto simp: str_bytes_def word_less_nat_alt small)
  moreover have "map (\<lambda>x. char_of (unat x)) (str_bytes s) = s"
    by (simp add: str_bytes_def comp_def small)
  ultimately show ?thesis by (simp add: from_utf8_def)
qed

lemma hex_ascii: "hex_char c \<Longrightarrow> of_char c < (128 :: nat)"
proof -
  have "\<forall>c \<in> set ''0123456789abcdef''. of_char c < (128 :: nat)" by simp
  then show "hex_char c \<Longrightarrow> ?thesis" by (auto simp: hex_char_def)
qed

lemma str_bytes_inj: "str_bytes s = str_bytes t \<longleftrightarrow> s = t"
proof -
  have "inj (\<lambda>c :: char. of_nat (of_char c) :: u8)"
  proof (rule injI)
    fix c d :: char
    assume "(of_nat (of_char c) :: u8) = of_nat (of_char d)"
    then have "unat (of_nat (of_char c) :: u8) = unat (of_nat (of_char d) :: u8)" by simp
    then show "c = d" by (simp add: unat_of_nat)
  qed
  then show ?thesis unfolding str_bytes_def by (metis inj_map_eq_map)
qed

end
