(* ===== verification/Stickleback_Store.thy ===== *)
theory Stickleback_Store
  imports Stickleback_Keys Proof_Types
begin

text \<open>
  The operation store over any muniment backend (\<^verbatim>\<open>crates/stickleback/src/store.rs\<close>):
  inserting operations with their pointers, references and topic associations, pruning a log,
  erasing and attaching payloads, reading logs, topics and blobs. Reads go through the backend as
  it is; writes are one batch each. Locks serialise the calls of one author and log; the model is
  sequential.
\<close>

section \<open>Loops that may fail\<close>

fun fold_result :: "('a \<Rightarrow> 'b \<Rightarrow> 'e + 'b) \<Rightarrow> 'a list \<Rightarrow> 'b \<Rightarrow> 'e + 'b" where
  "fold_result f [] acc = Inr acc"
| "fold_result f (x # xs) acc = and_then (f x acc) (fold_result f xs)"

definition apply_result :: "'s backend \<Rightarrow> write_op list \<Rightarrow> 'a \<Rightarrow> 's \<Rightarrow> (store_error + 'a) \<times> 's" where
  "apply_result B writes v s =
     (case be_apply B writes s of (Inl e, s') \<Rightarrow> (Inl e, s') | (Inr _, s') \<Rightarrow> (Inr v, s'))"

section \<open>Reading by id\<close>

definition log_key_for :: "'s backend \<Rightarrow> ('l, 'x) store_codec \<Rightarrow> key32 \<Rightarrow> 's \<Rightarrow> store_error + string option" where
  "log_key_for B E ident s =
     and_then (be_get B (op_ptr E ident) s) (\<lambda>r.
       case r of
         Some b \<Rightarrow> and_then (from_utf8 E b) (\<lambda>k. Inr (Some k))
       | None \<Rightarrow> Inr None)"

definition get_operation :: "'s backend \<Rightarrow> ('l, 'x) store_codec \<Rightarrow> key32 \<Rightarrow> 's \<Rightarrow> store_error + 'x replica_op option" where
  "get_operation B E ident s =
     and_then (log_key_for B E ident s) (\<lambda>r.
       case r of
         None \<Rightarrow> Inr None
       | Some log_key \<Rightarrow>
           and_then (be_get B log_key s) (\<lambda>r.
             case r of
               Some b \<Rightarrow> and_then (decode_op E b) (\<lambda>x. Inr (Some x))
             | None \<Rightarrow> Inr None))"

definition has_operation :: "'s backend \<Rightarrow> ('l, 'x) store_codec \<Rightarrow> key32 \<Rightarrow> 's \<Rightarrow> store_error + bool" where
  "has_operation B E ident s = and_then (be_get B (op_ptr E ident) s) (\<lambda>r. Inr (r \<noteq> None))"

section \<open>Pruning\<close>

definition header_ref_delete :: "('l, 'x) store_codec \<Rightarrow> 'x op_header \<Rightarrow> key32 \<Rightarrow> write_op list" where
  "header_ref_delete E header ident =
     (case oh_payload_hash header of Some p \<Rightarrow> [DeleteOp (payload_ref_key E p ident)] | None \<Rightarrow> [])"

definition prune_step ::
  "'s backend \<Rightarrow> ('l, 'x) store_codec \<Rightarrow> string \<Rightarrow> u32 \<Rightarrow> 's \<Rightarrow> string \<Rightarrow> write_op list \<times> u64
   \<Rightarrow> store_error + write_op list \<times> u64" where
  "prune_step B E p until s key acc =
     and_then (seq_from_key key p) (\<lambda>seq.
       if seq \<ge> until then Inr acc
       else
         and_then (be_get B key s) (\<lambda>r.
           and_then
             (case r of
                Some b \<Rightarrow>
                  and_then (decode_blob E b) (\<lambda>(header, _).
                    let operation_hash = cd_header_hash E header
                    in Inr (DeleteOp (op_ptr E operation_hash) # header_ref_delete E header operation_hash))
              | None \<Rightarrow> Inr [])
             (\<lambda>ws. Inr (fst acc @ ws @ [DeleteOp key], snd acc + 1))))"

definition prefix_prune_writes ::
  "'s backend \<Rightarrow> ('l, 'x) store_codec \<Rightarrow> key32 \<Rightarrow> 'l \<Rightarrow> u32 \<Rightarrow> 's \<Rightarrow> store_error + write_op list \<times> u64" where
  "prefix_prune_writes B E author log_id until s =
     and_then (log_prefix E author log_id) (\<lambda>p.
       and_then (be_scan B p (scan_end p) s) (\<lambda>keys.
         fold_result (prune_step B E p until s) keys ([], 0)))"

definition prune_entries ::
  "'s backend \<Rightarrow> ('l, 'x) store_codec \<Rightarrow> key32 \<Rightarrow> 'l \<Rightarrow> u32 \<Rightarrow> 's \<Rightarrow> (store_error + u64) \<times> 's" where
  "prune_entries B E author log_id until s =
     (case prefix_prune_writes B E author log_id until s of
        Inl e \<Rightarrow> (Inl e, s)
      | Inr (writes, pruned) \<Rightarrow> apply_result B writes pruned s)"

section \<open>Inserting\<close>

definition erase_step ::
  "'s backend \<Rightarrow> ('l, 'x) store_codec \<Rightarrow> 's \<Rightarrow> key32 \<Rightarrow> write_op list \<times> u64 \<Rightarrow> store_error + write_op list \<times> u64" where
  "erase_step B E s ident acc =
     and_then (log_key_for B E ident s) (\<lambda>r.
       case r of
         None \<Rightarrow> Inr acc
       | Some key \<Rightarrow>
           and_then (be_get B key s) (\<lambda>r.
             case r of
               None \<Rightarrow> Inr acc
             | Some b \<Rightarrow>
                 and_then (decode_blob E b) (\<lambda>(header, body).
                   let writes = fst acc @ header_ref_delete E header ident
                   in (case body of
                         None \<Rightarrow> Inr (writes, snd acc)
                       | Some _ \<Rightarrow>
                           and_then (encode_blob E header None) (\<lambda>stripped.
                             Inr (writes @ [PutOp key stripped], snd acc + 1))))))"

definition ref_put :: "('l, 'x) store_codec \<Rightarrow> 'x replica_op \<Rightarrow> string \<Rightarrow> write_op list" where
  "ref_put E oper log_key =
     (case oh_payload_hash (ro_header oper) of
        Some p \<Rightarrow> [PutOp (payload_ref_key E p (ro_hash oper)) (str_bytes log_key)]
      | None \<Rightarrow> [])"

definition insert_plan ::
  "'s backend \<Rightarrow> ('l, 'x) store_codec \<Rightarrow> key32 \<Rightarrow> 'x replica_op \<Rightarrow> 'l \<Rightarrow> bool \<Rightarrow> key32 list \<Rightarrow> 's
   \<Rightarrow> store_error + (write_op list \<times> u64 \<times> u64) option" where
  "insert_plan B E topic oper log_id prune erase_payloads s =
     (let ptr = op_ptr E (ro_hash oper);
          author = oh_verifying_key (ro_header oper)
      in and_then (be_get B ptr s) (\<lambda>r.
           if r \<noteq> None then Inr None
           else
             and_then (topic_key E topic author log_id) (\<lambda>topic.
             and_then (log_prefix E author log_id) (\<lambda>p.
             let log_key = p @ seq_hex (oh_seq_num (ro_header oper)) in
             and_then (encode_op E oper) (\<lambda>blob.
             and_then
               (if prune then prefix_prune_writes B E author log_id (oh_seq_num (ro_header oper)) s
                else Inr ([], 0)) (\<lambda>(writes, pruned_entries).
             and_then (fold_result (erase_step B E s) erase_payloads (writes, 0)) (\<lambda>(writes, erased).
             Inr (Some
               (writes @ [PutOp topic [], PutOp log_key blob, PutOp ptr (str_bytes log_key)] @ ref_put E oper log_key,
                pruned_entries, erased)))))))))"

definition insert_indexed_operation_with_effects ::
  "'s backend \<Rightarrow> ('l, 'x) store_codec \<Rightarrow> key32 \<Rightarrow> 'x replica_op \<Rightarrow> 'l \<Rightarrow> bool \<Rightarrow> key32 list \<Rightarrow> 's
   \<Rightarrow> (store_error + bool \<times> u64 \<times> u64) \<times> 's" where
  "insert_indexed_operation_with_effects B E topic oper log_id prune erase_payloads s =
     (case insert_plan B E topic oper log_id prune erase_payloads s of
        Inl e \<Rightarrow> (Inl e, s)
      | Inr None \<Rightarrow> (Inr (False, 0, 0), s)
      | Inr (Some (writes, pruned_entries, erased)) \<Rightarrow>
          apply_result B writes (True, pruned_entries, erased) s)"

definition insert_indexed_operation_with_prune ::
  "'s backend \<Rightarrow> ('l, 'x) store_codec \<Rightarrow> key32 \<Rightarrow> 'x replica_op \<Rightarrow> 'l \<Rightarrow> bool \<Rightarrow> 's
   \<Rightarrow> (store_error + bool \<times> u64) \<times> 's" where
  "insert_indexed_operation_with_prune B E topic oper log_id prune s =
     (case insert_indexed_operation_with_effects B E topic oper log_id prune [] s of
        (r, s') \<Rightarrow> (and_then r (\<lambda>(inserted, pruned, _). Inr (inserted, pruned)), s'))"

definition insert_indexed_operation ::
  "'s backend \<Rightarrow> ('l, 'x) store_codec \<Rightarrow> key32 \<Rightarrow> 'x replica_op \<Rightarrow> 'l \<Rightarrow> 's \<Rightarrow> (store_error + bool) \<times> 's" where
  "insert_indexed_operation B E topic oper log_id s =
     (case insert_indexed_operation_with_prune B E topic oper log_id False s of
        (r, s') \<Rightarrow> (and_then r (\<lambda>(inserted, _). Inr inserted), s'))"

definition insert_operation ::
  "'s backend \<Rightarrow> ('l, 'x) store_codec \<Rightarrow> key32 \<Rightarrow> 'x replica_op \<Rightarrow> 'l \<Rightarrow> 's \<Rightarrow> (store_error + bool) \<times> 's" where
  "insert_operation B E ident oper log_id s =
     (let ptr = op_ptr E ident;
          plan =
            and_then (be_get B ptr s) (\<lambda>r.
              if r \<noteq> None then Inr None
              else
                and_then (log_prefix E (oh_verifying_key (ro_header oper)) log_id) (\<lambda>p.
                let log_key = p @ seq_hex (oh_seq_num (ro_header oper)) in
                and_then (encode_op E oper) (\<lambda>blob.
                Inr (Some ([PutOp log_key blob, PutOp ptr (str_bytes log_key)] @ ref_put E oper log_key)))))
      in (case plan of
            Inl e \<Rightarrow> (Inl e, s)
          | Inr None \<Rightarrow> (Inr False, s)
          | Inr (Some writes) \<Rightarrow> apply_result B writes True s))"

section \<open>Deleting\<close>

definition delete_operation ::
  "'s backend \<Rightarrow> ('l, 'x) store_codec \<Rightarrow> key32 \<Rightarrow> 's \<Rightarrow> (store_error + bool) \<times> 's" where
  "delete_operation B E ident s =
     (let plan =
            and_then (log_key_for B E ident s) (\<lambda>r.
              case r of
                None \<Rightarrow> Inr None
              | Some log_key \<Rightarrow>
                  and_then (be_get B log_key s) (\<lambda>r.
                    and_then
                      (case r of
                         Some b \<Rightarrow> and_then (decode_blob E b) (\<lambda>(header, _). Inr (header_ref_delete E header ident))
                       | None \<Rightarrow> Inr [])
                      (\<lambda>refs. Inr (Some ([DeleteOp (op_ptr E ident), DeleteOp log_key] @ refs)))))
      in (case plan of
            Inl e \<Rightarrow> (Inl e, s)
          | Inr None \<Rightarrow> (Inr False, s)
          | Inr (Some writes) \<Rightarrow> apply_result B writes True s))"

definition delete_operation_payload ::
  "'s backend \<Rightarrow> ('l, 'x) store_codec \<Rightarrow> key32 \<Rightarrow> 's \<Rightarrow> (store_error + bool) \<times> 's" where
  "delete_operation_payload B E ident s =
     (let plan =
            and_then (log_key_for B E ident s) (\<lambda>r.
              case r of
                None \<Rightarrow> Inr None
              | Some log_key \<Rightarrow>
                  and_then (be_get B log_key s) (\<lambda>r.
                    case r of
                      None \<Rightarrow> Inr None
                    | Some b \<Rightarrow>
                        and_then (decode_blob E b) (\<lambda>(header, _).
                          and_then (encode_blob E header None) (\<lambda>stripped.
                            Inr (Some (PutOp log_key stripped # header_ref_delete E header ident))))))
      in (case plan of
            Inl e \<Rightarrow> (Inl e, s)
          | Inr None \<Rightarrow> (Inr False, s)
          | Inr (Some writes) \<Rightarrow> apply_result B writes True s))"

section \<open>Attaching payloads\<close>

definition attachment_step ::
  "'s backend \<Rightarrow> ('l, 'x) store_codec \<Rightarrow> key32 \<Rightarrow> bytes \<Rightarrow> 's \<Rightarrow> string \<Rightarrow> write_op list \<times> u64
   \<Rightarrow> store_error + write_op list \<times> u64" where
  "attachment_step B E payload_hash payload s reference_key acc =
     and_then (be_get B reference_key s) (\<lambda>r.
       case r of
         None \<Rightarrow> Inr (fst acc @ [DeleteOp reference_key], snd acc)
       | Some k \<Rightarrow>
           and_then (from_utf8 E k) (\<lambda>log_key.
           and_then (be_get B log_key s) (\<lambda>r.
             case r of
               None \<Rightarrow> Inr (fst acc @ [DeleteOp reference_key], snd acc)
             | Some b \<Rightarrow>
                 and_then (decode_blob E b) (\<lambda>(header, body).
                   if oh_payload_hash header \<noteq> Some payload_hash
                   then Inl (CodecError ''payload reference points at another digest'')
                   else if oh_payload_size header \<noteq> of_nat (length payload)
                   then Inl (CodecError ''payload bytes do not match the signed size'')
                   else
                     (case body of
                        None \<Rightarrow>
                          and_then (encode_blob E header (Some payload)) (\<lambda>blob.
                            Inr (fst acc @ [PutOp log_key blob], snd acc + 1))
                      | Some _ \<Rightarrow> Inr acc)))))"

definition attachment_writes ::
  "'s backend \<Rightarrow> ('l, 'x) store_codec \<Rightarrow> key32 \<Rightarrow> bytes \<Rightarrow> 's \<Rightarrow> store_error + write_op list \<times> u64" where
  "attachment_writes B E payload_hash payload s =
     and_then (be_list B (payload_ref_prefix E payload_hash) s) (\<lambda>refs.
       fold_result (attachment_step B E payload_hash payload s) refs ([], 0))"

definition payload_attachment_writes ::
  "'s backend \<Rightarrow> ('l, 'x) store_codec \<Rightarrow> key32 \<Rightarrow> bytes \<Rightarrow> 's \<Rightarrow> store_error + write_op list \<times> u64" where
  "payload_attachment_writes B E payload_hash payload s =
     (if cd_digest E payload \<noteq> payload_hash then Inl (CodecError ''payload chunk-set has a false digest'')
      else attachment_writes B E payload_hash payload s)"

text \<open>For bytes whose digest was checked when they were assembled.\<close>

definition verified_payload_attachment_writes ::
  "'s backend \<Rightarrow> ('l, 'x) store_codec \<Rightarrow> key32 \<Rightarrow> bytes \<Rightarrow> 's \<Rightarrow> store_error + write_op list \<times> u64" where
  "verified_payload_attachment_writes B E payload_hash payload s = attachment_writes B E payload_hash payload s"

definition attach_payload ::
  "'s backend \<Rightarrow> ('l, 'x) store_codec \<Rightarrow> key32 \<Rightarrow> bytes \<Rightarrow> 's \<Rightarrow> (store_error + u64) \<times> 's" where
  "attach_payload B E payload_hash payload s =
     (case payload_attachment_writes B E payload_hash payload s of
        Inl e \<Rightarrow> (Inl e, s)
      | Inr (writes, attached) \<Rightarrow>
          if writes \<noteq> [] then apply_result B writes attached s else (Inr attached, s))"

definition pending_payload :: "'s backend \<Rightarrow> ('l, 'x) store_codec \<Rightarrow> key32 \<Rightarrow> 's \<Rightarrow> store_error + bytes option" where
  "pending_payload B E payload_hash s = be_get B (pending_payload_key E payload_hash) s"

section \<open>Reading logs\<close>

definition get_latest_entry ::
  "'s backend \<Rightarrow> ('l, 'x) store_codec \<Rightarrow> key32 \<Rightarrow> 'l \<Rightarrow> 's \<Rightarrow> store_error + 'x replica_op option" where
  "get_latest_entry B E author log_id s =
     and_then (log_prefix E author log_id) (\<lambda>p.
     and_then (be_scan B p (scan_end p) s) (\<lambda>keys.
       if keys = [] then Inr None
       else
         and_then (be_get B (last keys) s) (\<lambda>r.
           case r of
             Some b \<Rightarrow> and_then (decode_op E b) (\<lambda>x. Inr (Some x))
           | None \<Rightarrow> Inr None)))"

definition get_log_heights ::
  "'s backend \<Rightarrow> ('l::linorder, 'x) store_codec \<Rightarrow> key32 \<Rightarrow> 'l list \<Rightarrow> 's \<Rightarrow> store_error + ('l, u32) btmap option" where
  "get_log_heights B E author logs s =
     and_then
       (fold_result (\<lambda>log_id heights.
          and_then (log_prefix E author log_id) (\<lambda>p.
          and_then (be_scan B p (scan_end p) s) (\<lambda>keys.
            if keys = [] then Inr heights
            else and_then (seq_from_key (last keys) p) (\<lambda>n. Inr (bt_insert log_id n heights))))) logs [])
       (\<lambda>heights. Inr (if heights = [] then None else Some heights))"

definition get_log_entries ::
  "'s backend \<Rightarrow> ('l, 'x) store_codec \<Rightarrow> key32 \<Rightarrow> 'l \<Rightarrow> u32 option \<Rightarrow> u32 option \<Rightarrow> 's
   \<Rightarrow> store_error + ('x replica_op \<times> bytes) list option" where
  "get_log_entries B E author log_id after_seq until s =
     and_then (log_prefix E author log_id) (\<lambda>p.
     and_then (be_scan B p (scan_end p) s) (\<lambda>keys.
     and_then
       (fold_result (\<lambda>key entries.
          and_then (seq_from_key key p) (\<lambda>n.
            if \<not> in_range n after_seq until then Inr entries
            else
              and_then (be_get B key s) (\<lambda>r.
                case r of
                  Some b \<Rightarrow> and_then (decode_op E b) (\<lambda>x. Inr (entries @ [(x, cd_encode_header E (ro_header x))]))
                | None \<Rightarrow> Inr entries))) keys [])
       (\<lambda>entries. Inr (if entries = [] then None else Some entries))))"

text \<open>The counters are \<^verbatim>\<open>u32\<close> and wrap as an optimised build lets them.\<close>

definition get_log_size ::
  "'s backend \<Rightarrow> ('l, 'x) store_codec \<Rightarrow> key32 \<Rightarrow> 'l \<Rightarrow> u32 option \<Rightarrow> u32 option \<Rightarrow> 's
   \<Rightarrow> store_error + (u32 \<times> u32) option" where
  "get_log_size B E author log_id after_seq until s =
     and_then (log_prefix E author log_id) (\<lambda>p.
     and_then (be_scan B p (scan_end p) s) (\<lambda>keys.
     and_then
       (fold_result (\<lambda>key (count, total).
          and_then (seq_from_key key p) (\<lambda>n.
            if \<not> in_range n after_seq until then Inr (count, total)
            else
              and_then (be_get B key s) (\<lambda>r.
                case r of
                  Some b \<Rightarrow>
                    and_then (decode_blob E b) (\<lambda>(header, _).
                      Inr (count + 1, total + (of_nat (length (cd_encode_header E header)) + oh_payload_size header)))
                | None \<Rightarrow> Inr (count, total)))) keys (0, 0))
       (\<lambda>r. Inr (Some r))))"

section \<open>Topics\<close>

definition associate ::
  "'s backend \<Rightarrow> ('l, 'x) store_codec \<Rightarrow> key32 \<Rightarrow> key32 \<Rightarrow> 'l \<Rightarrow> 's \<Rightarrow> (store_error + bool) \<times> 's" where
  "associate B E topic author data_id s =
     (case and_then (topic_key E topic author data_id) (\<lambda>k. and_then (be_get B k s) (\<lambda>r. Inr (k, r))) of
        Inl e \<Rightarrow> (Inl e, s)
      | Inr (k, Some _) \<Rightarrow> (Inr False, s)
      | Inr (k, None) \<Rightarrow>
          (case be_put B k [] s of (Inl e, s') \<Rightarrow> (Inl e, s') | (Inr _, s') \<Rightarrow> (Inr True, s')))"

definition disassociate ::
  "'s backend \<Rightarrow> ('l, 'x) store_codec \<Rightarrow> key32 \<Rightarrow> key32 \<Rightarrow> 'l \<Rightarrow> 's \<Rightarrow> (store_error + bool) \<times> 's" where
  "disassociate B E topic author data_id s =
     (case and_then (topic_key E topic author data_id) (\<lambda>k. and_then (be_get B k s) (\<lambda>r. Inr (k, r))) of
        Inl e \<Rightarrow> (Inl e, s)
      | Inr (k, None) \<Rightarrow> (Inr False, s)
      | Inr (k, Some _) \<Rightarrow>
          (case be_delete B k s of (Inl e, s') \<Rightarrow> (Inl e, s') | (Inr _, s') \<Rightarrow> (Inr True, s')))"

text \<open>\<^verbatim>\<open>str::split_once\<close>.\<close>

definition split_once :: "char \<Rightarrow> string \<Rightarrow> (string \<times> string) option" where
  "split_once c s =
     (if c \<in> set s then Some (takeWhile (\<lambda>x. x \<noteq> c) s, tl (dropWhile (\<lambda>x. x \<noteq> c) s)) else None)"

definition topic_resolve_step ::
  "('l, 'x) store_codec \<Rightarrow> string \<Rightarrow> string \<Rightarrow> (key32, 'l list) btmap \<Rightarrow> store_error + (key32, 'l list) btmap" where
  "topic_resolve_step E p key out =
     (case strip_prefix p key of
        None \<Rightarrow> Inl (CodecError ''topic key missing its prefix'')
      | Some rest \<Rightarrow>
          (case split_once (CHR ''/'') rest of
             None \<Rightarrow> Inl (CodecError ''malformed topic key'')
           | Some (author_hex, log_hex) \<Rightarrow>
               and_then (codec (cd_unhex E author_hex)) (\<lambda>b.
               and_then (codec (cd_verifying_key E b)) (\<lambda>author.
               and_then (codec (cd_unhex E log_hex)) (\<lambda>b.
               and_then (codec (cd_decode_log E b)) (\<lambda>log_id.
                 Inr (bt_entry author [] (\<lambda>ls. ls @ [log_id]) out)))))))"

definition resolve ::
  "'s backend \<Rightarrow> ('l, 'x) store_codec \<Rightarrow> key32 \<Rightarrow> 's \<Rightarrow> store_error + (key32, 'l list) btmap" where
  "resolve B E topic s =
     (let p = ''topic/'' @ cd_hex32 E topic @ ''/''
      in and_then (be_list B p s) (\<lambda>keys. fold_result (topic_resolve_step E p) keys []))"

definition operation_count :: "'s backend \<Rightarrow> 's \<Rightarrow> store_error + nat" where
  "operation_count B s = and_then (be_list B ''op/'' s) (\<lambda>keys. Inr (length keys))"

definition store_is_empty :: "'s backend \<Rightarrow> 's \<Rightarrow> store_error + bool" where
  "store_is_empty B s = and_then (operation_count B s) (\<lambda>n. Inr (n = 0))"

section \<open>Blobs\<close>

text \<open>\<open>h\<close> is BLAKE3. A length prints in decimal.\<close>

fun decimal :: "nat \<Rightarrow> string" where
  "decimal n = (if n < 10 then [''0123456789'' ! n] else decimal (n div 10) @ [''0123456789'' ! (n mod 10)])"

declare decimal.simps [simp del]

definition digest_hex :: "('l, 'x) store_codec \<Rightarrow> digest \<Rightarrow> store_error + string" where
  "digest_hex E d =
     (case as_32 d of
        Inl (WrongDigestLength n) \<Rightarrow> Inl (CodecError (''expected a 32-byte digest, found '' @ decimal n @ '' bytes''))
      | Inr b \<Rightarrow> Inr (cd_hex E b))"

definition imported_blob_write :: "('l, 'x) store_codec \<Rightarrow> bytes \<Rightarrow> bytes \<Rightarrow> write_op" where
  "imported_blob_write E blob_hash b = PutOp (''blob/'' @ cd_hex E blob_hash) b"

definition store_put_blob ::
  "(bytes \<Rightarrow> bytes) \<Rightarrow> 's backend \<Rightarrow> ('l, 'x) store_codec \<Rightarrow> bytes \<Rightarrow> 's \<Rightarrow> (store_error + blob_ref) \<times> 's" where
  "store_put_blob h B E b s =
     (let reference = blob_blake3 h b
      in (case digest_hex E (br_digest reference) of
            Inl e \<Rightarrow> (Inl e, s)
          | Inr d \<Rightarrow>
              (case be_put B (''blob/'' @ d) b s of (Inl e, s') \<Rightarrow> (Inl e, s') | (Inr _, s') \<Rightarrow> (Inr reference, s'))))"

definition blob_reference_key :: "('l, 'x) store_codec \<Rightarrow> blob_ref \<Rightarrow> store_error + string" where
  "blob_reference_key E reference =
     (if dg_alg (br_digest reference) \<noteq> Blake3Alg
      then Inl (CodecError ''muniment blobs require a BLAKE3 reference'')
      else and_then (digest_hex E (br_digest reference)) (\<lambda>d. Inr (''blob/'' @ d)))"

definition store_get_blob ::
  "(bytes \<Rightarrow> bytes) \<Rightarrow> 's backend \<Rightarrow> ('l, 'x) store_codec \<Rightarrow> blob_ref \<Rightarrow> 's \<Rightarrow> store_error + bytes option" where
  "store_get_blob h B E reference s =
     and_then (blob_reference_key E reference) (\<lambda>k.
     and_then (be_get B k s) (\<lambda>r.
       case r of
         Some b \<Rightarrow>
           if blob_verifies h reference b then Inr (Some b)
           else Inl (CodecError ''stored blob does not match its typed reference'')
       | None \<Rightarrow> Inr None))"

definition collect_unreferenced_blobs ::
  "'s backend \<Rightarrow> ('l, 'x) store_codec \<Rightarrow> blob_ref list \<Rightarrow> 's \<Rightarrow> (store_error + u64 \<times> u64) \<times> 's" where
  "collect_unreferenced_blobs B E retained s =
     (case and_then (fold_result (\<lambda>r ks. and_then (blob_reference_key E r) (\<lambda>k. Inr (insort_insert k ks))) retained [])
             (\<lambda>retained_keys. and_then (be_list B ''blob/'' s) (\<lambda>keys. Inr (retained_keys, keys))) of
        Inl e \<Rightarrow> (Inl e, s)
      | Inr (retained_keys, keys) \<Rightarrow>
          (let writes = map DeleteOp (filter (\<lambda>k. k \<notin> set retained_keys) keys)
           in apply_result B writes (of_nat (length keys), of_nat (length writes)) s))"

end
