(* ===== verification/Stickleback_Processor.thy ===== *)
theory Stickleback_Processor
  imports Stickleback_Store Stickleback_Admission
begin

text \<open>
  The path every replicated operation takes into the store
  (\<^verbatim>\<open>crates/stickleback/src/processor.rs\<close>) and the batch plan behind atomic imports
  (\<^verbatim>\<open>BatchPlan\<close> of \<^verbatim>\<open>store.rs\<close>). The structural checks of the
  external log format and the domain policy are fields of \<open>processor\<close>.
\<close>

section \<open>Processing one operation\<close>

datatype process_outcome = Inserted u64 u64 | HydratedPayload | Duplicate

fun outcome_inserted :: "process_outcome \<Rightarrow> bool" where
  "outcome_inserted (Inserted _ _) = True"
| "outcome_inserted _ = False"

fun outcome_hydrated_payload :: "process_outcome \<Rightarrow> bool" where
  "outcome_hydrated_payload HydratedPayload = True"
| "outcome_hydrated_payload _ = False"

fun outcome_pruned_entries :: "process_outcome \<Rightarrow> u64" where
  "outcome_pruned_entries (Inserted pruned _) = pruned"
| "outcome_pruned_entries _ = 0"

fun outcome_erased_payloads :: "process_outcome \<Rightarrow> u64" where
  "outcome_erased_payloads (Inserted _ erased) = erased"
| "outcome_erased_payloads _ = 0"

datatype process_error =
    InvalidOperation string
  | Rejected reject
  | MissingPredecessor u64
  | StaleOperation u64 u64
  | Backlink string
  | StoreFailure store_error

record ('l, 'x) processor =
  pr_validate :: "'x replica_op \<Rightarrow> string option"
  pr_backlink :: "'x op_header option \<Rightarrow> 'x op_header \<Rightarrow> bool \<Rightarrow> string option"
  pr_admit :: "'x replica_op \<Rightarrow> reject + 'l admission"

definition stored :: "store_error + 'a \<Rightarrow> process_error + 'a" where
  "stored r = (case r of Inl e \<Rightarrow> Inl (StoreFailure e) | Inr x \<Rightarrow> Inr x)"

lemma stored_simps [simp]: "stored (Inl e) = Inl (StoreFailure e)" "stored (Inr x) = Inr x"
  by (simp_all add: stored_def)

fun prunes :: "history_action \<Rightarrow> bool" where
  "prunes KeepHistory = False"
| "prunes PruneBeforeCurrent = True"

definition preflight :: "('l, 'x) store_codec \<Rightarrow> ('l, 'x) processor \<Rightarrow> 'x replica_op \<Rightarrow> process_error + 'l admission" where
  "preflight E P oper =
     (case pr_validate P oper of
        Some err \<Rightarrow> Inl (InvalidOperation err)
      | None \<Rightarrow>
          if ro_hash oper \<noteq> cd_header_hash E (ro_header oper)
          then Inl (InvalidOperation ''operation id does not match its signed header'')
          else (case pr_admit P oper of Inl r \<Rightarrow> Inl (Rejected r) | Inr a \<Rightarrow> Inr a))"

text \<open>Whether an operation extends the retained frontier of its log.\<close>

definition extends_frontier ::
  "('l, 'x) processor \<Rightarrow> 'x replica_op option \<Rightarrow> 'x replica_op \<Rightarrow> history_action \<Rightarrow> process_error + unit" where
  "extends_frontier P latest oper history =
     (let seq_num = oh_seq_num (ro_header oper);
          backlink =
            (case pr_backlink P (map_option ro_header latest) (ro_header oper) (prunes history) of
               Some err \<Rightarrow> Inl (Backlink err)
             | None \<Rightarrow> Inr ())
      in (case latest of
            Some previous \<Rightarrow>
              if seq_num \<le> oh_seq_num (ro_header previous)
              then Inl (StaleOperation (ucast seq_num) (ucast (oh_seq_num (ro_header previous))))
              else backlink
          | None \<Rightarrow>
              if seq_num = 0 then Inr ()
              else if history = KeepHistory then Inl (MissingPredecessor (ucast seq_num))
              else backlink))"

definition process ::
  "'s backend \<Rightarrow> ('l, 'x) store_codec \<Rightarrow> ('l, 'x) processor \<Rightarrow> 'x replica_op \<Rightarrow> 's
   \<Rightarrow> (process_error + process_outcome) \<times> 's" where
  "process B E P oper s =
     (let header = ro_header oper;
          checked =
            and_then (preflight E P oper) (\<lambda>adm.
            and_then (stored (log_seg E (st_log_id (ad_target adm)))) (\<lambda>_.
            and_then (stored (has_operation B E (ro_hash oper) s)) (\<lambda>known.
              Inr (adm, known))))
      in (case checked of
            Inl e \<Rightarrow> (Inl e, s)
          | Inr (adm, True) \<Rightarrow>
              (case (oh_payload_hash header, ro_body oper) of
                 (Some payload_hash, Some body) \<Rightarrow>
                   (case attach_payload B E payload_hash body s of
                      (Inl e, s') \<Rightarrow> (Inl (StoreFailure e), s')
                    | (Inr attached, s') \<Rightarrow>
                        (Inr (if attached > 0 then HydratedPayload else Duplicate), s'))
               | _ \<Rightarrow> (Inr Duplicate, s))
          | Inr (adm, False) \<Rightarrow>
              (case and_then (stored (get_latest_entry B E (oh_verifying_key header) (st_log_id (ad_target adm)) s))
                      (\<lambda>latest. extends_frontier P latest oper (ad_history adm)) of
                 Inl e \<Rightarrow> (Inl e, s)
               | Inr _ \<Rightarrow>
                   (case insert_indexed_operation_with_effects B E (st_topic (ad_target adm)) oper
                           (st_log_id (ad_target adm)) (prunes (ad_history adm)) (ad_erase_payloads adm) s of
                      (Inl e, s') \<Rightarrow> (Inl (StoreFailure e), s')
                    | (Inr (inserted, pruned, erased), s') \<Rightarrow>
                        (Inr (if inserted then Inserted pruned erased else Duplicate), s')))))"

section \<open>The plan of an atomic batch\<close>

record ('l, 'x) indexed_operation =
  io_topic :: key32
  io_operation :: "'x replica_op"
  io_log_id :: 'l
  io_prune_before_current :: bool
  io_erase_payloads :: "key32 list"

record 'x planned_operation =
  pl_pointer :: string
  pl_log_key :: string
  pl_payload_ref :: "string option"
  pl_header :: "'x op_header"
  pl_has_body :: bool

record 'x batch_plan =
  bp_writes :: "(string, bytes option) btmap"
  bp_planned :: "(string, 'x planned_operation) btmap"
  bp_by_log :: "(string \<times> u32 \<times> string) list"

definition batch_plan_default :: "'x batch_plan" where
  "batch_plan_default = \<lparr>bp_writes = [], bp_planned = [], bp_by_log = []\<rparr>"

definition plan_write :: "string \<Rightarrow> bytes option \<Rightarrow> 'x batch_plan \<Rightarrow> 'x batch_plan" where
  "plan_write k v plan = plan\<lparr>bp_writes := bt_insert k v (bp_writes plan)\<rparr>"

fun plan_record :: "write_op \<Rightarrow> 'x batch_plan \<Rightarrow> 'x batch_plan" where
  "plan_record (PutOp k v) plan = plan_write k (Some v) plan"
| "plan_record (DeleteOp k) plan = plan_write k None plan"

definition unplan :: "string \<times> u32 \<times> string \<Rightarrow> 'x batch_plan \<Rightarrow> 'x batch_plan" where
  "unplan key plan =
     (let plan = plan\<lparr>bp_by_log := filter (\<lambda>k. k \<noteq> key) (bp_by_log plan)\<rparr>
      in (case bt_get (bp_planned plan) (snd (snd key)) of
            None \<Rightarrow> plan
          | Some x \<Rightarrow>
              (let plan = plan\<lparr>bp_planned := bt_remove (snd (snd key)) (bp_planned plan)\<rparr>;
                   plan = plan_write (pl_log_key x) None (plan_write (pl_pointer x) None plan)
               in (case pl_payload_ref x of Some r \<Rightarrow> plan_write r None plan | None \<Rightarrow> plan))))"

definition prune_planned :: "string \<Rightarrow> u32 \<Rightarrow> 'x batch_plan \<Rightarrow> 'x batch_plan" where
  "prune_planned p until plan =
     fold unplan (filter (\<lambda>k. (p, 0, []) \<le> k \<and> k < (p, until, [])) (bp_by_log plan)) plan"

definition plan_operation ::
  "('l, 'x) store_codec \<Rightarrow> ('l, 'x) indexed_operation \<Rightarrow> string \<Rightarrow> string \<Rightarrow> string \<Rightarrow> string \<Rightarrow> 'x batch_plan
   \<Rightarrow> store_error + 'x batch_plan" where
  "plan_operation E entry topic p log_key pointer plan =
     and_then (encode_op E (io_operation entry)) (\<lambda>blob.
       let oper = io_operation entry;
           payload_ref = map_option (\<lambda>h. payload_ref_key E h (ro_hash oper)) (oh_payload_hash (ro_header oper));
           plan = plan_write pointer (Some (str_bytes log_key))
                    (plan_write log_key (Some blob) (plan_write topic (Some []) plan));
           plan = (case payload_ref of Some k \<Rightarrow> plan_write k (Some (str_bytes log_key)) plan | None \<Rightarrow> plan);
           id_hex = cd_hex32 E (ro_hash oper)
       in Inr (plan\<lparr>bp_by_log := insort_insert (p, oh_seq_num (ro_header oper), id_hex) (bp_by_log plan),
                    bp_planned := bt_insert id_hex
                      \<lparr>pl_pointer = pointer, pl_log_key = log_key, pl_payload_ref = payload_ref,
                       pl_header = ro_header oper, pl_has_body = (ro_body oper \<noteq> None)\<rparr> (bp_planned plan)\<rparr>))"

definition plan_prune_writes ::
  "'s backend \<Rightarrow> ('l, 'x) store_codec \<Rightarrow> ('l, 'x) indexed_operation \<Rightarrow> string \<Rightarrow> 's \<Rightarrow> 'x batch_plan
   \<Rightarrow> store_error + 'x batch_plan" where
  "plan_prune_writes B E entry p s plan =
     (let header = ro_header (io_operation entry)
      in and_then (prefix_prune_writes B E (oh_verifying_key header) (io_log_id entry) (oh_seq_num header) s)
           (\<lambda>(writes, _). Inr (prune_planned p (oh_seq_num header) (fold plan_record writes plan))))"

definition plan_payload_erasure ::
  "'s backend \<Rightarrow> ('l, 'x) store_codec \<Rightarrow> 's \<Rightarrow> key32 \<Rightarrow> 'x batch_plan \<Rightarrow> store_error + 'x batch_plan" where
  "plan_payload_erasure B E s ident plan =
     (let id_hex = cd_hex32 E ident
      in (case bt_get (bp_planned plan) id_hex of
            Some x \<Rightarrow>
              (let plan = (case pl_payload_ref x of Some r \<Rightarrow> plan_write r None plan | None \<Rightarrow> plan)
               in if pl_has_body x
                  then
                    and_then (encode_blob E (pl_header x) None) (\<lambda>stripped.
                      Inr ((plan_write (pl_log_key x) (Some stripped) plan)
                             \<lparr>bp_planned := bt_insert id_hex (x\<lparr>pl_has_body := False\<rparr>) (bp_planned plan)\<rparr>))
                  else Inr plan)
          | None \<Rightarrow>
              if bt_get (bp_writes plan) (op_ptr E ident) = Some None then Inr plan
              else
                and_then (log_key_for B E ident s) (\<lambda>r.
                  case r of
                    None \<Rightarrow> Inr plan
                  | Some key \<Rightarrow>
                      and_then
                        (case bt_get (bp_writes plan) key of
                           Some v \<Rightarrow> Inr v
                         | None \<Rightarrow> be_get B key s)
                        (\<lambda>blob.
                           case blob of
                             None \<Rightarrow> Inr plan
                           | Some b \<Rightarrow>
                               and_then (decode_blob E b) (\<lambda>(header, body).
                                 let plan =
                                       (case oh_payload_hash header of
                                          Some h \<Rightarrow> plan_write (payload_ref_key E h ident) None plan
                                        | None \<Rightarrow> plan)
                                 in (case body of
                                       None \<Rightarrow> Inr plan
                                     | Some _ \<Rightarrow>
                                         and_then (encode_blob E header None) (\<lambda>stripped.
                                           Inr (plan_write key (Some stripped) plan))))))))"

definition plan_entry ::
  "'s backend \<Rightarrow> ('l, 'x) store_codec \<Rightarrow> 's \<Rightarrow> ('l, 'x) indexed_operation \<Rightarrow> string list \<times> 'x batch_plan
   \<Rightarrow> store_error + string list \<times> 'x batch_plan" where
  "plan_entry B E s entry st =
     (let oper = io_operation entry;
          header = ro_header oper;
          pointer = op_ptr E (ro_hash oper)
      in if pointer \<in> set (fst st) then Inl (CodecError ''atomic operation batch contains a duplicate id'')
         else
           and_then (be_get B pointer s) (\<lambda>r.
             if r \<noteq> None then Inl (CodecError ''operation store changed after atomic batch validation'')
             else
               and_then (topic_key E (io_topic entry) (oh_verifying_key header) (io_log_id entry)) (\<lambda>topic.
               and_then (log_prefix E (oh_verifying_key header) (io_log_id entry)) (\<lambda>p.
               let log_key = p @ seq_hex (oh_seq_num header) in
               and_then (if io_prune_before_current entry then plan_prune_writes B E entry p s (snd st) else Inr (snd st)) (\<lambda>plan.
               and_then (fold_result (plan_payload_erasure B E s) (io_erase_payloads entry) plan) (\<lambda>plan.
               and_then (plan_operation E entry topic p log_key pointer plan) (\<lambda>plan.
                 Inr (insort_insert pointer (fst st), plan))))))))"

fun planned_write :: "string \<times> bytes option \<Rightarrow> write_op" where
  "planned_write (k, Some v) = PutOp k v"
| "planned_write (k, None) = DeleteOp k"

definition apply_indexed_operation_batch ::
  "'s backend \<Rightarrow> ('l, 'x) store_codec \<Rightarrow> ('l, 'x) indexed_operation list \<Rightarrow> write_op list \<Rightarrow> write_op list \<Rightarrow> 's
   \<Rightarrow> (store_error + unit) \<times> 's" where
  "apply_indexed_operation_batch B E operations leading trailing s =
     (case fold_result (plan_entry B E s) operations ([], fold plan_record leading batch_plan_default) of
        Inl e \<Rightarrow> (Inl e, s)
      | Inr (_, plan) \<Rightarrow> be_apply B (map planned_write (bp_writes (fold plan_record trailing plan))) s)"

section \<open>Processing a corpus\<close>

record batch_outcome =
  bo_inserted :: u64
  bo_duplicate :: u64
  bo_hydrated_payloads :: u64

record ('l, 'x) batch_state =
  bs_frontiers :: "(key32 \<times> 'l, 'x replica_op option) btmap"
  bs_seen :: "string list"
  bs_accepted :: "('x replica_op \<times> 'l admission) list"
  bs_hydration :: "write_op list"
  bs_outcome :: batch_outcome

definition batch_step ::
  "'s backend \<Rightarrow> ('l::linorder, 'x) store_codec \<Rightarrow> ('l, 'x) processor \<Rightarrow> 's \<Rightarrow> 'x replica_op \<times> 'l admission
   \<Rightarrow> ('l, 'x) batch_state \<Rightarrow> process_error + ('l, 'x) batch_state" where
  "batch_step B E P s item st =
     (let oper = fst item; adm = snd item; header = ro_header oper;
          id_hex = cd_hex32 E (ro_hash oper);
          duplicate = (\<lambda>st. st\<lparr>bs_outcome := (bs_outcome st)\<lparr>bo_duplicate := bo_duplicate (bs_outcome st) + 1\<rparr>\<rparr>)
      in if id_hex \<in> set (bs_seen st) then Inr (duplicate st)
         else
           (let st = st\<lparr>bs_seen := insort_insert id_hex (bs_seen st)\<rparr> in
            and_then (stored (has_operation B E (ro_hash oper) s)) (\<lambda>known.
              if known then
                (case (oh_payload_hash header, ro_body oper) of
                   (Some payload_hash, Some body) \<Rightarrow>
                     and_then (stored (payload_attachment_writes B E payload_hash body s)) (\<lambda>(writes, attached).
                       Inr (duplicate (st\<lparr>bs_hydration := bs_hydration st @ writes,
                         bs_outcome := (bs_outcome st)\<lparr>bo_hydrated_payloads := bo_hydrated_payloads (bs_outcome st) + attached\<rparr>\<rparr>)))
                 | _ \<Rightarrow> Inr (duplicate st))
              else
                (let key = (oh_verifying_key header, st_log_id (ad_target adm)) in
                 and_then
                   (case bt_get (bs_frontiers st) key of
                      Some latest \<Rightarrow> Inr latest
                    | None \<Rightarrow> stored (get_latest_entry B E (fst key) (snd key) s)) (\<lambda>latest.
                 and_then (extends_frontier P latest oper (ad_history adm)) (\<lambda>_.
                   Inr (st\<lparr>bs_frontiers := bt_insert key (Some oper) (bs_frontiers st),
                           bs_accepted := bs_accepted st @ [(oper, adm)],
                           bs_outcome := (bs_outcome st)\<lparr>bo_inserted := bo_inserted (bs_outcome st) + 1\<rparr>\<rparr>)))))))"

definition batch_key :: "'x replica_op \<times> 'l admission \<Rightarrow> key32 \<times> 'l \<times> u32" where
  "batch_key item =
     (oh_verifying_key (ro_header (fst item)), st_log_id (ad_target (snd item)), oh_seq_num (ro_header (fst item)))"

definition process_batch_atomic ::
  "'s backend \<Rightarrow> ('l::linorder, 'x) store_codec \<Rightarrow> ('l, 'x) processor \<Rightarrow> 'x replica_op list
   \<Rightarrow> write_op list \<Rightarrow> write_op list \<Rightarrow> 's \<Rightarrow> (process_error + batch_outcome) \<times> 's" where
  "process_batch_atomic B E P operations leading trailing s =
     (case and_then
             (fold_result (\<lambda>oper prepared. and_then (preflight E P oper) (\<lambda>adm. Inr (prepared @ [(oper, adm)])))
                operations [])
             (\<lambda>prepared.
                fold_result (batch_step B E P s) (sort_key batch_key prepared)
                  \<lparr>bs_frontiers = [], bs_seen = [], bs_accepted = [], bs_hydration = leading,
                   bs_outcome = \<lparr>bo_inserted = 0, bo_duplicate = 0, bo_hydrated_payloads = 0\<rparr>\<rparr>) of
        Inl e \<Rightarrow> (Inl e, s)
      | Inr st \<Rightarrow>
          (case apply_indexed_operation_batch B E
                  (map (\<lambda>(oper, adm).
                     \<lparr>io_topic = st_topic (ad_target adm), io_operation = oper, io_log_id = st_log_id (ad_target adm),
                      io_prune_before_current = prunes (ad_history adm), io_erase_payloads = ad_erase_payloads adm\<rparr>)
                     (bs_accepted st))
                  (bs_hydration st) trailing s of
             (Inl e, s') \<Rightarrow> (Inl (StoreFailure e), s')
           | (Inr _, s') \<Rightarrow> (Inr (bs_outcome st), s')))"

end
