(* ===== verification/Stickleback_Causal.thy ===== *)
theory Stickleback_Causal
  imports Prelude "HOL-Library.Multiset"
begin

text \<open>
  Causal bookkeeping of replicated domains (\<^verbatim>\<open>crates/stickleback/src/causal.rs\<close>): the
  limits on causal metadata, the projection of retained operations into a causal order with the
  operations blocked on missing history, observed frontiers, author heads and reachability. A
  \<^verbatim>\<open>BTreeSet\<close> is a strictly sorted list; an index outside a vector and an underflowing
  subtraction would panic and are the value \<^const>\<open>None\<close>.
\<close>

section \<open>Entries\<close>

record causal_limits =
  cl_max_parents :: nat
  cl_max_payload_bytes :: u64

definition causal_limits_default :: causal_limits where
  "causal_limits_default = \<lparr>cl_max_parents = 64, cl_max_payload_bytes = 1024 * 1024\<rparr>"

record 'l causal_entry =
  ce_operation :: key32
  ce_author :: key32
  ce_log_id :: 'l
  ce_seq_num :: u32
  ce_backlink :: "key32 option"
  ce_parents :: "key32 list"

text \<open>What is read of an external operation.\<close>

record signed_operation =
  so_hash :: key32
  so_verifying_key :: key32
  so_seq_num :: u32
  so_backlink :: "key32 option"
  so_payload_size :: u32

definition entry_of_operation :: "signed_operation \<Rightarrow> 'l \<Rightarrow> key32 list \<Rightarrow> 'l causal_entry" where
  "entry_of_operation oper log_id parents =
     \<lparr>ce_operation = so_hash oper, ce_author = so_verifying_key oper, ce_log_id = log_id,
      ce_seq_num = so_seq_num oper, ce_backlink = so_backlink oper, ce_parents = parents\<rparr>"

definition bs_extend :: "'a::linorder list \<Rightarrow> 'a list \<Rightarrow> 'a list" where
  "bs_extend new s = fold insort_insert new s"

definition dependencies :: "'l causal_entry \<Rightarrow> key32 list" where
  "dependencies e =
     bs_extend ((case ce_backlink e of None \<Rightarrow> [] | Some b \<Rightarrow> [b]) @ ce_parents e) []"

record pending_causal_operation =
  pc_operation :: key32
  pc_missing :: "key32 list"

record projected =
  cp_order :: "nat list"
  cp_pending :: "pending_causal_operation list"

datatype replica_causal_error =
    ParentLimit nat nat
  | PayloadLimit u64 u64
  | DuplicateParent
  | SelfParent
  | DuplicateOperation
  | ForkedSequence u32
  | Cycle
  | SequenceExhausted

definition validate_causal_metadata ::
  "signed_operation \<Rightarrow> key32 list \<Rightarrow> causal_limits \<Rightarrow> replica_causal_error + unit" where
  "validate_causal_metadata oper parents limits =
     (if length parents > cl_max_parents limits
      then Inl (ParentLimit (length parents) (cl_max_parents limits))
      else
        (let payload_size = ucast (so_payload_size oper)
         in if payload_size > cl_max_payload_bytes limits
            then Inl (PayloadLimit payload_size (cl_max_payload_bytes limits))
            else
              (let unique = bs_extend parents []
               in if length unique \<noteq> length parents then Inl DuplicateParent
                  else if so_hash oper \<in> set unique then Inl SelfParent
                  else Inr ())))"

section \<open>The projection\<close>

type_synonym 'l ready_key = "key32 \<times> 'l \<times> u32 \<times> key32 \<times> nat"

definition order_key :: "'l causal_entry \<Rightarrow> nat \<Rightarrow> 'l ready_key" where
  "order_key e i = (ce_author e, ce_log_id e, ce_seq_num e, ce_operation e, i)"

fun key_index :: "'l ready_key \<Rightarrow> nat" where
  "key_index (_, _, _, _, i) = i"

fun sequence_loop ::
  "(key32 \<times> 'l::linorder \<times> u32, key32) btmap \<Rightarrow> 'l causal_entry list \<Rightarrow> replica_causal_error + unit" where
  "sequence_loop positions [] = Inr ()"
| "sequence_loop positions (e # es) =
     (let key = (ce_author e, ce_log_id e, ce_seq_num e)
      in if (case bt_get positions key of None \<Rightarrow> False | Some existing \<Rightarrow> existing \<noteq> ce_operation e)
         then Inl (ForkedSequence (ce_seq_num e))
         else sequence_loop (bt_insert key (ce_operation e) positions) es)"

definition validate_sequences :: "'l::linorder causal_entry list \<Rightarrow> replica_causal_error + unit" where
  "validate_sequences es = sequence_loop [] es"

fun index_loop ::
  "nat \<Rightarrow> 'l causal_entry list \<Rightarrow> (key32, nat) btmap \<Rightarrow> replica_causal_error + (key32, nat) btmap" where
  "index_loop i [] by_hash = Inr by_hash"
| "index_loop i (e # es) by_hash =
     (if bt_get by_hash (ce_operation e) \<noteq> None then Inl DuplicateOperation
      else index_loop (i + 1) es (bt_insert (ce_operation e) i by_hash))"

text \<open>For every entry, its dependents among the entries and its dependencies outside them.\<close>

type_synonym links = "nat list list \<times> key32 list list"

fun link_dependency :: "(key32, nat) btmap \<Rightarrow> nat \<Rightarrow> key32 \<Rightarrow> links \<Rightarrow> links" where
  "link_dependency by_hash i d (dependents, missing) =
     (case bt_get by_hash d of
        Some parent \<Rightarrow> (dependents[parent := dependents ! parent @ [i]], missing)
      | None \<Rightarrow> (dependents, missing[i := insort_insert d (missing ! i)]))"

fun link_loop :: "(key32, nat) btmap \<Rightarrow> nat \<Rightarrow> key32 list list \<Rightarrow> links \<Rightarrow> links" where
  "link_loop by_hash i [] st = st"
| "link_loop by_hash i (deps # rest) st =
     link_loop by_hash (i + 1) rest (fold (link_dependency by_hash i) deps st)"

text \<open>A child of a blocked operation is blocked on the same missing roots.\<close>

fun block_dependents :: "key32 list \<Rightarrow> nat list \<Rightarrow> nat list \<times> key32 list list \<Rightarrow> (nat list \<times> key32 list list) option" where
  "block_dependents roots [] st = Some st"
| "block_dependents roots (d # ds) (blocked, missing) =
     (if d \<ge> length missing then None
      else
        (let extended = bs_extend roots (missing ! d)
         in block_dependents roots ds
              (if length extended \<noteq> length (missing ! d) then blocked @ [d] else blocked,
               missing[d := extended])))"

definition missing_room :: "key32 list list \<Rightarrow> nat" where
  "missing_room missing =
     sum_list (map (\<lambda>m. card (\<Union> (set ` set missing)) - card (set m)) missing)"

lemma set_bs_extend [simp]: "set (bs_extend new s) = set new \<union> set s"
  unfolding bs_extend_def by (induction new arbitrary: s) (auto simp: set_insort_insert)

lemma strict_bs_extend [simp]: "sorted_wrt (<) s \<Longrightarrow> sorted_wrt (<) (bs_extend new s)"
  unfolding bs_extend_def
  by (induction new arbitrary: s) (simp_all add: insort_insert_key_def strict_sorted_iff distinct_insort sorted_insort)

lemma bs_extend_same: "length (bs_extend new s) = length s \<Longrightarrow> bs_extend new s = s \<and> set new \<subseteq> set s"
proof -
  have mono: "length s \<le> length (bs_extend new s)" for new s :: "'a list"
    unfolding bs_extend_def
  proof (induction new arbitrary: s)
    case (Cons x new)
    have "length s \<le> length (insort_insert x s)"
      by (simp add: insort_insert_key_def)
    with Cons [of "insort_insert x s"] show ?case by simp
  qed simp
  assume "length (bs_extend new s) = length s"
  then show ?thesis
  proof (induction new arbitrary: s)
    case (Cons x new)
    show ?case
    proof (cases "x \<in> set s")
      case True
      with Cons show ?thesis by (simp add: bs_extend_def insort_insert_key_def)
    next
      case False
      then have "bs_extend (x # new) s = bs_extend new (insort x s)"
        by (simp add: bs_extend_def insort_insert_key_def)
      with mono [of "insort x s" new] Cons.prems show ?thesis by simp
    qed
  qed (simp add: bs_extend_def)
qed

lemma Union_update:
  assumes "d < length m" "X \<subseteq> \<Union> (set ` set m)" "set x = X \<union> set (m ! d)"
  shows "\<Union> (set ` set (m[d := x])) = \<Union> (set ` set m)"
proof
  have "set (m ! d) \<subseteq> \<Union> (set ` set m)"
    by (rule UN_upper) (simp add: assms(1))
  then show "\<Union> (set ` set (m[d := x])) \<subseteq> \<Union> (set ` set m)"
  proof (intro UN_least)
    fix y assume "y \<in> set (m[d := x])"
    then have "y = x \<or> y \<in> set m"
      using set_update_subset_insert [of m d x] by blast
    with \<open>set (m ! d) \<subseteq> _\<close> assms(2,3) show "set y \<subseteq> \<Union> (set ` set m)" by auto
  qed
  show "\<Union> (set ` set m) \<subseteq> \<Union> (set ` set (m[d := x]))"
  proof (intro UN_least subsetI)
    fix y k assume "y \<in> set m" "k \<in> set y"
    then obtain j where "j < length m" "y = m ! j" by (auto simp: in_set_conv_nth)
    with \<open>k \<in> set y\<close> assms(1,3) have "k \<in> set (m[d := x] ! j)"
      by (cases "j = d") auto
    moreover have "m[d := x] ! j \<in> set (m[d := x])"
      using \<open>j < length m\<close> by (simp only: nth_mem length_list_update)
    ultimately show "k \<in> \<Union> (set ` set (m[d := x]))" by blast
  qed
qed

lemma sum_list_update_less:
  "d < length m \<Longrightarrow> f x < f (m ! d) \<Longrightarrow> sum_list (map f (m[d := x])) < sum_list (map (f :: _ \<Rightarrow> nat) m)"
  using elem_le_sum_list [of d "map f m"] by (simp add: map_update sum_list_update)

lemma missing_room_step:
  assumes "d < length m" "set roots \<subseteq> \<Union> (set ` set m)"
    and "length (bs_extend roots (m ! d)) \<noteq> length (m ! d)"
  shows "missing_room (m[d := bs_extend roots (m ! d)]) < missing_room m"
proof -
  let ?x = "bs_extend roots (m ! d)" and ?U = "\<Union> (set ` set m)"
  have U: "\<Union> (set ` set (m[d := ?x])) = ?U"
    by (rule Union_update [OF assms(1,2)]) simp
  have "set (m ! d) \<subset> set ?x"
  proof -
    have "\<not> set roots \<subseteq> set (m ! d)"
    proof
      assume "set roots \<subseteq> set (m ! d)"
      then have "bs_extend roots (m ! d) = m ! d"
        unfolding bs_extend_def by (induction roots) (simp_all add: insort_insert_key_def)
      with assms(3) show False by simp
    qed
    then show ?thesis by auto
  qed
  then have "card (set (m ! d)) < card (set ?x)"
    by (simp add: psubset_card_mono)
  moreover have "set (m ! d) \<subseteq> ?U"
    by (rule UN_upper) (simp add: assms(1))
  then have "card (set ?x) \<le> card ?U"
    using assms(2) by (intro card_mono) auto
  ultimately show ?thesis
    unfolding missing_room_def U by (intro sum_list_update_less assms(1)) simp
qed

lemma block_dependents_room:
  assumes "block_dependents roots ds (blocked, m) = Some (blocked', m')" "set roots \<subseteq> \<Union> (set ` set m)"
  shows "blocked' = blocked \<and> m' = m \<or> missing_room m' < missing_room m"
  using assms
proof (induction roots ds "(blocked, m)" arbitrary: blocked m rule: block_dependents.induct)
  case (2 roots d ds blocked m)
  let ?x = "bs_extend roots (m ! d)"
  from 2(2) have d: "d < length m" by (simp split: if_splits)
  have U: "\<Union> (set ` set (m[d := ?x])) = \<Union> (set ` set m)"
    by (rule Union_update [OF d 2(3)]) simp
  show ?case
  proof (cases "length ?x = length (m ! d)")
    case True
    then have "m[d := ?x] = m" using bs_extend_same by (metis list_update_id)
    with 2 d True show ?thesis by (simp add: Let_def)
  next
    case False
    then show ?thesis
      using 2(1) [of ?x] 2(2,3) d U missing_room_step [OF d 2(3) False] by (auto simp: Let_def)
  qed
qed simp

function block_loop :: "nat list list \<Rightarrow> nat list \<Rightarrow> key32 list list \<Rightarrow> key32 list list option" where
  "block_loop dependents [] missing = Some missing"
| "block_loop dependents (i # blocked) missing =
     (if i \<ge> length missing \<or> i \<ge> length dependents then None
      else
        (case block_dependents (missing ! i) (dependents ! i) (blocked, missing) of
           None \<Rightarrow> None
         | Some (blocked, missing) \<Rightarrow> block_loop dependents blocked missing))"
  by pat_completeness auto

termination
proof (relation "measures [\<lambda>(_, _, m). missing_room m, \<lambda>(_, blocked, _). length blocked]")
  fix dependents :: "nat list list" and i blocked and missing :: "key32 list list" and st b m
  assume i: "\<not> (i \<ge> length missing \<or> i \<ge> length dependents)"
    and "block_dependents (missing ! i) (dependents ! i) (blocked, missing) = Some st" "(b, m) = st"
  moreover have "set (missing ! i) \<subseteq> \<Union> (set ` set missing)"
    by (rule UN_upper) (use i in simp)
  ultimately show "((dependents, b, m), dependents, i # blocked, missing)
      \<in> measures [\<lambda>(_, _, m). missing_room m, \<lambda>(_, blocked, _). length blocked]"
    using block_dependents_room [of "missing ! i" "dependents ! i" blocked missing b m] by auto
qed simp

text \<open>
  The entries whose history is complete, released in key order as their dependencies are. The
  count of open dependencies never goes below zero; a step that would is \<^const>\<open>None\<close>.
\<close>

fun release ::
  "'l::linorder causal_entry list \<Rightarrow> bool list \<Rightarrow> nat list \<Rightarrow> nat list \<times> 'l ready_key list
   \<Rightarrow> (nat list \<times> 'l ready_key list) option" where
  "release es complete [] st = Some st"
| "release es complete (d # ds) (indegree, ready) =
     (if d \<ge> length indegree then None
      else if \<not> complete ! d then release es complete ds (indegree, ready)
      else if indegree ! d = 0 then None
      else
        (let indegree = indegree[d := indegree ! d - 1]
         in release es complete ds
              (indegree,
               if indegree ! d = 0 then insort_insert (order_key (es ! d) d) ready else ready)))"

lemma release_shrinks:
  "release es complete ds (indegree, ready) = Some (indegree', ready') \<Longrightarrow>
     sum_list indegree' + length ready' \<le> sum_list indegree + length ready"
proof (induction ds arbitrary: indegree ready)
  case (Cons d ds)
  from Cons.prems have d: "d < length indegree" by (simp split: if_splits)
  show ?case
  proof (cases "complete ! d")
    case True
    let ?i = "indegree[d := indegree ! d - 1]"
    let ?r = "if ?i ! d = 0 then insort_insert (order_key (es ! d) d) ready else ready"
    have "release es complete ds (?i, ?r) = Some (indegree', ready')" "indegree ! d \<noteq> 0"
      using Cons.prems d True by (auto simp: Let_def split: if_splits)
    then have "sum_list indegree' + length ready' \<le> sum_list ?i + length ?r"
      "sum_list ?i + 1 = sum_list indegree"
      using Cons.IH [of ?i ?r] d elem_le_sum_list [of d indegree] by (simp_all add: sum_list_update)
    moreover have "length ?r \<le> length ready + 1"
      by (simp add: insort_insert_key_def)
    ultimately show ?thesis by linarith
  qed (use Cons d in simp)
qed simp

function ready_loop ::
  "'l::linorder causal_entry list \<Rightarrow> bool list \<Rightarrow> nat list list \<Rightarrow> nat list \<Rightarrow> 'l ready_key list \<Rightarrow> nat list
   \<Rightarrow> nat list option" where
  "ready_loop es complete dependents indegree [] order = Some order"
| "ready_loop es complete dependents indegree (key # ready) order =
     (let i = key_index key
      in if i \<ge> length dependents then None
         else
           (case release es complete (dependents ! i) (indegree, ready) of
              None \<Rightarrow> None
            | Some (indegree, ready) \<Rightarrow>
                ready_loop es complete dependents indegree ready (order @ [i])))"
  by pat_completeness auto

termination
  by (relation "measure (\<lambda>(_, _, _, indegree, ready, _). sum_list indegree + length ready)")
    (auto dest: release_shrinks)

definition causal_projection :: "'l::linorder causal_entry list \<Rightarrow> (replica_causal_error + projected) option" where
  "causal_projection es =
     (case validate_sequences es of
        Inl e \<Rightarrow> Some (Inl e)
      | Inr _ \<Rightarrow>
     (case index_loop 0 es [] of
        Inl e \<Rightarrow> Some (Inl e)
      | Inr by_hash \<Rightarrow>
     (let n = length es;
          deps = map dependencies es;
          (dependents, missing) = link_loop by_hash 0 deps (replicate n [], replicate n [])
      in (case block_loop dependents (filter (\<lambda>i. missing ! i \<noteq> []) [0..<n]) missing of
            None \<Rightarrow> None
          | Some missing \<Rightarrow>
     (let complete = map (\<lambda>m. m = []) missing;
          indegree =
            map (\<lambda>i. if complete ! i
                      then length (filter (\<lambda>d. case bt_get by_hash d of None \<Rightarrow> False | Some p \<Rightarrow> complete ! p)
                             (deps ! i))
                      else 0) [0..<n];
          ready =
            fold (\<lambda>i r. if complete ! i \<and> indegree ! i = 0 then insort_insert (order_key (es ! i) i) r else r)
              [0..<n] []
      in (case ready_loop es complete dependents indegree ready [] of
            None \<Rightarrow> None
          | Some order \<Rightarrow>
              if length order \<noteq> length (filter id complete) then Some (Inl Cycle)
              else
                (let pending =
                       sort_key fst
                         (map (\<lambda>i. (order_key (es ! i) i,
                                     \<lparr>pc_operation = ce_operation (es ! i), pc_missing = missing ! i\<rparr>))
                            (filter (\<lambda>i. \<not> complete ! i) [0..<n]))
                 in Some (Inr \<lparr>cp_order = order, cp_pending = map snd pending\<rparr>))))))))"

section \<open>Frontiers and heads\<close>

definition frontier_step ::
  "'l::linorder causal_entry \<Rightarrow> (key32 \<times> 'l, u32 \<times> key32) btmap \<Rightarrow> (key32 \<times> 'l, u32 \<times> key32) btmap" where
  "frontier_step e heads =
     (let key = (ce_author e, ce_log_id e)
      in if (case bt_get heads key of None \<Rightarrow> True | Some (seq, _) \<Rightarrow> ce_seq_num e > seq)
         then bt_insert key (ce_seq_num e, ce_operation e) heads else heads)"

definition observed_frontier :: "'l::linorder causal_entry list \<Rightarrow> replica_causal_error + key32 list" where
  "observed_frontier es =
     (case validate_sequences es of
        Inl e \<Rightarrow> Inl e
      | Inr _ \<Rightarrow> Inr (map snd (bt_values (fold frontier_step es []))))"

text \<open>The last of the entries with the greatest sequence number.\<close>

definition later_entry :: "'l causal_entry \<Rightarrow> 'l causal_entry option \<Rightarrow> 'l causal_entry option" where
  "later_entry e best =
     (case best of None \<Rightarrow> Some e | Some b \<Rightarrow> if ce_seq_num e \<ge> ce_seq_num b then Some e else Some b)"

definition author_head ::
  "'l::linorder causal_entry list \<Rightarrow> key32 \<Rightarrow> 'l \<Rightarrow> replica_causal_error + u32 \<times> key32 option" where
  "author_head es author log_id =
     (case validate_sequences es of
        Inl e \<Rightarrow> Inl e
      | Inr _ \<Rightarrow>
          (case fold later_entry (filter (\<lambda>e. ce_author e = author \<and> ce_log_id e = log_id) es) None of
             None \<Rightarrow> Inr (0, None)
           | Some e \<Rightarrow>
               if ce_seq_num e = - 1 then Inl SequenceExhausted
               else Inr (ce_seq_num e + 1, Some (ce_operation e))))"

section \<open>Reachability\<close>

type_synonym 'l entry_index = "(key32, 'l causal_entry) btmap"

definition causal_index :: "'l causal_entry list \<Rightarrow> 'l entry_index" where
  "causal_index es = fold (\<lambda>e m. bt_insert (ce_operation e) e m) es []"

lemma finite_bt_dom: "finite {k. bt_get m k \<noteq> None}"
  using finite_dom_map_of [of m] by (simp add: bt_get_def dom_def)

text \<open>The stack is kept top first; pushed operations are popped in reverse.\<close>

function before_loop :: "'l entry_index \<Rightarrow> key32 \<Rightarrow> key32 set \<Rightarrow> key32 list \<Rightarrow> bool" where
  "before_loop by_hash earlier seen [] = False"
| "before_loop by_hash earlier seen (oper # pending) =
     (if oper = earlier then True
      else if oper \<in> seen then before_loop by_hash earlier seen pending
      else
        (case bt_get by_hash oper of
           None \<Rightarrow> before_loop by_hash earlier (insert oper seen) pending
         | Some e \<Rightarrow> before_loop by_hash earlier (insert oper seen) (rev (dependencies e) @ pending)))"
  by pat_completeness auto

termination
proof (relation "measures [\<lambda>(m, _, seen, _). card ({k. bt_get m k \<noteq> None} - seen), \<lambda>(_, _, _, p). length p]")
  fix by_hash :: "'l entry_index" and earlier seen oper pending e
  assume "oper \<notin> seen" "bt_get by_hash oper = Some e"
  then have "card ({k. bt_get by_hash k \<noteq> None} - insert oper seen) < card ({k. bt_get by_hash k \<noteq> None} - seen)"
    by (intro psubset_card_mono) (auto simp: finite_bt_dom)
  then show "((by_hash, earlier, insert oper seen, rev (dependencies e) @ pending), by_hash, earlier, seen, oper # pending)
      \<in> measures [\<lambda>(m, _, seen, _). card ({k. bt_get m k \<noteq> None} - seen), \<lambda>(_, _, _, p). length p]"
    by simp
next
  fix by_hash :: "'l entry_index" and earlier seen oper pending
  have "card ({k. bt_get by_hash k \<noteq> None} - insert oper seen) \<le> card ({k. bt_get by_hash k \<noteq> None} - seen)"
    by (intro card_mono) (auto simp: finite_bt_dom)
  then show "((by_hash, earlier, insert oper seen, pending), by_hash, earlier, seen, oper # pending)
      \<in> measures [\<lambda>(m, _, seen, _). card ({k. bt_get m k \<noteq> None} - seen), \<lambda>(_, _, _, p). length p]"
    by auto
qed simp_all

definition index_happens_before :: "'l entry_index \<Rightarrow> key32 \<Rightarrow> key32 \<Rightarrow> bool" where
  "index_happens_before by_hash earlier later =
     (case bt_get by_hash later of
        None \<Rightarrow> False
      | Some e \<Rightarrow> before_loop by_hash earlier {} (rev (dependencies e)))"

definition happens_before :: "'l causal_entry list \<Rightarrow> key32 \<Rightarrow> key32 \<Rightarrow> bool" where
  "happens_before es earlier later = index_happens_before (causal_index es) earlier later"

end
