(* ===== verification/Stickleback_Order.thy ===== *)
theory Stickleback_Order
  imports Stickleback_Causal
begin

text \<open>
  What the causal projection computes, stated on the set of entries: the operations whose whole
  history is present, in an order that respects causality and depends on nothing but the set,
  and for the others exactly the missing roots of their history.
\<close>

section \<open>Causality on a set of entries\<close>

definition caused :: "'l causal_entry set \<Rightarrow> (key32 \<times> key32) set" where
  "caused S = {(a, ce_operation e) | a e. e \<in> S \<and> a \<in> set (dependencies e)}"

definition missing_roots :: "'l causal_entry set \<Rightarrow> key32 \<Rightarrow> key32 set" where
  "missing_roots S h = {r. (r, h) \<in> (caused S)\<^sup>+ \<and> r \<notin> ce_operation ` S}"

definition one_op_each :: "'l causal_entry set \<Rightarrow> bool" where
  "one_op_each S \<longleftrightarrow> inj_on ce_operation S"

lemma caused_target: "(a, b) \<in> (caused S)\<^sup>+ \<Longrightarrow> b \<in> ce_operation ` S"
  by (erule trancl.cases) (auto simp: caused_def)

lemma strict_dependencies [simp]: "sorted_wrt (<) (dependencies e)"
  by (simp add: dependencies_def)

lemma distinct_dependencies [simp]: "distinct (dependencies e)"
  using strict_dependencies [of e] by (simp only: strict_sorted_iff)

lemma missing_roots_step:
  assumes "(k, h) \<in> caused S"
  shows "missing_roots S k \<subseteq> missing_roots S h"
  using assms by (auto simp: missing_roots_def intro: trancl_into_trancl)

section \<open>Positions and the index\<close>

text \<open>A log position that carries two operations.\<close>

definition forked :: "'l causal_entry set \<Rightarrow> u32 \<Rightarrow> bool" where
  "forked S n \<longleftrightarrow>
     (\<exists>a \<in> S. \<exists>b \<in> S. ce_author a = ce_author b \<and> ce_log_id a = ce_log_id b \<and> ce_seq_num a = n
        \<and> ce_seq_num b = n \<and> ce_operation a \<noteq> ce_operation b)"

lemma sequence_loop_spec:
  assumes "\<forall>a l n h. bt_get m (a, l, n) = Some h \<longrightarrow>
      (\<exists>e \<in> S. ce_author e = a \<and> ce_log_id e = l \<and> ce_seq_num e = n \<and> ce_operation e = h)"
    and "\<forall>e \<in> S. bt_get m (ce_author e, ce_log_id e, ce_seq_num e) = Some (ce_operation e)"
  shows "case sequence_loop m es of
      Inr _ \<Rightarrow> \<not> (\<exists>n. forked (S \<union> set es) n)
    | Inl x \<Rightarrow> \<exists>n. x = ForkedSequence n \<and> forked (S \<union> set es) n"
  using assms
proof (induction es arbitrary: m S)
  case Nil
  then show ?case by (auto simp: forked_def) (metis option.inject)
next
  case (Cons e es)
  let ?k = "(ce_author e, ce_log_id e, ce_seq_num e)"
  show ?case
  proof (cases "case bt_get m ?k of None \<Rightarrow> False | Some h \<Rightarrow> h \<noteq> ce_operation e")
    case True
    then obtain h where h: "bt_get m ?k = Some h" "h \<noteq> ce_operation e" by (auto split: option.splits)
    with Cons.prems(1) obtain e' where "e' \<in> S" "ce_author e' = ce_author e" "ce_log_id e' = ce_log_id e"
      "ce_seq_num e' = ce_seq_num e" "ce_operation e' = h" by blast
    with h(2) have "forked (S \<union> set (e # es)) (ce_seq_num e)"
      unfolding forked_def by (intro bexI [of _ e'] bexI [of _ e]) auto
    with True show ?thesis by (simp add: Let_def)
  next
    case False
    have "case sequence_loop (bt_insert ?k (ce_operation e) m) es of
        Inr _ \<Rightarrow> \<not> (\<exists>n. forked (insert e S \<union> set es) n)
      | Inl x \<Rightarrow> \<exists>n. x = ForkedSequence n \<and> forked (insert e S \<union> set es) n"
      using Cons.prems False by (intro Cons.IH) (auto simp: bt_get_insert split: option.splits if_splits)
    moreover have "insert e S \<union> set es = S \<union> set (e # es)" by auto
    ultimately show ?thesis using False by (simp add: Let_def split: sum.splits)
  qed
qed

lemma validate_sequences_spec:
  "case validate_sequences es of
     Inr _ \<Rightarrow> \<not> (\<exists>n. forked (set es) n)
   | Inl x \<Rightarrow> \<exists>n. x = ForkedSequence n \<and> forked (set es) n"
  using sequence_loop_spec [of "[]" "{}" es] by (simp add: validate_sequences_def split: sum.splits)

lemma index_loop_spec:
  "case index_loop k es m of
     Inr m' \<Rightarrow>
       distinct (map ce_operation es) \<and> (\<forall>e \<in> set es. bt_get m (ce_operation e) = None)
       \<and> (\<forall>h i. bt_get m' h = Some i \<longleftrightarrow>
            bt_get m h = Some i \<or> (\<exists>j < length es. ce_operation (es ! j) = h \<and> i = k + j))
   | Inl x \<Rightarrow>
       x = DuplicateOperation
       \<and> (\<not> distinct (map ce_operation es) \<or> (\<exists>e \<in> set es. bt_get m (ce_operation e) \<noteq> None))"
proof (induction k es m rule: index_loop.induct)
  case (2 i e es m)
  show ?case
  proof (cases "bt_get m (ce_operation e) = None")
    case True
    have *: "(\<exists>j < length (e # es). ce_operation ((e # es) ! j) = h \<and> x = i + j) \<longleftrightarrow>
        ce_operation e = h \<and> x = i \<or> (\<exists>j < length es. ce_operation (es ! j) = h \<and> x = i + 1 + j)" for h x
      by (simp add: Ex_less_Suc2)
    from 2 True show ?thesis
      unfolding * by (auto simp: bt_get_insert image_iff split: sum.splits if_splits) metis
  qed simp
qed simp

definition indexes :: "(key32, nat) btmap \<Rightarrow> 'l causal_entry list \<Rightarrow> bool" where
  "indexes by_hash es \<longleftrightarrow>
     distinct (map ce_operation es)
     \<and> (\<forall>h i. bt_get by_hash h = Some i \<longleftrightarrow> i < length es \<and> ce_operation (es ! i) = h)"

lemma index_loop_indexes:
  "case index_loop 0 es [] of
     Inr by_hash \<Rightarrow> indexes by_hash es
   | Inl x \<Rightarrow> x = DuplicateOperation \<and> \<not> distinct (map ce_operation es)"
  using index_loop_spec [where k = 0 and es = es and m = "[]"] by (auto simp: indexes_def split: sum.splits)

lemma indexes_nth: "indexes by_hash es \<Longrightarrow> i < length es \<Longrightarrow> bt_get by_hash (ce_operation (es ! i)) = Some i"
  by (simp add: indexes_def)

lemma indexes_None:
  assumes "indexes by_hash es"
  shows "bt_get by_hash h = None \<longleftrightarrow> h \<notin> ce_operation ` set es"
proof
  assume none: "bt_get by_hash h = None"
  show "h \<notin> ce_operation ` set es"
  proof
    assume "h \<in> ce_operation ` set es"
    then obtain i where "i < length es" "h = ce_operation (es ! i)" by (auto simp: in_set_conv_nth)
    with indexes_nth [OF assms] none show False by simp
  qed
next
  assume absent: "h \<notin> ce_operation ` set es"
  show "bt_get by_hash h = None"
  proof (rule ccontr)
    assume "bt_get by_hash h \<noteq> None"
    then obtain i where "i < length es" "ce_operation (es ! i) = h"
      using assms by (auto simp: indexes_def)
    with absent show False by auto
  qed
qed

section \<open>Links\<close>

lemma fold_link_dependency:
  assumes "\<forall>d p. bt_get by_hash d = Some p \<longrightarrow> p < length dependents"
    and "distinct ds" "\<forall>d d' p. bt_get by_hash d = Some p \<longrightarrow> bt_get by_hash d' = Some p \<longrightarrow> d = d'"
    and "i < length missing"
  shows "fold (link_dependency by_hash i) ds (dependents, missing) =
    (map (\<lambda>p. dependents ! p @ (if \<exists>d \<in> set ds. bt_get by_hash d = Some p then [i] else [])) [0..<length dependents],
     missing[i := bs_extend (filter (\<lambda>d. bt_get by_hash d = None) ds) (missing ! i)])"
  using assms
proof (induction ds arbitrary: dependents missing)
  case Nil
  then show ?case by (simp add: bs_extend_def map_nth)
next
  case (Cons d ds)
  show ?case
  proof (cases "bt_get by_hash d")
    case None
    then show ?thesis
      using Cons by (simp add: bs_extend_def)
  next
    case (Some p)
    then have p: "p < length dependents" using Cons.prems(1) by simp
    have other: "\<not> (\<exists>d' \<in> set ds. bt_get by_hash d' = Some p)"
      using Cons.prems(2,3) Some by auto
    show ?thesis
      using Cons.IH [of "dependents[p := dependents ! p @ [i]]" missing] Cons.prems Some p other
      by (auto simp: nth_list_update intro!: map_cong)
  qed
qed

definition dependents_of :: "(key32, nat) btmap \<Rightarrow> key32 list list \<Rightarrow> nat \<Rightarrow> nat \<Rightarrow> nat list" where
  "dependents_of by_hash deps k p = filter (\<lambda>i. \<exists>d \<in> set (deps ! i). bt_get by_hash d = Some p) [0..<k]"

definition absent_of :: "(key32, nat) btmap \<Rightarrow> key32 list \<Rightarrow> key32 list" where
  "absent_of by_hash ds = bs_extend (filter (\<lambda>d. bt_get by_hash d = None) ds) []"

lemma link_loop_from:
  assumes "\<forall>d p. bt_get by_hash d = Some p \<longrightarrow> p < length deps" "\<forall>ds \<in> set deps. distinct ds"
    and "\<forall>d d' p. bt_get by_hash d = Some p \<longrightarrow> bt_get by_hash d' = Some p \<longrightarrow> d = d'"
    and "k \<le> length deps"
  shows "link_loop by_hash k (drop k deps)
      (map (dependents_of by_hash deps k) [0..<length deps],
       map (\<lambda>i. if i < k then absent_of by_hash (deps ! i) else []) [0..<length deps])
    = (map (dependents_of by_hash deps (length deps)) [0..<length deps], map (absent_of by_hash) deps)"
  using assms(4)
proof (induction "length deps - k" arbitrary: k)
  case 0
  then have "k = length deps" by simp
  then show ?case by (auto intro!: nth_equalityI)
next
  case (Suc m)
  then have k: "k < length deps" by simp
  then have drop: "drop k deps = deps ! k # drop (k + 1) deps"
    by (simp add: Cons_nth_drop_Suc)
  have "map (\<lambda>p. dependents_of by_hash deps k p @ (if \<exists>d \<in> set (deps ! k). bt_get by_hash d = Some p then [k] else []))
      [0..<length deps] = map (dependents_of by_hash deps (k + 1)) [0..<length deps]"
    by (simp add: dependents_of_def)
  moreover have "(map (\<lambda>i. if i < k then absent_of by_hash (deps ! i) else []) [0..<length deps])
      [k := absent_of by_hash (deps ! k)]
      = map (\<lambda>i. if i < k + 1 then absent_of by_hash (deps ! i) else []) [0..<length deps]"
    using k by (auto intro!: nth_equalityI simp: nth_list_update less_Suc_eq)
  ultimately have "fold (link_dependency by_hash k) (deps ! k)
      (map (dependents_of by_hash deps k) [0..<length deps],
       map (\<lambda>i. if i < k then absent_of by_hash (deps ! i) else []) [0..<length deps])
    = (map (dependents_of by_hash deps (k + 1)) [0..<length deps],
       map (\<lambda>i. if i < k + 1 then absent_of by_hash (deps ! i) else []) [0..<length deps])"
    using fold_link_dependency [of by_hash "map (dependents_of by_hash deps k) [0..<length deps]" "deps ! k" k
        "map (\<lambda>i. if i < k then absent_of by_hash (deps ! i) else []) [0..<length deps]"] assms(1-3) k
    by (simp add: absent_of_def cong: map_cong)
  with Suc.hyps(1) [of "k + 1"] Suc.hyps(2) Suc.prems drop show ?case
    by (simp del: link_dependency.simps)
qed

lemma link_loop_spec:
  assumes "indexes by_hash es"
  shows "link_loop by_hash 0 (map dependencies es) (replicate (length es) [], replicate (length es) [])
    = (map (dependents_of by_hash (map dependencies es) (length es)) [0..<length es],
       map (\<lambda>e. absent_of by_hash (dependencies e)) es)"
proof -
  have "link_loop by_hash 0 (drop 0 (map dependencies es))
      (map (dependents_of by_hash (map dependencies es) 0) [0..<length (map dependencies es)],
       map (\<lambda>i. if i < 0 then absent_of by_hash (map dependencies es ! i) else []) [0..<length (map dependencies es)])
    = (map (dependents_of by_hash (map dependencies es) (length (map dependencies es))) [0..<length (map dependencies es)],
       map (absent_of by_hash) (map dependencies es))"
    by (rule link_loop_from) (use assms in \<open>auto simp: indexes_def\<close>)
  moreover have "dependents_of by_hash (map dependencies es) 0 = (\<lambda>_. [])"
    by (simp add: dependents_of_def fun_eq_iff)
  ultimately show ?thesis
    by (simp add: map_replicate_const comp_def)
qed

section \<open>Blocked operations\<close>

lemma block_dependents_spec:
  assumes "\<forall>d \<in> set ds. d < length m"
  shows "\<exists>q' m'. block_dependents roots ds (q, m) = Some (q', m')
    \<and> length m' = length m \<and> set q \<subseteq> set q' \<and> set q' \<subseteq> set q \<union> set ds
    \<and> (\<forall>j < length m. m' ! j = (if j \<in> set ds then bs_extend roots (m ! j) else m ! j))
    \<and> (\<forall>j < length m. m' ! j = m ! j \<or> j \<in> set q')"
  using assms
proof (induction ds arbitrary: q m)
  case (Cons d ds)
  let ?x = "bs_extend roots (m ! d)"
  let ?q = "if length ?x \<noteq> length (m ! d) then q @ [d] else q" and ?m = "m[d := ?x]"
  from Cons.prems have d: "d < length m" by simp
  have twice: "bs_extend roots ?x = ?x"
  proof -
    have "set xs \<subseteq> set y \<Longrightarrow> bs_extend xs y = y" for xs y :: "key32 list"
      unfolding bs_extend_def by (induction xs) (simp_all add: insort_insert_key_def)
    then show ?thesis by simp
  qed
  have same: "?x = m ! d \<or> d \<in> set ?q"
    using bs_extend_same [of roots "m ! d"] by (auto split: if_splits)
  obtain q' m' where IH: "block_dependents roots ds (?q, ?m) = Some (q', m')" "length m' = length ?m"
    "set ?q \<subseteq> set q'" "set q' \<subseteq> set ?q \<union> set ds"
    "\<forall>j < length ?m. m' ! j = (if j \<in> set ds then bs_extend roots (?m ! j) else ?m ! j)"
    "\<forall>j < length ?m. m' ! j = ?m ! j \<or> j \<in> set q'"
    using Cons.IH [of ?m ?q] Cons.prems by auto
  have "block_dependents roots (d # ds) (q, m) = Some (q', m')"
    using IH(1) d by (simp add: Let_def)
  moreover have "\<forall>j < length m. m' ! j = (if j \<in> set (d # ds) then bs_extend roots (m ! j) else m ! j)"
    using IH(5) twice d by (auto simp: nth_list_update)
  moreover have "m' ! j = m ! j \<or> j \<in> set q'" if "j < length m" for j
    using IH(3,6) same d that by (cases "j = d") auto
  moreover have "set q \<subseteq> set q'" "set q' \<subseteq> set q \<union> set (d # ds)" "length m' = length m"
    using IH(2-4) by (auto split: if_splits)
  ultimately show ?case by blast
qed simp

text \<open>The queue holds every operation whose roots may not have reached its dependents yet.\<close>

definition roots_passed :: "nat list list \<Rightarrow> key32 list list \<Rightarrow> nat \<Rightarrow> bool" where
  "roots_passed dependents m p \<longleftrightarrow> (\<forall>d \<in> set (dependents ! p). set (m ! p) \<subseteq> set (m ! d))"

lemma block_loop_spec:
  assumes "length dependents = length m" "\<forall>ds \<in> set dependents. \<forall>d \<in> set ds. d < length m"
    and "\<forall>i \<in> set q. i < length m" "\<forall>p < length m. p \<in> set q \<or> roots_passed dependents m p"
    and "\<forall>i < length m. sorted_wrt (<) (m ! i) \<and> set (m ! i) \<subseteq> R i"
    and "\<forall>p < length m. \<forall>d \<in> set (dependents ! p). R p \<subseteq> R d"
  shows "\<exists>m'. block_loop dependents q m = Some m' \<and> length m' = length m
    \<and> (\<forall>p < length m. roots_passed dependents m' p)
    \<and> (\<forall>i < length m. sorted_wrt (<) (m' ! i) \<and> set (m ! i) \<subseteq> set (m' ! i) \<and> set (m' ! i) \<subseteq> R i)"
  using assms
proof (induction dependents q m rule: block_loop.induct)
  case (2 dependents i q m)
  from "2.prems" have i: "i < length m" "i < length dependents" by simp_all
  then have ds: "\<forall>d \<in> set (dependents ! i). d < length m"
    using "2.prems"(2) nth_mem by blast
  obtain q' m' where step: "block_dependents (m ! i) (dependents ! i) (q, m) = Some (q', m')" "length m' = length m"
    "set q \<subseteq> set q'" "set q' \<subseteq> set q \<union> set (dependents ! i)"
    "\<forall>j < length m. m' ! j = (if j \<in> set (dependents ! i) then bs_extend (m ! i) (m ! j) else m ! j)"
    "\<forall>j < length m. m' ! j = m ! j \<or> j \<in> set q'"
    using block_dependents_spec [OF ds] by blast
  have grow: "set (m ! j) \<subseteq> set (m' ! j)" if "j < length m" for j
    using step(5) that by auto
  have passed: "p \<in> set q' \<or> roots_passed dependents m' p" if p: "p < length m" for p
  proof (rule disjCI)
    assume "\<not> roots_passed dependents m' p"
    show "p \<in> set q'"
    proof (rule ccontr)
      assume "p \<notin> set q'"
      then have eq: "m' ! p = m ! p" and "p \<notin> set q"
        using step(3,6) p by auto
      have "set (m' ! p) \<subseteq> set (m' ! d)" if "d \<in> set (dependents ! p)" for d
      proof -
        have d: "d < length m" using "2.prems"(1,2) p that nth_mem by metis
        show ?thesis
        proof (cases "p = i")
          case True
          then show ?thesis using step(5) d that eq by auto
        next
          case False
          then have "set (m ! p) \<subseteq> set (m ! d)"
            using "2.prems"(4) p that \<open>p \<notin> set q\<close> by (auto simp: roots_passed_def)
          with eq grow [OF d] show ?thesis by simp
        qed
      qed
      with \<open>\<not> roots_passed dependents m' p\<close> show False by (simp add: roots_passed_def)
    qed
  qed
  have "set (m ! i) \<subseteq> R j" if "j \<in> set (dependents ! i)" for j
    using "2.prems"(5,6) i(1) that by blast
  then have bound: "sorted_wrt (<) (m' ! j) \<and> set (m' ! j) \<subseteq> R j" if "j < length m" for j
    using step(5) "2.prems"(5) that by (cases "j \<in> set (dependents ! i)") auto
  have "\<forall>j \<in> set q'. j < length m'"
    using step(2,4) "2.prems"(3) ds by auto
  then obtain m'' where m'': "block_loop dependents q' m' = Some m''" "length m'' = length m'"
    "\<forall>p < length m'. roots_passed dependents m'' p"
    "\<forall>j < length m'. sorted_wrt (<) (m'' ! j) \<and> set (m' ! j) \<subseteq> set (m'' ! j) \<and> set (m'' ! j) \<subseteq> R j"
    using "2.IH" [OF _ step(1) refl] "2.prems" i passed bound step(2) by auto
  moreover have "set (m ! j) \<subseteq> set (m'' ! j)" if "j < length m" for j
    using subset_trans [OF grow [OF that], of "set (m'' ! j)"] m''(4) step(2) that by simp
  moreover have "block_loop dependents (i # q) m = Some m''"
    using i step(1) m''(1) by simp
  ultimately show ?case
    using step(2) by (intro exI [of _ m'']) simp
qed auto

text \<open>Reading the links back as causality.\<close>

lemma dependents_of_iff:
  assumes "indexes by_hash es" "p < length es"
  shows "i \<in> set (dependents_of by_hash (map dependencies es) (length es) p)
    \<longleftrightarrow> i < length es \<and> ce_operation (es ! p) \<in> set (dependencies (es ! i))"
  using assms by (auto simp: dependents_of_def indexes_def)

lemma set_absent_of:
  assumes "indexes by_hash es"
  shows "set (absent_of by_hash ds) = set ds - ce_operation ` set es"
  by (auto simp: absent_of_def indexes_None [OF assms])

lemma missing_computed:
  assumes "indexes by_hash es"
  defines "dependents \<equiv> map (dependents_of by_hash (map dependencies es) (length es)) [0..<length es]"
    and "m \<equiv> map (\<lambda>e. absent_of by_hash (dependencies e)) es"
  shows "\<exists>m'. block_loop dependents (filter (\<lambda>i. m ! i \<noteq> []) [0..<length es]) m = Some m'
    \<and> length m' = length es
    \<and> (\<forall>i < length es. sorted_wrt (<) (m' ! i)
        \<and> set (m' ! i) = missing_roots (set es) (ce_operation (es ! i)))"
proof -
  let ?R = "\<lambda>i. missing_roots (set es) (ce_operation (es ! i))"
  have dep: "d \<in> set (dependents ! p) \<longleftrightarrow> d < length es \<and> ce_operation (es ! p) \<in> set (dependencies (es ! d))"
    if "p < length es" for d p
    using dependents_of_iff [OF assms(1) that] that by (simp add: dependents_def)
  have edge: "(ce_operation (es ! p), ce_operation (es ! d)) \<in> caused (set es)"
    if "p < length es" "d \<in> set (dependents ! p)" for d p
    using dep [OF that(1)] that by (auto simp: caused_def)
  have base: "set (m ! i) = set (dependencies (es ! i)) - ce_operation ` set es" if "i < length es" for i
    using that by (simp add: m_def set_absent_of [OF assms(1)])
  have "\<exists>m'. block_loop dependents (filter (\<lambda>i. m ! i \<noteq> []) [0..<length es]) m = Some m' \<and> length m' = length m
      \<and> (\<forall>p < length m. roots_passed dependents m' p)
      \<and> (\<forall>i < length m. sorted_wrt (<) (m' ! i) \<and> set (m ! i) \<subseteq> set (m' ! i) \<and> set (m' ! i) \<subseteq> ?R i)"
  proof (rule block_loop_spec)
    show "\<forall>i < length m. sorted_wrt (<) (m ! i) \<and> set (m ! i) \<subseteq> ?R i"
    proof (intro allI impI conjI)
      fix i assume "i < length m"
      then have i: "i < length es" by (simp add: m_def)
      then show "sorted_wrt (<) (m ! i)" by (simp add: m_def absent_of_def)
      show "set (m ! i) \<subseteq> ?R i"
        using base [OF i] i by (force simp: missing_roots_def caused_def)
    qed
    show "\<forall>p < length m. \<forall>d \<in> set (dependents ! p). ?R p \<subseteq> ?R d"
      using missing_roots_step [OF edge] by (simp add: m_def)
    show "\<forall>ds \<in> set dependents. \<forall>d \<in> set ds. d < length m"
      by (auto simp: dependents_def dependents_of_def m_def)
  qed (auto simp: dependents_def m_def roots_passed_def)
  then obtain m' where m': "block_loop dependents (filter (\<lambda>i. m ! i \<noteq> []) [0..<length es]) m = Some m'"
    "length m' = length es" "\<forall>p < length es. roots_passed dependents m' p"
    "\<forall>i < length es. sorted_wrt (<) (m' ! i) \<and> set (m ! i) \<subseteq> set (m' ! i) \<and> set (m' ! i) \<subseteq> ?R i"
    by (auto simp: m_def)
  have "r \<in> set (m' ! i)"
    if "(r, h) \<in> (caused (set es))\<^sup>+" "r \<notin> ce_operation ` set es" "i < length es" "h = ce_operation (es ! i)" for r h i
    using that
  proof (induction arbitrary: i rule: trancl_induct)
    case (base h)
    then have "r \<in> set (dependencies (es ! i))"
      using assms(1) by (auto simp: caused_def indexes_def in_set_conv_nth distinct_conv_nth)
    with base m'(4) \<open>i < length es\<close> show ?case
      using \<open>\<And>i. i < length es \<Longrightarrow> set (m ! i) = _\<close> by blast
  next
    case (step k h)
    from caused_target [OF step(1)] obtain p where p: "p < length es" "k = ce_operation (es ! p)"
      by (auto simp: in_set_conv_nth)
    moreover have "k \<in> set (dependencies (es ! i))"
      using step(2) step.prems assms(1) by (auto simp: caused_def indexes_def in_set_conv_nth distinct_conv_nth)
    ultimately have "i \<in> set (dependents ! p)"
      using dep step.prems by simp
    with step.IH [OF step.prems(1) p] m'(3) p(1) show ?case by (auto simp: roots_passed_def)
  qed
  then have "?R i \<subseteq> set (m' ! i)" if "i < length es" for i
    using that by (auto simp: missing_roots_def)
  with m'(4) have "set (m' ! i) = ?R i" if "i < length es" for i
    using that by blast
  with m' show ?thesis by blast
qed

end
