(* ===== verification/Stickleback_Projection.thy ===== *)
theory Stickleback_Projection
  imports Stickleback_Order
begin

text \<open>
  The causal projection against its specification: an order that the set of entries alone
  determines, released entry by entry, and what success and failure of the projection mean.
\<close>

section \<open>The order as a set of entries determines it\<close>

definition whole :: "'l causal_entry set \<Rightarrow> 'l causal_entry \<Rightarrow> bool" where
  "whole S e \<longleftrightarrow> missing_roots S (ce_operation e) = {}"

definition causal_key :: "'l causal_entry \<Rightarrow> key32 \<times> 'l \<times> u32 \<times> key32" where
  "causal_key e = (ce_author e, ce_log_id e, ce_seq_num e, ce_operation e)"

text \<open>The entries that may come next once the operations in \<open>X\<close> are out.\<close>

definition ready_entries :: "'l causal_entry set \<Rightarrow> key32 set \<Rightarrow> 'l causal_entry set" where
  "ready_entries S X = {e \<in> S. whole S e \<and> ce_operation e \<notin> X \<and> set (dependencies e) \<subseteq> X}"

text \<open>Always the least of them by author, log, sequence number and operation.\<close>

inductive causal_run :: "'l::linorder causal_entry set \<Rightarrow> key32 set \<Rightarrow> 'l causal_entry list \<Rightarrow> bool" for S where
  run_done: "ready_entries S X = {} \<Longrightarrow> causal_run S X []"
| run_next: "e \<in> ready_entries S X \<Longrightarrow> \<forall>e' \<in> ready_entries S X. causal_key e \<le> causal_key e' \<Longrightarrow>
    causal_run S (insert (ce_operation e) X) es \<Longrightarrow> causal_run S X (e # es)"

inductive_cases causal_run_Nil: "causal_run S X []"
inductive_cases causal_run_Cons: "causal_run S X (e # es)"

lemma causal_key_eq: "one_op_each S \<Longrightarrow> e \<in> S \<Longrightarrow> e' \<in> S \<Longrightarrow> causal_key e = causal_key e' \<Longrightarrow> e = e'"
  by (auto simp: one_op_each_def causal_key_def inj_on_def)

lemma causal_run_unique:
  "causal_run S X xs \<Longrightarrow> causal_run S X ys \<Longrightarrow> one_op_each S \<Longrightarrow> xs = ys"
proof (induction arbitrary: ys rule: causal_run.induct)
  case (run_done X)
  show ?case
  proof (cases ys)
    case (Cons e es)
    with run_done.prems(1) have "e \<in> ready_entries S X" by (metis causal_run_Cons)
    with run_done.hyps show ?thesis by simp
  qed simp
next
  case (run_next e X es)
  show ?case
  proof (cases ys)
    case Nil
    with run_next.prems(1) have "ready_entries S X = {}" by (metis causal_run_Nil)
    with run_next.hyps(1) show ?thesis by simp
  next
    case (Cons e' es')
    with run_next.prems(1) have e': "e' \<in> ready_entries S X" "\<forall>e \<in> ready_entries S X. causal_key e' \<le> causal_key e"
      "causal_run S (insert (ce_operation e') X) es'"
      by (metis causal_run_Cons)+
    then have "causal_key e = causal_key e'"
      using run_next.hyps(1,2) by (auto intro: order_antisym)
    then have "e = e'"
      using causal_key_eq [OF run_next.prems(2)] e'(1) run_next.hyps(1) by (simp add: ready_entries_def)
    with run_next e' Cons show ?thesis by simp
  qed
qed

lemma causal_run_spec:
  "causal_run S X xs \<Longrightarrow>
     set xs \<subseteq> {e \<in> S. whole S e} \<and> distinct (map ce_operation xs) \<and> ce_operation ` set xs \<inter> X = {}
     \<and> (\<forall>k < length xs. set (dependencies (xs ! k)) \<subseteq> X \<union> ce_operation ` set (take k xs))
     \<and> ready_entries S (X \<union> ce_operation ` set xs) = {}"
proof (induction rule: causal_run.induct)
  case (run_next e X es)
  then have "set (dependencies ((e # es) ! k)) \<subseteq> X \<union> ce_operation ` set (take k (e # es))"
    if "k < length (e # es)" for k
    using that by (cases k) (auto simp: ready_entries_def)
  moreover have "insert (ce_operation e) X \<union> ce_operation ` set es = X \<union> ce_operation ` set (e # es)"
    by auto
  ultimately show ?case
    using run_next by (simp add: ready_entries_def)
qed simp

lemma whole_parents:
  assumes "e \<in> S" "whole S e" "d \<in> set (dependencies e)"
  obtains p where "p \<in> S" "ce_operation p = d" "whole S p"
proof -
  have edge: "(d, ce_operation e) \<in> caused S"
    using assms(1,3) by (auto simp: caused_def)
  then have "d \<in> ce_operation ` S"
    using assms(2) by (auto simp: whole_def missing_roots_def)
  moreover have "missing_roots S d = {}"
    using missing_roots_step [OF edge] assms(2) by (simp add: whole_def)
  ultimately show thesis
    using that by (auto simp: whole_def)
qed

text \<open>What is left when nothing is ready lies on or behind a cycle.\<close>

lemma stuck_on_cycle:
  assumes "finite S" "ready_entries S X = {}" "e \<in> S" "whole S e" "ce_operation e \<notin> X"
  shows "\<exists>h. missing_roots S h = {} \<and> (h, h) \<in> (caused S)\<^sup>+"
proof (rule ccontr)
  assume none: "\<nexists>h. missing_roots S h = {} \<and> (h, h) \<in> (caused S)\<^sup>+"
  let ?U = "{h \<in> ce_operation ` S. missing_roots S h = {} \<and> h \<notin> X}"
  let ?r = "caused S \<inter> ?U \<times> ?U"
  have "acyclic ?r"
  proof (rule acyclicI, intro allI notI)
    fix h assume loop: "(h, h) \<in> ?r\<^sup>+"
    then have "(h, h) \<in> (caused S)\<^sup>+" by (rule trancl_mono) (rule Int_lower1)
    moreover obtain z where "(z, h) \<in> ?r" using tranclD2 [OF loop] by blast
    then have "h \<in> ?U" by blast
    ultimately show False using none by blast
  qed
  moreover have "finite ?r"
    by (rule finite_subset [of _ "?U \<times> ?U"]) (use assms(1) in auto)
  ultimately have "wf ?r" by (simp add: finite_acyclic_wf)
  moreover have "ce_operation e \<in> ?U" using assms(3-5) by (auto simp: whole_def)
  ultimately obtain h where h: "h \<in> ?U" "\<And>k. (k, h) \<in> ?r \<Longrightarrow> k \<notin> ?U"
    by (rule wfE_min) blast
  then obtain f where f: "f \<in> S" "ce_operation f = h" "whole S f" by (auto simp: whole_def)
  with h(1) assms(2) obtain d where d: "d \<in> set (dependencies f)" "d \<notin> X"
    by (auto simp: ready_entries_def)
  with whole_parents [OF f(1,3) d(1)] have "d \<in> ?U" by (auto simp: whole_def)
  moreover have "(d, h) \<in> caused S" using f d by (auto simp: caused_def)
  ultimately show False using h by blast
qed

lemma run_looks_back:
  assumes "causal_run S {} xs" "one_op_each S"
    and "(a, b) \<in> (caused S)\<^sup>+" "k < length xs" "ce_operation (xs ! k) = b"
  shows "\<exists>j < k. ce_operation (xs ! j) = a"
proof -
  note run = causal_run_spec [OF assms(1)]
  have one: "\<exists>j < k. ce_operation (xs ! j) = a" if edge: "(a, b) \<in> caused S" and k: "k < length xs" "ce_operation (xs ! k) = b" for a b k
  proof -
    obtain e where e: "e \<in> S" "a \<in> set (dependencies e)" "ce_operation e = b"
      using edge by (auto simp: caused_def)
    have "xs ! k \<in> S" using run nth_mem [OF k(1)] by blast
    with e k(2) assms(2) have "e = xs ! k" by (auto simp: one_op_each_def inj_on_def)
    with e(2) run k(1) have "a \<in> ce_operation ` set (take k xs)" by auto
    then obtain j where "j < k" "a = ce_operation (xs ! j)" using k(1) by (auto simp: in_set_conv_nth)
    then show ?thesis by blast
  qed
  show ?thesis
    using assms(3-5)
  proof (induction arbitrary: k rule: trancl_induct)
    case (step c b)
    then obtain j where "j < k" "ce_operation (xs ! j) = c" using one by blast
    moreover from this step.prems(1) obtain j' where "j' < j" "ce_operation (xs ! j') = a"
      using step.IH [of j] by auto
    ultimately show ?case by (intro exI [of _ j']) simp
  qed (use one in blast)
qed

lemma run_without_cycle:
  assumes "causal_run S {} xs" "set xs = {e \<in> S. whole S e}" "one_op_each S"
  shows "\<not> (\<exists>h. missing_roots S h = {} \<and> (h, h) \<in> (caused S)\<^sup>+)"
proof
  assume "\<exists>h. missing_roots S h = {} \<and> (h, h) \<in> (caused S)\<^sup>+"
  then obtain h where h: "missing_roots S h = {}" "(h, h) \<in> (caused S)\<^sup>+" by blast
  then have "h \<in> ce_operation ` set xs"
    using caused_target [OF h(2)] assms(2) by (auto simp: whole_def)
  then obtain k where k: "k < length xs" "ce_operation (xs ! k) = h" by (auto simp: in_set_conv_nth)
  obtain j where "j < k" "ce_operation (xs ! j) = h"
    using run_looks_back [OF assms(1,3) h(2) k] by blast
  with k causal_run_spec [OF assms(1)] show False
    by (auto simp: distinct_conv_nth)
qed

lemma ready_entries_insert:
  assumes "one_op_each S" "e \<in> ready_entries S X"
    and "\<forall>d \<in> S. ce_operation d \<in> X \<longrightarrow> set (dependencies d) \<subseteq> X"
  shows "ready_entries S (insert (ce_operation e) X) =
    ready_entries S X - {e}
    \<union> {d \<in> S. whole S d \<and> ce_operation e \<in> set (dependencies d) \<and> card (set (dependencies d) - X) = 1}"
proof -
  have e: "e \<in> S" "ce_operation e \<notin> X" "set (dependencies e) \<subseteq> X"
    using assms(2) by (auto simp: ready_entries_def)
  have single: "card (set (dependencies d) - X) = 1 \<longleftrightarrow> set (dependencies d) \<subseteq> insert (ce_operation e) X"
    if "ce_operation e \<in> set (dependencies d)" for d :: "'a causal_entry"
  proof
    assume "card (set (dependencies d) - X) = 1"
    then obtain x where "set (dependencies d) - X = {x}" by (auto simp: card_1_singleton_iff)
    moreover have "ce_operation e \<in> set (dependencies d) - X" using that e(2) by simp
    ultimately have "set (dependencies d) - X = {ce_operation e}" by simp
    then show "set (dependencies d) \<subseteq> insert (ce_operation e) X"
      by (simp add: Diff_subset_conv [symmetric, of _ X "{ce_operation e}", simplified])
  next
    assume "set (dependencies d) \<subseteq> insert (ce_operation e) X"
    with that e(2) have "set (dependencies d) - X = {ce_operation e}" by blast
    then show "card (set (dependencies d) - X) = 1" by simp
  qed
  show ?thesis
  proof (intro set_eqI iffI)
    fix d assume "d \<in> ready_entries S (insert (ce_operation e) X)"
    then show "d \<in> ready_entries S X - {e}
      \<union> {d \<in> S. whole S d \<and> ce_operation e \<in> set (dependencies d) \<and> card (set (dependencies d) - X) = 1}"
      using single [of d] by (cases "ce_operation e \<in> set (dependencies d)") (auto simp: ready_entries_def)
  next
    fix d assume d: "d \<in> ready_entries S X - {e}
      \<union> {d \<in> S. whole S d \<and> ce_operation e \<in> set (dependencies d) \<and> card (set (dependencies d) - X) = 1}"
    have "d \<in> S" using d by (auto simp: ready_entries_def)
    have "d \<noteq> e" using d e by auto
    with e(1) \<open>d \<in> S\<close> assms(1) have "ce_operation d \<noteq> ce_operation e"
      by (auto simp: one_op_each_def inj_on_def)
    then show "d \<in> ready_entries S (insert (ce_operation e) X)"
      using d single [of d] assms(3) e(2) by (auto simp: ready_entries_def)
  qed
qed

section \<open>Releasing entries\<close>

lemma key_index_order_key [simp]: "key_index (order_key e i) = i"
  by (simp add: order_key_def)

lemma order_key_eq [simp]: "order_key e i = order_key e' j \<longleftrightarrow> causal_key e = causal_key e' \<and> i = j"
  by (auto simp: order_key_def causal_key_def)

lemma order_key_causal_key: "order_key e i \<le> order_key e' j \<Longrightarrow> causal_key e \<le> causal_key e'"
  by (auto simp: order_key_def causal_key_def less_eq_prod_def)

lemma strict_head_least: "sorted_wrt (<) (x # xs) \<Longrightarrow> y \<in> set (x # xs) \<Longrightarrow> x \<le> (y :: 'a :: linorder)"
  by auto

lemma release_spec:
  assumes "\<forall>d \<in> set ds. d < length indegree \<and> (complete ! d \<longrightarrow> indegree ! d \<noteq> 0)" "distinct ds"
    and "sorted_wrt (<) ready"
  shows "\<exists>indegree' ready'. release es complete ds (indegree, ready) = Some (indegree', ready')
    \<and> length indegree' = length indegree
    \<and> (\<forall>j < length indegree.
         indegree' ! j = (if j \<in> set ds \<and> complete ! j then indegree ! j - 1 else indegree ! j))
    \<and> sorted_wrt (<) ready'
    \<and> set ready' =
        set ready \<union> (\<lambda>d. order_key (es ! d) d) ` {d \<in> set ds. complete ! d \<and> indegree ! d = 1}"
  using assms
proof (induction ds arbitrary: indegree ready)
  case (Cons d ds)
  from Cons.prems have d: "d < length indegree" "d \<notin> set ds" by auto
  show ?case
  proof (cases "complete ! d")
    case True
    let ?i = "indegree[d := indegree ! d - 1]"
    let ?r = "if ?i ! d = 0 then insort_insert (order_key (es ! d) d) ready else ready"
    have "sorted_wrt (<) ?r" using Cons.prems(3) by (simp add: strict_insort_insert)
    then obtain indegree' ready' where IH: "release es complete ds (?i, ?r) = Some (indegree', ready')"
      "length indegree' = length indegree" "sorted_wrt (<) ready'"
      "\<forall>j < length indegree. indegree' ! j = (if j \<in> set ds \<and> complete ! j then ?i ! j - 1 else ?i ! j)"
      "set ready' = set ?r \<union> (\<lambda>d. order_key (es ! d) d) ` {d \<in> set ds. complete ! d \<and> ?i ! d = 1}"
    proof -
      have "\<forall>d' \<in> set ds. d' < length ?i \<and> (complete ! d' \<longrightarrow> ?i ! d' \<noteq> 0)"
        using Cons.prems(1) d(2) by (auto simp: nth_list_update)
      from Cons.IH [OF this _ \<open>sorted_wrt (<) ?r\<close>] Cons.prems(2) show ?thesis
        using that by (simp only: length_list_update distinct.simps) blast
    qed
    have "set ready' = set ready \<union> (\<lambda>d. order_key (es ! d) d) ` {d' \<in> set (d # ds). complete ! d' \<and> indegree ! d' = 1}"
    proof -
      have "{d \<in> set ds. complete ! d \<and> ?i ! d = 1} = {d \<in> set ds. complete ! d \<and> indegree ! d = 1}"
      proof (rule Collect_cong)
        show "x \<in> set ds \<and> complete ! x \<and> ?i ! x = 1 \<longleftrightarrow> x \<in> set ds \<and> complete ! x \<and> indegree ! x = 1" for x
          using d(2) by (cases "x = d") simp_all
      qed
      moreover have "?i ! d = 0 \<longleftrightarrow> indegree ! d = 1" using Cons.prems(1) d True by auto
      ultimately show ?thesis
        using IH(5) True by (auto simp: set_insort_insert)
    qed
    moreover have "release es complete (d # ds) (indegree, ready) = Some (indegree', ready')"
      using IH(1) d True Cons.prems(1) by (simp add: Let_def)
    moreover have "\<forall>j < length indegree.
        indegree' ! j = (if j \<in> set (d # ds) \<and> complete ! j then indegree ! j - 1 else indegree ! j)"
      using IH(4) d True by (auto simp: nth_list_update)
    ultimately show ?thesis using IH(2,3) by blast
  next
    case False
    then have "{d' \<in> set (d # ds). complete ! d' \<and> indegree ! d' = 1} = {d' \<in> set ds. complete ! d' \<and> indegree ! d' = 1}"
      "\<And>j. j \<in> set (d # ds) \<and> complete ! j \<longleftrightarrow> j \<in> set ds \<and> complete ! j"
      by auto
    then show ?thesis
      using Cons.IH [of indegree ready] Cons.prems False d by (simp only: release.simps) simp
  qed
qed simp

text \<open>The counters and the ready set once the operations in \<open>X\<close> are out.\<close>

definition releasing :: "'l::linorder causal_entry list \<Rightarrow> key32 set \<Rightarrow> nat list \<Rightarrow> 'l ready_key list \<Rightarrow> bool" where
  "releasing es X indegree ready \<longleftrightarrow>
     length indegree = length es
     \<and> (\<forall>i < length es. whole (set es) (es ! i) \<longrightarrow> indegree ! i = card (set (dependencies (es ! i)) - X))
     \<and> sorted_wrt (<) ready
     \<and> set ready = (\<lambda>i. order_key (es ! i) i) ` {i. i < length es \<and> es ! i \<in> ready_entries (set es) X}
     \<and> (\<forall>d \<in> set es. ce_operation d \<in> X \<longrightarrow> set (dependencies d) \<subseteq> X)"

lemma releasing_ready:
  assumes inv: "releasing es X indegree (key # ready)" and ix: "indexes by_hash es"
    and key: "key = order_key (es ! i) i" and i: "i < length es" "es ! i \<in> ready_entries (set es) X"
  shows "(\<lambda>i. order_key (es ! i) i) ` {j. j < length es \<and> es ! j \<in> ready_entries (set es) (insert (ce_operation (es ! i)) X)}
    = set ready \<union> (\<lambda>i. order_key (es ! i) i) ` {d. d < length es \<and> whole (set es) (es ! d)
        \<and> ce_operation (es ! i) \<in> set (dependencies (es ! d)) \<and> card (set (dependencies (es ! d)) - X) = 1}"
proof -
  let ?S = "set es"
  let ?K = "\<lambda>i. order_key (es ! i) i" and ?I = "\<lambda>X. {j. j < length es \<and> es ! j \<in> ready_entries ?S X}"
  have inj: "inj ?K" by (rule injI) simp
  have "insert key (set ready) = ?K ` ?I X" "key \<notin> set ready"
    using inv by (auto simp: releasing_def)
  then have "set ready = ?K ` (?I X - {i})"
    by (simp add: image_set_diff [OF inj] key [symmetric]) blast
  moreover have "?I X - {i} = {j. j < length es \<and> es ! j \<in> ready_entries ?S X - {es ! i}}"
    using ix i(1) by (auto simp: indexes_def distinct_map nth_eq_iff_index_eq)
  moreover have "one_op_each ?S" using ix by (simp add: indexes_def one_op_each_def distinct_map)
  then have "ready_entries ?S (insert (ce_operation (es ! i)) X) = ready_entries ?S X - {es ! i}
    \<union> {d \<in> ?S. whole ?S d \<and> ce_operation (es ! i) \<in> set (dependencies d) \<and> card (set (dependencies d) - X) = 1}"
    using i(2) inv by (intro ready_entries_insert) (auto simp: releasing_def)
  moreover have "{d. d < length es \<and> whole ?S (es ! d) \<and> ce_operation (es ! i) \<in> set (dependencies (es ! d))
      \<and> card (set (dependencies (es ! d)) - X) = 1}
    = {d. d < length es \<and> es ! d \<in> {d \<in> ?S. whole ?S d \<and> ce_operation (es ! i) \<in> set (dependencies d)
          \<and> card (set (dependencies d) - X) = 1}}"
    by auto
  ultimately show ?thesis
    by (simp only: image_Un [symmetric]) (rule arg_cong [of _ _ "(`) ?K"], blast)
qed

lemma releasing_step:
  assumes inv: "releasing es X indegree (key # ready)" and ix: "indexes by_hash es"
    and "i = key_index key"
  defines "ds \<equiv> dependents_of by_hash (map dependencies es) (length es) i"
    and "X' \<equiv> insert (ce_operation (es ! i)) X"
  shows "i < length es \<and> es ! i \<in> ready_entries (set es) X
    \<and> (\<forall>e \<in> ready_entries (set es) X. causal_key (es ! i) \<le> causal_key e)
    \<and> (\<exists>indegree' ready'. release es (map (whole (set es)) es) ds (indegree, ready) = Some (indegree', ready')
        \<and> releasing es X' indegree' ready')"
proof -
  let ?S = "set es" and ?c = "map (whole (set es)) es"
  have "key \<in> set (key # ready)" by simp
  then have "key \<in> (\<lambda>i. order_key (es ! i) i) ` {i. i < length es \<and> es ! i \<in> ready_entries ?S X}"
    using inv unfolding releasing_def by blast
  then have i: "i < length es" "es ! i \<in> ready_entries ?S X" and key: "key = order_key (es ! i) i"
    using assms(3) by auto
  have min: "causal_key (es ! i) \<le> causal_key e" if "e \<in> ready_entries ?S X" for e
  proof -
    from that obtain j where "j < length es" "es ! j = e" by (auto simp: ready_entries_def in_set_conv_nth)
    with that have "order_key e j \<in> (\<lambda>i. order_key (es ! i) i) ` {i. i < length es \<and> es ! i \<in> ready_entries ?S X}"
      by blast
    then have "order_key e j \<in> set (key # ready)"
      using inv unfolding releasing_def by blast
    then have "key \<le> order_key e j"
      using inv unfolding releasing_def by (blast intro: strict_head_least)
    then show ?thesis unfolding key by (rule order_key_causal_key)
  qed
  have ds: "j \<in> set ds \<longleftrightarrow> j < length es \<and> ce_operation (es ! i) \<in> set (dependencies (es ! j))" for j
    using dependents_of_iff [OF ix i(1)] by (simp add: ds_def)
  have out: "ce_operation (es ! i) \<notin> X" using i(2) by (simp add: ready_entries_def)
  have "distinct ds" by (simp add: ds_def dependents_of_def)
  moreover have "\<forall>d \<in> set ds. d < length indegree \<and> (?c ! d \<longrightarrow> indegree ! d \<noteq> 0)"
    using inv out unfolding releasing_def by (auto simp: ds)
  ultimately obtain indegree' ready' where r: "release es ?c ds (indegree, ready) = Some (indegree', ready')"
    "length indegree' = length indegree"
    "\<forall>j < length indegree. indegree' ! j = (if j \<in> set ds \<and> ?c ! j then indegree ! j - 1 else indegree ! j)"
    "sorted_wrt (<) ready'"
    "set ready' = set ready \<union> (\<lambda>d. order_key (es ! d) d) ` {d \<in> set ds. ?c ! d \<and> indegree ! d = 1}"
    using release_spec [of ds indegree ?c ready es] inv by (auto simp: releasing_def)
  have "releasing es X' indegree' ready'"
    unfolding releasing_def
  proof (intro conjI allI impI ballI)
    show "length indegree' = length es" using r(2) inv by (simp add: releasing_def)
    show "sorted_wrt (<) ready'" by (rule r(4))
    fix j assume "j < length es" "whole ?S (es ! j)"
    then show "indegree' ! j = card (set (dependencies (es ! j)) - X')"
      using r(3) inv out by (auto simp: releasing_def ds X'_def card_Diff_insert)
  next
    fix d assume d: "d \<in> ?S" "ce_operation d \<in> X'"
    show "set (dependencies d) \<subseteq> X'"
    proof (cases "ce_operation d \<in> X")
      case True
      with d inv show ?thesis by (auto simp: releasing_def X'_def)
    next
      case False
      with d i have "d = es ! i"
        using ix by (auto simp: X'_def indexes_def distinct_map inj_on_def)
      with i(2) show ?thesis by (auto simp: ready_entries_def X'_def)
    qed
  next
    show "set ready' = (\<lambda>i. order_key (es ! i) i) ` {j. j < length es \<and> es ! j \<in> ready_entries ?S X'}"
      unfolding r(5) X'_def using releasing_ready [OF inv ix key i] inv
      by (auto simp: ds releasing_def)
  qed
  with r(1) i min show ?thesis by blast
qed

lemma ready_loop_run:
  assumes ix: "indexes by_hash es"
    and "complete = map (whole (set es)) es"
    and "dependents = map (dependents_of by_hash (map dependencies es) (length es)) [0..<length es]"
    and "releasing es X indegree ready"
  shows "\<exists>rest. ready_loop es complete dependents indegree ready order = Some (order @ rest)
    \<and> (\<forall>i \<in> set rest. i < length es) \<and> causal_run (set es) X (map ((!) es) rest)"
  using assms
proof (induction es complete dependents indegree ready order arbitrary: X rule: ready_loop.induct)
  case (1 es complete dependents indegree order)
  then have "{i. i < length es \<and> es ! i \<in> ready_entries (set es) X} = {}"
    by (auto simp: releasing_def)
  then have "ready_entries (set es) X = {}"
    by (auto simp: ready_entries_def in_set_conv_nth)
  then show ?case by (auto intro: run_done)
next
  case (2 es complete dependents indegree key ready order)
  let ?i = "key_index key"
  let ?ds = "dependents_of by_hash (map dependencies es) (length es) ?i"
  have step: "?i < length es" "es ! ?i \<in> ready_entries (set es) X"
    "\<forall>e \<in> ready_entries (set es) X. causal_key (es ! ?i) \<le> causal_key e"
    and "\<exists>indegree' ready'. release es (map (whole (set es)) es) ?ds (indegree, ready) = Some (indegree', ready')
      \<and> releasing es (insert (ce_operation (es ! ?i)) X) indegree' ready'"
    using releasing_step [OF "2.prems"(4,1) refl] by blast+
  then obtain indegree' ready' where r: "release es complete (dependents ! ?i) (indegree, ready) = Some (indegree', ready')"
    and inv: "releasing es (insert (ce_operation (es ! ?i)) X) indegree' ready'"
    using "2.prems"(2,3) by auto
  have i: "\<not> ?i \<ge> length dependents" using step(1) "2.prems"(3) by simp
  obtain rest where "ready_loop es complete dependents indegree' ready' (order @ [?i]) = Some ((order @ [?i]) @ rest)"
    "\<forall>i \<in> set rest. i < length es"
    "causal_run (set es) (insert (ce_operation (es ! ?i)) X) (map ((!) es) rest)"
    using "2.IH" [OF refl i r refl "2.prems"(1-3) inv] by blast
  with step i r show ?case
    by (intro exI [of _ "?i # rest"]) (auto simp: Let_def intro: run_next)
qed

section \<open>The start\<close>

lemma fold_ready:
  "set (fold (\<lambda>i r. if P i then insort_insert (f i) r else r) is r) = set r \<union> f ` {i \<in> set is. P i}
   \<and> (sorted_wrt (<) r \<longrightarrow> sorted_wrt (<) (fold (\<lambda>i r. if P i then insort_insert (f i) r else r) is r))"
  by (induction "is" arbitrary: r) (auto simp: set_insort_insert strict_insort_insert)

lemma releasing_start:
  fixes es :: "'l::linorder causal_entry list"
  assumes ix: "indexes by_hash es" and "complete = map (whole (set es)) es"
  defines "indegree \<equiv> map (\<lambda>i. if complete ! i
        then length (filter (\<lambda>d. case bt_get by_hash d of None \<Rightarrow> False | Some p \<Rightarrow> complete ! p)
               (map dependencies es ! i)) else 0) [0..<length es]"
  shows "releasing es {} indegree
    (fold (\<lambda>i r. if complete ! i \<and> indegree ! i = 0 then insort_insert (order_key (es ! i) i) r else r)
       [0..<length es] [])"
proof -
  have count: "indegree ! i = card (set (dependencies (es ! i)))"
    if i: "i < length es" "whole (set es) (es ! i)" for i
  proof -
    have "case bt_get by_hash d of None \<Rightarrow> False | Some p \<Rightarrow> complete ! p" if "d \<in> set (dependencies (es ! i))" for d
    proof -
      from whole_parents [OF nth_mem [OF i(1)] i(2) that] obtain p where "p \<in> set es" "ce_operation p = d" "whole (set es) p" .
      then obtain j where "j < length es" "ce_operation (es ! j) = d" "whole (set es) (es ! j)"
        by (auto simp: in_set_conv_nth)
      with indexes_nth [OF ix] assms(2) show ?thesis by auto
    qed
    then show ?thesis
      using i assms(2) by (simp add: indegree_def distinct_card)
  qed
  have "{i \<in> set [0..<length es]. complete ! i \<and> indegree ! i = 0}
    = {i. i < length es \<and> es ! i \<in> ready_entries (set es) {}}"
    using count assms(2) by (auto simp: ready_entries_def)
  then show ?thesis
    using count fold_ready [of "\<lambda>i. complete ! i \<and> indegree ! i = 0" "\<lambda>i. order_key (es ! i) i" "[0..<length es]" "[]"]
    by (simp add: releasing_def indegree_def)
qed

section \<open>Operations reported as pending\<close>

definition root_report :: "'l causal_entry set \<Rightarrow> 'l causal_entry \<Rightarrow> pending_causal_operation" where
  "root_report S e =
     \<lparr>pc_operation = ce_operation e, pc_missing = sorted_list_of_set (missing_roots S (ce_operation e))\<rparr>"

definition pending_entries :: "'l::linorder causal_entry set \<Rightarrow> 'l causal_entry list \<Rightarrow> bool" where
  "pending_entries S q \<longleftrightarrow>
     set q = {e \<in> S. \<not> whole S e} \<and> sorted_wrt (\<lambda>a b. causal_key a < causal_key b) q"

lemma insort_key_map: "insort_key f (g x) (map g xs) = map g (insort_key (\<lambda>x. f (g x)) x xs)"
  by (induction xs) auto

lemma sort_key_map: "sort_key f (map g xs) = map g (sort_key (\<lambda>x. f (g x)) xs)"
  by (induction xs) (simp_all add: insort_key_map)

lemma pending_entries_unique:
  assumes "pending_entries S q" "pending_entries S q'" "one_op_each S"
  shows "q = q'"
proof -
  have "map causal_key q = map causal_key q'"
    using assms(1,2) by (intro strict_sorted_equal) (auto simp: pending_entries_def sorted_wrt_map)
  moreover have "inj_on causal_key (set q \<union> set q')"
    using assms causal_key_eq by (intro inj_onI) (fastforce simp: pending_entries_def)
  ultimately show ?thesis by (rule map_inj_on)
qed

lemma pending_sorted:
  fixes es :: "'l::linorder causal_entry list"
  assumes "distinct (map ce_operation es)"
  defines "is \<equiv> sort_key (\<lambda>i. order_key (es ! i) i) (filter (\<lambda>i. \<not> whole (set es) (es ! i)) [0..<length es])"
  shows "pending_entries (set es) (map ((!) es) is)"
proof -
  have "sorted_wrt (\<lambda>i j. order_key (es ! i) i \<le> order_key (es ! j) j) is"
    using sorted_sort_key [of "\<lambda>i. order_key (es ! i) i"] by (simp add: is_def sorted_wrt_map)
  moreover have "distinct is" by (simp add: is_def)
  ultimately have "sorted_wrt (\<lambda>i j. order_key (es ! i) i \<le> order_key (es ! j) j \<and> i \<noteq> j) is"
    by (simp add: sorted_wrt_iff_nth_less nth_eq_iff_index_eq)
  then have "sorted_wrt (\<lambda>i j. causal_key (es ! i) < causal_key (es ! j)) is"
  proof (rule sorted_wrt_mono_rel [rotated])
    fix i j assume "i \<in> set is" "j \<in> set is" and le: "order_key (es ! i) i \<le> order_key (es ! j) j \<and> i \<noteq> j"
    then have "ce_operation (es ! i) \<noteq> ce_operation (es ! j)"
      using assms(1) by (auto simp: is_def distinct_conv_nth)
    then have "causal_key (es ! i) \<noteq> causal_key (es ! j)" by (simp add: causal_key_def)
    with le order_key_causal_key [of "es ! i" i "es ! j" j] show "causal_key (es ! i) < causal_key (es ! j)"
      by (simp add: order.strict_iff_order)
  qed
  then show ?thesis
    by (auto simp: pending_entries_def sorted_wrt_map is_def in_set_conv_nth)
qed

section \<open>The projection\<close>

lemma whole_count:
  assumes "distinct (map ce_operation es)"
  shows "length (filter id (map (whole S) es)) = card {e \<in> set es. whole S e}"
proof -
  have "distinct es" using assms by (simp add: distinct_map)
  then have "length (filter (whole S) es) = card (set (filter (whole S) es))"
    by (metis distinct_card distinct_filter)
  then show ?thesis by (simp add: filter_map comp_def)
qed

lemma pending_report:
  fixes es :: "'l::linorder causal_entry list"
  assumes "\<And>i. i < length es \<Longrightarrow> m ! i = sorted_list_of_set (missing_roots (set es) (ce_operation (es ! i)))"
  shows "map snd (sort_key fst (map (\<lambda>i. (order_key (es ! i) i, \<lparr>pc_operation = ce_operation (es ! i), pc_missing = m ! i\<rparr>))
      (filter (\<lambda>i. \<not> map (whole (set es)) es ! i) [0..<length es])))
    = map (root_report (set es)) (map ((!) es)
        (sort_key (\<lambda>i. order_key (es ! i) i) (filter (\<lambda>i. \<not> whole (set es) (es ! i)) [0..<length es])))"
proof -
  have "filter (\<lambda>i. \<not> map (whole (set es)) es ! i) [0..<length es] = filter (\<lambda>i. \<not> whole (set es) (es ! i)) [0..<length es]"
    by (rule filter_cong) simp_all
  then show ?thesis by (simp add: sort_key_map root_report_def assms)
qed

lemma projection_outcome:
  fixes es :: "'l::linorder causal_entry list"
  assumes "\<nexists>n. forked (set es) n" "distinct (map ce_operation es)"
  shows "\<exists>order q. causal_run (set es) {} (map ((!) es) order) \<and> (\<forall>i \<in> set order. i < length es)
    \<and> pending_entries (set es) q
    \<and> causal_projection es =
        Some (if length order \<noteq> card {e \<in> set es. whole (set es) e} then Inl Cycle
              else Inr \<lparr>cp_order = order, cp_pending = map (root_report (set es)) q\<rparr>)"
proof -
  let ?n = "length es" and ?S = "set es" and ?c = "map (whole (set es)) es"
  obtain by_hash where ix: "index_loop 0 es [] = Inr by_hash" "indexes by_hash es"
    using index_loop_indexes [of es] assms(2) by (auto split: sum.splits)
  have seqs: "validate_sequences es = Inr ()"
    using validate_sequences_spec [of es] assms(1) by (auto split: sum.splits)
  let ?ds = "map (dependents_of by_hash (map dependencies es) ?n) [0..<?n]"
  let ?m = "map (\<lambda>e. absent_of by_hash (dependencies e)) es"
  obtain m where m: "block_loop ?ds (filter (\<lambda>i. ?m ! i \<noteq> []) [0..<?n]) ?m = Some m" "length m = ?n"
    "\<forall>i < ?n. sorted_wrt (<) (m ! i) \<and> set (m ! i) = missing_roots ?S (ce_operation (es ! i))"
    using missing_computed [OF ix(2)] by blast
  have c: "map (\<lambda>m. m = []) m = ?c"
    using m(2,3) by (auto intro!: nth_equalityI simp: whole_def)
  have roots: "m ! i = sorted_list_of_set (missing_roots ?S (ce_operation (es ! i)))" if "i < ?n" for i
    using m(3) that by (metis sorted_list_of_set.idem_if_sorted_distinct strict_sorted_iff)
  note start = releasing_start [OF ix(2) refl]
  obtain order where order: "\<forall>i \<in> set order. i < ?n" "causal_run ?S {} (map ((!) es) order)"
    and loop: "ready_loop es ?c ?ds
      (map (\<lambda>i. if ?c ! i
        then length (filter (\<lambda>d. case bt_get by_hash d of None \<Rightarrow> False | Some p \<Rightarrow> ?c ! p) (map dependencies es ! i))
        else 0) [0..<?n])
      (fold (\<lambda>i r. if ?c ! i \<and> map (\<lambda>i. if ?c ! i
        then length (filter (\<lambda>d. case bt_get by_hash d of None \<Rightarrow> False | Some p \<Rightarrow> ?c ! p) (map dependencies es ! i))
        else 0) [0..<?n] ! i = 0 then insort_insert (order_key (es ! i) i) r else r) [0..<?n] []) [] = Some order"
    using ready_loop_run [OF ix(2) refl refl start, of "[]"] by auto
  let ?is = "sort_key (\<lambda>i. order_key (es ! i) i) (filter (\<lambda>i. \<not> whole ?S (es ! i)) [0..<?n])"
  have pending: "map snd (sort_key fst (map (\<lambda>i. (order_key (es ! i) i, \<lparr>pc_operation = ce_operation (es ! i), pc_missing = m ! i\<rparr>))
      (filter (\<lambda>i. \<not> ?c ! i) [0..<?n]))) = map (root_report ?S) (map ((!) es) ?is)"
    by (rule pending_report) (rule roots)
  have "causal_projection es =
      Some (if length order \<noteq> card {e \<in> ?S. whole ?S e} then Inl Cycle
            else Inr \<lparr>cp_order = order, cp_pending = map (root_report ?S) (map ((!) es) ?is)\<rparr>)"
    unfolding causal_projection_def seqs ix(1) sum.case Let_def link_loop_spec [OF ix(2)] prod.case m(1) option.case c loop
      whole_count [OF assms(2)] pending by (rule if_distrib [symmetric])
  with order pending_sorted [OF assms(2)] show ?thesis by blast
qed

lemma finite_missing_roots: "finite S \<Longrightarrow> finite (missing_roots S h)"
proof -
  assume "finite S"
  have "r \<in> \<Union> ((set \<circ> dependencies) ` S)" if "(r, h) \<in> (caused S)\<^sup>+" for r
    using that by (induction rule: converse_trancl_induct) (auto simp: caused_def)
  then have "missing_roots S h \<subseteq> \<Union> ((set \<circ> dependencies) ` S)"
    by (auto simp: missing_roots_def)
  then show ?thesis using \<open>finite S\<close> by (auto intro: finite_subset)
qed

text \<open>The order lists every entry whose history is present, or there is a cycle.\<close>

lemma run_complete_or_cycle:
  assumes "finite S" "one_op_each S" "causal_run S {} xs"
  shows "if length xs = card {e \<in> S. whole S e}
    then set xs = {e \<in> S. whole S e} \<and> \<not> (\<exists>h. missing_roots S h = {} \<and> (h, h) \<in> (caused S)\<^sup>+)
    else \<exists>h. missing_roots S h = {} \<and> (h, h) \<in> (caused S)\<^sup>+"
proof -
  let ?W = "{e \<in> S. whole S e}"
  have run: "set xs \<subseteq> ?W" "distinct (map ce_operation xs)" "ready_entries S (ce_operation ` set xs) = {}"
    using causal_run_spec [OF assms(3)] by simp_all
  have len: "length xs = card (set xs)"
    using run(2) by (simp add: distinct_map distinct_card)
  show ?thesis
  proof (cases "length xs = card ?W")
    case True
    then have "set xs = ?W"
      using card_subset_eq [OF _ run(1)] assms(1) len by simp
    with True run_without_cycle [OF assms(3) _ assms(2)] show ?thesis by simp
  next
    case False
    with len have "set xs \<noteq> ?W" by metis
    then obtain e where e: "e \<in> S" "whole S e" "e \<notin> set xs"
      using run(1) by blast
    then have "ce_operation e \<notin> ce_operation ` set xs"
      using run(1) assms(2) by (auto simp: one_op_each_def inj_on_def)
    with e stuck_on_cycle [OF assms(1) run(3)] False show ?thesis by simp
  qed
qed

lemma projection_success:
  assumes "causal_projection es = Some (Inr p)"
  shows "(\<nexists>n. forked (set es) n) \<and> distinct (map ce_operation es)
    \<and> (\<nexists>h. missing_roots (set es) h = {} \<and> (h, h) \<in> (caused (set es))\<^sup>+)"
    "causal_run (set es) {} (map ((!) es) (cp_order p))" "\<forall>i \<in> set (cp_order p). i < length es"
    "(!) es ` set (cp_order p) = {e \<in> set es. whole (set es) e}"
    "\<exists>q. pending_entries (set es) q \<and> cp_pending p = map (root_report (set es)) q"
proof -
  have ok: "(\<nexists>n. forked (set es) n) \<and> distinct (map ce_operation es)"
    using assms validate_sequences_spec [of es] index_loop_indexes [of es]
    by (auto simp: causal_projection_def indexes_def split: sum.splits)
  then have one: "one_op_each (set es)" by (simp add: one_op_each_def distinct_map)
  obtain order q where o: "causal_run (set es) {} (map ((!) es) order)" "\<forall>i \<in> set order. i < length es"
    "pending_entries (set es) q"
    "causal_projection es = Some (if length order \<noteq> card {e \<in> set es. whole (set es) e} then Inl Cycle
       else Inr \<lparr>cp_order = order, cp_pending = map (root_report (set es)) q\<rparr>)"
    using projection_outcome ok by blast
  with assms have p: "length order = card {e \<in> set es. whole (set es) e}"
    "p = \<lparr>cp_order = order, cp_pending = map (root_report (set es)) q\<rparr>"
    by (auto split: if_splits)
  note full = run_complete_or_cycle [OF finite_set one o(1)]
  show "(\<nexists>n. forked (set es) n) \<and> distinct (map ce_operation es)
    \<and> (\<nexists>h. missing_roots (set es) h = {} \<and> (h, h) \<in> (caused (set es))\<^sup>+)"
    "(!) es ` set (cp_order p) = {e \<in> set es. whole (set es) e}"
    using ok full p by simp_all
  show "causal_run (set es) {} (map ((!) es) (cp_order p))" "\<forall>i \<in> set (cp_order p). i < length es"
    "\<exists>q. pending_entries (set es) q \<and> cp_pending p = map (root_report (set es)) q"
    using o p by auto
qed

lemma projection_success_iff:
  "(\<exists>p. causal_projection es = Some (Inr p)) \<longleftrightarrow>
     (\<nexists>n. forked (set es) n) \<and> distinct (map ce_operation es)
     \<and> (\<nexists>h. missing_roots (set es) h = {} \<and> (h, h) \<in> (caused (set es))\<^sup>+)"
proof
  assume ok: "(\<nexists>n. forked (set es) n) \<and> distinct (map ce_operation es)
     \<and> (\<nexists>h. missing_roots (set es) h = {} \<and> (h, h) \<in> (caused (set es))\<^sup>+)"
  then obtain order q where "causal_run (set es) {} (map ((!) es) order)"
    "causal_projection es = Some (if length order \<noteq> card {e \<in> set es. whole (set es) e} then Inl Cycle
       else Inr \<lparr>cp_order = order, cp_pending = map (root_report (set es)) q\<rparr>)"
    using projection_outcome [of es] by blast
  with ok run_complete_or_cycle [OF finite_set, of es "map ((!) es) order"]
  show "\<exists>p. causal_projection es = Some (Inr p)"
    by (auto simp: one_op_each_def distinct_map split: if_splits)
qed (use projection_success in blast)

lemma projection_errors:
  "\<exists>r. causal_projection es = Some r \<and>
     (\<forall>x. r = Inl x \<longrightarrow>
        x = Cycle \<and> (\<exists>h. missing_roots (set es) h = {} \<and> (h, h) \<in> (caused (set es))\<^sup>+)
        \<or> x = DuplicateOperation \<and> \<not> distinct (map ce_operation es)
        \<or> (\<exists>n. x = ForkedSequence n \<and> forked (set es) n))"
proof (cases "(\<nexists>n. forked (set es) n) \<and> distinct (map ce_operation es)")
  case True
  then obtain order q where "causal_run (set es) {} (map ((!) es) order)"
    "causal_projection es = Some (if length order \<noteq> card {e \<in> set es. whole (set es) e} then Inl Cycle
       else Inr \<lparr>cp_order = order, cp_pending = map (root_report (set es)) q\<rparr>)"
    using projection_outcome by blast
  with True run_complete_or_cycle [OF finite_set, of es "map ((!) es) order"] show ?thesis
    by (auto simp: one_op_each_def distinct_map split: if_splits)
next
  case False
  then show ?thesis
    using validate_sequences_spec [of es] index_loop_indexes [of es]
    by (auto simp: causal_projection_def indexes_def split: sum.splits)
qed

lemma order_of_whole:
  assumes "distinct (map ce_operation es)" "\<forall>i \<in> set order. i < length es"
    and "(!) es ` set order = {e \<in> set es. whole (set es) e}"
  shows "set order = {i. i < length es \<and> missing_roots (set es) (ce_operation (es ! i)) = {}}"
proof (intro set_eqI iffI)
  fix i assume "i \<in> set order"
  with assms(2,3) show "i \<in> {i. i < length es \<and> missing_roots (set es) (ce_operation (es ! i)) = {}}"
    by (auto simp: whole_def)
next
  fix i assume i: "i \<in> {i. i < length es \<and> missing_roots (set es) (ce_operation (es ! i)) = {}}"
  then have "es ! i \<in> (!) es ` set order" using assms(3) by (simp add: whole_def)
  then obtain j where "j \<in> set order" "es ! i = es ! j" by blast
  with i assms(1,2) show "i \<in> set order"
    by (auto simp: distinct_map nth_eq_iff_index_eq)
qed

lemma order_respects:
  assumes "causal_run S {} (map ((!) es) order)"
  shows "\<forall>k < length order. set (dependencies (es ! (order ! k))) \<subseteq> (\<lambda>i. ce_operation (es ! i)) ` set (take k order)"
  using causal_run_spec [OF assms] by (simp add: take_map image_image)

lemma pending_exact:
  assumes "\<exists>q. pending_entries (set es) q \<and> pending = map (root_report (set es)) q" "distinct (map ce_operation es)"
  shows "distinct (map pc_operation pending)"
    "(\<lambda>q. (pc_operation q, set (pc_missing q))) ` set pending =
       (\<lambda>e. (ce_operation e, missing_roots (set es) (ce_operation e)))
         ` {e \<in> set es. missing_roots (set es) (ce_operation e) \<noteq> {}}"
proof -
  obtain q where q: "set q = {e \<in> set es. \<not> whole (set es) e}" "sorted_wrt (\<lambda>a b. causal_key a < causal_key b) q"
    and pending: "pending = map (root_report (set es)) q"
    using assms(1) by (auto simp: pending_entries_def)
  have "distinct q" using q(2) by (induction q) auto
  moreover have "inj_on ce_operation (set q)"
    using assms(2) q(1) by (auto simp: distinct_map inj_on_def)
  ultimately show "distinct (map pc_operation pending)"
    by (simp add: pending root_report_def comp_def distinct_map)
  show "(\<lambda>q. (pc_operation q, set (pc_missing q))) ` set pending =
       (\<lambda>e. (ce_operation e, missing_roots (set es) (ce_operation e)))
         ` {e \<in> set es. missing_roots (set es) (ce_operation e) \<noteq> {}}"
    by (simp add: pending image_image root_report_def finite_missing_roots q(1) whole_def)
qed

end
