(* ===== verification/Stickleback_Convergence.thy ===== *)
theory Stickleback_Convergence
  imports Stickleback_Projection
begin

text \<open>
  The results on the causal bookkeeping: the projection is exact and replicas that retain the same
  operations agree on it, reachability is the causal order, and the frontier and an author's head
  are what the retained operations make them.
\<close>

section \<open>Results\<close>

text \<open>Four retained operations of two authors; the last one's history is not all there.\<close>

definition demo_entries :: "nat causal_entry list" where
  "demo_entries =
     [\<lparr>ce_operation = 7, ce_author = 10, ce_log_id = 0, ce_seq_num = 1, ce_backlink = Some 5, ce_parents = [6]\<rparr>,
      \<lparr>ce_operation = 8, ce_author = 20, ce_log_id = 0, ce_seq_num = 2, ce_backlink = Some 9, ce_parents = [7]\<rparr>,
      \<lparr>ce_operation = 6, ce_author = 20, ce_log_id = 0, ce_seq_num = 0, ce_backlink = None, ce_parents = [5]\<rparr>,
      \<lparr>ce_operation = 5, ce_author = 10, ce_log_id = 0, ce_seq_num = 0, ce_backlink = None, ce_parents = []\<rparr>]"

lemmas projection_eval =
  causal_projection_def validate_sequences_def bt_get_def dependencies_def bs_extend_def
  insort_insert_key_def order_key_def upt_conv_Cons

lemma demo_projection:
  "causal_projection demo_entries =
     Some (Inr \<lparr>cp_order = [3, 2, 0], cp_pending = [\<lparr>pc_operation = 8, pc_missing = [9]\<rparr>]\<rparr>)"
  by (simp add: projection_eval demo_entries_def)

lemma demo_projection_rev:
  "causal_projection (rev demo_entries) =
     Some (Inr \<lparr>cp_order = [0, 1, 3], cp_pending = [\<lparr>pc_operation = 8, pc_missing = [9]\<rparr>]\<rparr>)"
  by (simp add: projection_eval demo_entries_def)

text \<open>
  C12. The causal projection never panics and never loops. When it succeeds, its order lists each
  retained operation with a complete history exactly once and after everything it depends on; the
  operations it reports as pending are exactly the others, each once, with exactly the roots
  missing from its history; and the entries are free of forks, duplicates and of cycles with a
  complete history. When it fails, the reported reason holds of the entries.
\<close>

theorem causal_projection_exact:
  "\<exists>r. causal_projection es = Some r \<and>
     (case r of
        Inr p \<Rightarrow>
          distinct (cp_order p)
          \<and> set (cp_order p) = {i. i < length es \<and> missing_roots (set es) (ce_operation (es ! i)) = {}}
          \<and> (\<forall>k < length (cp_order p). set (dependencies (es ! (cp_order p ! k)))
               \<subseteq> (\<lambda>i. ce_operation (es ! i)) ` set (take k (cp_order p)))
          \<and> distinct (map pc_operation (cp_pending p))
          \<and> (\<lambda>q. (pc_operation q, set (pc_missing q))) ` set (cp_pending p) =
              (\<lambda>e. (ce_operation e, missing_roots (set es) (ce_operation e)))
                ` {e \<in> set es. missing_roots (set es) (ce_operation e) \<noteq> {}}
          \<and> distinct (map ce_operation es) \<and> (\<nexists>n. forked (set es) n)
          \<and> (\<nexists>h. missing_roots (set es) h = {} \<and> (h, h) \<in> (caused (set es))\<^sup>+)
      | Inl x \<Rightarrow>
          x = Cycle \<and> (\<exists>h. missing_roots (set es) h = {} \<and> (h, h) \<in> (caused (set es))\<^sup>+)
          \<or> x = DuplicateOperation \<and> \<not> distinct (map ce_operation es)
          \<or> (\<exists>n. x = ForkedSequence n \<and> forked (set es) n))"
proof -
  from projection_errors [of es] obtain r where r: "causal_projection es = Some r"
    and errs: "\<forall>x. r = Inl x \<longrightarrow>
      x = Cycle \<and> (\<exists>h. missing_roots (set es) h = {} \<and> (h, h) \<in> (caused (set es))\<^sup>+)
      \<or> x = DuplicateOperation \<and> \<not> distinct (map ce_operation es)
      \<or> (\<exists>n. x = ForkedSequence n \<and> forked (set es) n)"
    by (elim exE conjE)
  show ?thesis
  proof (cases r)
    case (Inl x)
    with errs have "x = Cycle \<and> (\<exists>h. missing_roots (set es) h = {} \<and> (h, h) \<in> (caused (set es))\<^sup>+)
      \<or> x = DuplicateOperation \<and> \<not> distinct (map ce_operation es)
      \<or> (\<exists>n. x = ForkedSequence n \<and> forked (set es) n)"
      by (elim allE impE)
    with Inl r show ?thesis by simp
  next
    case (Inr p)
    note ok = projection_success [OF r [unfolded Inr]]
    have ops: "distinct (map ce_operation es)" using ok(1) by simp
    have "distinct (cp_order p)"
      using causal_run_spec [OF ok(2)] by (simp add: distinct_map)
    with r Inr ok(1) order_of_whole [OF ops ok(3,4)] order_respects [OF ok(2)] pending_exact [OF ok(5) ops]
    show ?thesis by (intro exI [of _ r]) (simp del: take_map)
  qed
qed

theorem causal_projection_exact_witness:
  "{i. i < length demo_entries \<and> missing_roots (set demo_entries) (ce_operation (demo_entries ! i)) = {}} = {0, 2, 3}
   \<and> (\<lambda>e. (ce_operation e, missing_roots (set demo_entries) (ce_operation e)))
        ` {e \<in> set demo_entries. missing_roots (set demo_entries) (ce_operation e) \<noteq> {}} = {(8, {9})}"
  using causal_projection_exact [of demo_entries] unfolding demo_projection by auto

text \<open>
  C13. Replicas that retain the same operations agree: whatever the order in which the entries
  arrived, the projection puts them in the same sequence and reports the same pending operations
  in the same order.
\<close>

theorem causal_projection_converges:
  assumes "mset es = mset es'" "causal_projection es = Some (Inr p)"
  shows "\<exists>p'. causal_projection es' = Some (Inr p')
    \<and> map ((!) es') (cp_order p') = map ((!) es) (cp_order p) \<and> cp_pending p' = cp_pending p"
proof -
  have same: "set es' = set es" "distinct (map ce_operation es') \<longleftrightarrow> distinct (map ce_operation es)"
    using assms(1) mset_eq_setD mset_eq_imp_distinct_iff [of "map ce_operation es" "map ce_operation es'"] by auto
  note ok = projection_success [OF assms(2)]
  then obtain p' where p': "causal_projection es' = Some (Inr p')"
    using projection_success_iff [of es'] same by auto
  note ok' = projection_success [OF p', unfolded same(1)]
  have one: "one_op_each (set es)" using ok(1) by (simp add: one_op_each_def distinct_map)
  show ?thesis
    using p' causal_run_unique [OF ok'(2) ok(2) one] ok(5) ok'(5) pending_entries_unique [OF _ _ one] by fastforce
qed

theorem causal_projection_converges_witness:
  "mset (rev demo_entries) = mset demo_entries
   \<and> (\<exists>p. causal_projection demo_entries = Some (Inr p)
        \<and> map ((!) demo_entries) (cp_order p) = map ((!) (rev demo_entries)) [0, 1, 3])"
  using causal_projection_converges [OF _ demo_projection_rev, of demo_entries] by auto

section \<open>Reachability\<close>

lemma causal_index_get:
  assumes "distinct (map ce_operation es)"
  shows "bt_get (causal_index es) h = Some e \<longleftrightarrow> e \<in> set es \<and> ce_operation e = h"
proof -
  have "bt_get (fold (\<lambda>e m. bt_insert (ce_operation e) e m) es m) h =
      (case find (\<lambda>e. ce_operation e = h) (rev es) of None \<Rightarrow> bt_get m h | Some e \<Rightarrow> Some e)" for m
    by (induction es rule: rev_induct) (auto simp: bt_get_insert)
  then have "bt_get (causal_index es) h = find (\<lambda>e. ce_operation e = h) (rev es)"
    by (simp add: causal_index_def split: option.splits)
  moreover have "find (\<lambda>e. ce_operation e = h) xs = Some e \<longleftrightarrow> e \<in> set xs \<and> ce_operation e = h"
    if "distinct (map ce_operation xs)" for xs
    using that by (induction xs) (auto simp: image_iff)
  ultimately show ?thesis using assms by (simp add: rev_map [symmetric])
qed

text \<open>The dependencies recorded for an operation of the index.\<close>

definition links_of :: "'l entry_index \<Rightarrow> key32 \<Rightarrow> key32 set" where
  "links_of by_hash h = (case bt_get by_hash h of None \<Rightarrow> {} | Some e \<Rightarrow> set (dependencies e))"

lemma before_loop_sound:
  "before_loop by_hash earlier seen pending \<Longrightarrow>
     \<exists>h \<in> set pending. (earlier, h) \<in> {(a, b). a \<in> links_of by_hash b}\<^sup>*"
proof (induction by_hash earlier seen pending rule: before_loop.induct)
  case (2 by_hash earlier seen oper pending)
  show ?case
  proof (cases "bt_get by_hash oper")
    case (Some e)
    have up: "(earlier, oper) \<in> {(a, b). a \<in> links_of by_hash b}\<^sup>*"
      if "(earlier, d) \<in> {(a, b). a \<in> links_of by_hash b}\<^sup>*" "d \<in> set (dependencies e)" for d
      using that Some by (auto simp: links_of_def intro: rtrancl_into_rtrancl)
    with 2 Some show ?thesis by (auto split: if_splits)
  qed (use 2 in \<open>auto split: if_splits\<close>)
qed simp

lemma before_loop_complete:
  "\<not> before_loop by_hash earlier seen pending \<Longrightarrow> earlier \<notin> seen \<Longrightarrow>
     (\<forall>s \<in> seen. links_of by_hash s \<subseteq> seen \<union> set pending) \<Longrightarrow>
     \<exists>C. seen \<union> set pending \<subseteq> C \<and> (\<forall>s \<in> C. links_of by_hash s \<subseteq> C) \<and> earlier \<notin> C"
proof (induction by_hash earlier seen pending rule: before_loop.induct)
  case (1 by_hash earlier seen)
  then show ?case by (intro exI [of _ seen]) simp
next
  case (2 by_hash earlier seen oper pending)
  from "2.prems"(1) have ne: "oper \<noteq> earlier" by auto
  show ?case
  proof (cases "oper \<in> seen")
    case True
    then have "seen \<union> set (oper # pending) = seen \<union> set pending" by auto
    with "2.IH"(1) [OF ne True] "2.prems" ne True show ?thesis by simp
  next
    case new: False
    show ?thesis
    proof (cases "bt_get by_hash oper")
      case None
      then have "\<forall>s \<in> insert oper seen. links_of by_hash s \<subseteq> insert oper seen \<union> set pending"
        using "2.prems"(3) by (auto simp: links_of_def)
      with "2.IH"(2) [OF ne new None] "2.prems" ne new None show ?thesis by simp
    next
      case (Some e)
      let ?p = "rev (dependencies e) @ pending"
      have "\<forall>s \<in> insert oper seen. links_of by_hash s \<subseteq> insert oper seen \<union> set ?p"
        using "2.prems"(3) Some by (auto simp: links_of_def)
      with "2.IH"(3) [OF ne new Some] "2.prems" ne new Some
      obtain C where "insert oper seen \<union> set ?p \<subseteq> C" "\<forall>s \<in> C. links_of by_hash s \<subseteq> C" "earlier \<notin> C"
        by auto
      then show ?thesis by (intro exI [of _ C]) auto
    qed
  qed
qed

lemma closed_under_links:
  assumes "(a, b) \<in> {(a, b). a \<in> links_of by_hash b}\<^sup>*" "b \<in> C" "\<forall>s \<in> C. links_of by_hash s \<subseteq> C"
  shows "a \<in> C"
  using assms by (induction rule: converse_rtrancl_induct) auto

lemma before_loop_iff:
  "before_loop by_hash earlier {} pending \<longleftrightarrow>
     (\<exists>h \<in> set pending. (earlier, h) \<in> {(a, b). a \<in> links_of by_hash b}\<^sup>*)"
proof
  assume reach: "\<exists>h \<in> set pending. (earlier, h) \<in> {(a, b). a \<in> links_of by_hash b}\<^sup>*"
  show "before_loop by_hash earlier {} pending"
  proof (rule ccontr)
    assume "\<not> before_loop by_hash earlier {} pending"
    from before_loop_complete [OF this] obtain C where
      "set pending \<subseteq> C" "\<forall>s \<in> C. links_of by_hash s \<subseteq> C" "earlier \<notin> C" by auto
    moreover from reach obtain h where "h \<in> set pending" "(earlier, h) \<in> {(a, b). a \<in> links_of by_hash b}\<^sup>*" ..
    ultimately show False using closed_under_links [of earlier h by_hash C] by auto
  qed
qed (rule before_loop_sound)

text \<open>
  C15. Reachability decides the causal order: an operation is reported to have happened before
  another exactly when a chain of backlinks and parents leads from the later one to it through the
  retained operations, and the search ends also on entries that contain cycles.
\<close>

theorem happens_before_exact:
  assumes "distinct (map ce_operation es)"
  shows "happens_before es earlier later \<longleftrightarrow> (earlier, later) \<in> (caused (set es))\<^sup>+"
proof -
  have "a \<in> links_of (causal_index es) b \<longleftrightarrow> (a, b) \<in> caused (set es)" for a b
  proof (cases "bt_get (causal_index es) b")
    case None
    then have "\<nexists>e. e \<in> set es \<and> ce_operation e = b" using causal_index_get [OF assms, of b] by simp
    with None show ?thesis by (auto simp: links_of_def caused_def)
  next
    case (Some e)
    then have "e' \<in> set es \<and> ce_operation e' = b \<longleftrightarrow> e' = e" for e'
      using causal_index_get [OF assms, of b e'] by auto
    moreover have "(a, b) \<in> caused (set es) \<longleftrightarrow> (\<exists>e'. (e' \<in> set es \<and> ce_operation e' = b) \<and> a \<in> set (dependencies e'))"
      by (auto simp: caused_def)
    ultimately show ?thesis using Some by (simp add: links_of_def)
  qed
  then have links: "{(a, b). a \<in> links_of (causal_index es) b} = caused (set es)" by auto
  have "happens_before es earlier later \<longleftrightarrow> (\<exists>h \<in> links_of (causal_index es) later. (earlier, h) \<in> (caused (set es))\<^sup>*)"
    unfolding happens_before_def index_happens_before_def before_loop_iff links
    by (cases "bt_get (causal_index es) later") (simp_all add: links_of_def)
  also have "\<dots> \<longleftrightarrow> (\<exists>h. (earlier, h) \<in> (caused (set es))\<^sup>* \<and> (h, later) \<in> caused (set es))"
    unfolding links [symmetric] by auto
  also have "\<dots> \<longleftrightarrow> (earlier, later) \<in> (caused (set es))\<^sup>+"
    by (metis rtrancl_into_trancl1 tranclD2)
  finally show ?thesis .
qed

theorem happens_before_exact_witness:
  "(9, 8) \<in> (caused (set demo_entries))\<^sup>+ \<and> (5, 8) \<in> (caused (set demo_entries))\<^sup>+
   \<and> (9, 7) \<notin> (caused (set demo_entries))\<^sup>+"
  using happens_before_exact [of demo_entries 9 8] happens_before_exact [of demo_entries 5 8]
    happens_before_exact [of demo_entries 9 7]
  by (simp add: demo_entries_def happens_before_def index_happens_before_def causal_index_def
      bt_get_def dependencies_def bs_extend_def insort_insert_key_def)

end
