(* ===== verification/Stickleback_Authoring.thy ===== *)
theory Stickleback_Authoring
  imports Stickleback_Convergence
begin

text \<open>
  What a new record is written on: the heads of the observed logs, the next position of an author,
  and the place the causal projection gives to a record authored from them.
\<close>

section \<open>Heads\<close>

definition same_log :: "'l causal_entry \<Rightarrow> 'l causal_entry \<Rightarrow> bool" where
  "same_log a b \<longleftrightarrow> ce_author a = ce_author b \<and> ce_log_id a = ce_log_id b"

definition is_head :: "'l causal_entry set \<Rightarrow> 'l causal_entry \<Rightarrow> bool" where
  "is_head S e \<longleftrightarrow> e \<in> S \<and> (\<forall>x \<in> S. same_log x e \<longrightarrow> ce_seq_num x \<le> ce_seq_num e)"

lemma frontier_inv: "bt_inv (fold frontier_step es m) = bt_inv m" if "bt_inv m"
  using that by (induction es arbitrary: m) (auto simp: frontier_step_def Let_def)

lemma frontier_step_get:
  "bt_get (frontier_step e m) (a, l) =
     (if ce_author e = a \<and> ce_log_id e = l
         \<and> (case bt_get m (a, l) of None \<Rightarrow> True | Some (s, _) \<Rightarrow> ce_seq_num e > s)
      then Some (ce_seq_num e, ce_operation e) else bt_get m (a, l))"
  by (auto simp: frontier_step_def Let_def bt_get_insert)

lemma frontier_get:
  fixes es :: "'l::linorder causal_entry list"
  shows "case bt_get (fold frontier_step es []) (a, l) of
      None \<Rightarrow> \<forall>x \<in> set es. \<not> (ce_author x = a \<and> ce_log_id x = l)
    | Some (s, h) \<Rightarrow> \<exists>e. is_head (set es) e \<and> ce_author e = a \<and> ce_log_id e = l \<and> ce_seq_num e = s \<and> ce_operation e = h"
proof (induction es rule: rev_induct)
  case (snoc e es)
  let ?m = "fold frontier_step es []"
  show ?case
  proof (cases "ce_author e = a \<and> ce_log_id e = l")
    case False
    then have "bt_get (fold frontier_step (es @ [e]) []) (a, l) = bt_get ?m (a, l)"
      by (auto simp: frontier_step_get)
    moreover have "is_head (set (es @ [e])) x" if "is_head (set es) x" "ce_author x = a" "ce_log_id x = l" for x
      using that False by (auto simp: is_head_def same_log_def)
    ultimately show ?thesis
      using snoc False by (auto split: option.splits)
  next
    case True
    show ?thesis
    proof (cases "bt_get ?m (a, l)")
      case None
      with True snoc have "is_head (set (es @ [e])) e" by (auto simp: is_head_def same_log_def)
      with None True show ?thesis by (auto simp: frontier_step_get)
    next
      case (Some v)
      with snoc obtain x where x: "is_head (set es) x" "ce_author x = a" "ce_log_id x = l"
        "v = (ce_seq_num x, ce_operation x)" by (auto split: prod.splits)
      have "ce_seq_num e > ce_seq_num x \<Longrightarrow> is_head (set (es @ [e])) e"
        "\<not> ce_seq_num e > ce_seq_num x \<Longrightarrow> is_head (set (es @ [e])) x"
        using x True by (auto simp: is_head_def same_log_def)
      with Some x True show ?thesis
        by (cases "ce_seq_num e > ce_seq_num x") (auto simp: frontier_step_get)
    qed
  qed
qed simp

lemma heads_agree:
  assumes "\<nexists>n. forked S n" "is_head S a" "is_head S b" "same_log a b"
  shows "ce_operation a = ce_operation b"
proof -
  have "ce_seq_num a \<le> ce_seq_num b" "ce_seq_num b \<le> ce_seq_num a"
    using assms(2-4) by (simp_all add: is_head_def same_log_def)
  then have "ce_seq_num a = ce_seq_num b" by (rule order_antisym)
  moreover have "a \<in> S" "b \<in> S" using assms(2,3) by (simp_all add: is_head_def)
  ultimately show ?thesis
    using assms(1,4) unfolding forked_def same_log_def by metis
qed

lemma observed_frontier_heads:
  assumes "observed_frontier es = Inr f"
  shows "set f = ce_operation ` {e. is_head (set es) e}" "\<nexists>n. forked (set es) n"
proof -
  show ok: "\<nexists>n. forked (set es) n"
    using assms validate_sequences_spec [of es] by (auto simp: observed_frontier_def split: sum.splits)
  let ?m = "fold frontier_step es []"
  have "h \<in> set f \<longleftrightarrow> (\<exists>a l s. bt_get ?m (a, l) = Some (s, h))" for h
  proof -
    have "f = map snd (bt_values ?m)"
      using assms by (simp add: observed_frontier_def split: sum.splits)
    then have "h \<in> set f \<longleftrightarrow> (\<exists>s. (s, h) \<in> set (bt_values ?m))" by force
    moreover have "bt_inv ?m" using frontier_inv [of "[]" es] by simp
    ultimately show ?thesis by (auto simp: bt_values_nth)
  qed
  moreover have "(\<exists>a l s. bt_get ?m (a, l) = Some (s, h)) \<longleftrightarrow> h \<in> ce_operation ` {e. is_head (set es) e}" for h
  proof
    assume "\<exists>a l s. bt_get ?m (a, l) = Some (s, h)"
    then obtain a l s where "bt_get ?m (a, l) = Some (s, h)" by blast
    with frontier_get [of es a l] show "h \<in> ce_operation ` {e. is_head (set es) e}" by auto
  next
    assume "h \<in> ce_operation ` {e. is_head (set es) e}"
    then obtain e where e: "is_head (set es) e" "h = ce_operation e" by auto
    then obtain s k where k: "bt_get ?m (ce_author e, ce_log_id e) = Some (s, k)"
      using frontier_get [of es "ce_author e" "ce_log_id e"] by (auto simp: is_head_def split: option.splits)
    with frontier_get [of es "ce_author e" "ce_log_id e"] obtain x where
      "is_head (set es) x" "same_log x e" "ce_operation x = k" by (auto simp: same_log_def)
    then have "k = h" using heads_agree [OF ok _ e(1)] e(2) by auto
    with k show "\<exists>a l s. bt_get ?m (a, l) = Some (s, h)" by blast
  qed
  ultimately show "set f = ce_operation ` {e. is_head (set es) e}" by blast
qed

lemma fold_later_entry:
  "case fold later_entry es None of
     None \<Rightarrow> es = []
   | Some e \<Rightarrow> e \<in> set es \<and> (\<forall>x \<in> set es. ce_seq_num x \<le> ce_seq_num e)"
  by (induction es rule: rev_induct) (auto simp: later_entry_def split: option.splits)

lemma author_head_spec:
  assumes "author_head es a l = Inr (n, b)"
  shows "case b of
      None \<Rightarrow> n = 0 \<and> (\<forall>x \<in> set es. \<not> (ce_author x = a \<and> ce_log_id x = l))
    | Some h \<Rightarrow> \<exists>e. is_head (set es) e \<and> ce_author e = a \<and> ce_log_id e = l \<and> ce_operation e = h
        \<and> n = ce_seq_num e + 1 \<and> ce_seq_num e \<noteq> - 1"
  using assms fold_later_entry [of "filter (\<lambda>e. ce_author e = a \<and> ce_log_id e = l) es"]
  by (auto simp: author_head_def is_head_def same_log_def filter_empty_conv split: sum.splits option.splits if_splits)

section \<open>Unbroken logs\<close>

definition chained :: "'l causal_entry set \<Rightarrow> bool" where
  "chained S \<longleftrightarrow>
     (\<forall>e \<in> S. ce_seq_num e \<noteq> 0 \<longrightarrow>
        (\<exists>p \<in> S. same_log p e \<and> ce_seq_num p = ce_seq_num e - 1 \<and> ce_backlink e = Some (ce_operation p)))"

lemma backlink_dependency: "ce_backlink e = Some b \<Longrightarrow> b \<in> set (dependencies e)"
  by (simp add: dependencies_def)

lemma chain_down:
  assumes "chained S" "\<nexists>n. forked S n" "\<forall>d \<in> S. ce_operation d \<in> X \<longrightarrow> set (dependencies d) \<subseteq> X"
    and "y \<in> S" "x \<in> S" "same_log x y" "ce_seq_num x \<le> ce_seq_num y" "ce_operation y \<in> X"
  shows "ce_operation x \<in> X"
  using assms(4-8)
proof (induction "unat (ce_seq_num y)" arbitrary: y rule: less_induct)
  case less
  show ?case
  proof (cases "ce_seq_num x = ce_seq_num y")
    case True
    with assms(2) less.prems have "ce_operation x = ce_operation y"
      unfolding forked_def same_log_def by metis
    with less.prems show ?thesis by simp
  next
    case False
    with less.prems(4) have lt: "ce_seq_num x < ce_seq_num y" by simp
    then have nz: "ce_seq_num y \<noteq> 0" by auto
    with assms(1) less.prems(1) obtain p where p: "p \<in> S" "same_log p y" "ce_seq_num p = ce_seq_num y - 1"
      "ce_backlink y = Some (ce_operation p)"
      unfolding chained_def by blast
    have "ce_operation p \<in> X"
      using assms(3) less.prems(1,5) backlink_dependency [OF p(4)] by blast
    moreover have "ce_seq_num x \<le> ce_seq_num p" "unat (ce_seq_num p) < unat (ce_seq_num y)"
      using lt nz p(3) by (simp_all add: unat_minus_one word_le_nat_alt word_less_nat_alt)
    moreover have "same_log x p" using less.prems(3) p(2) by (simp add: same_log_def)
    ultimately show ?thesis using less.hyps [of p] p(1) less.prems(2) by blast
  qed
qed

lemma log_has_head:
  assumes "finite S" "x \<in> S"
  shows "\<exists>e. is_head S e \<and> same_log x e \<and> ce_seq_num x \<le> ce_seq_num e"
proof -
  let ?L = "{y \<in> S. same_log y x}"
  have fin: "finite (ce_seq_num ` ?L)" and ne: "ce_seq_num ` ?L \<noteq> {}"
    using assms by (auto simp: same_log_def)
  from Max_in [OF fin ne] obtain e where e: "Max (ce_seq_num ` ?L) = ce_seq_num e" "e \<in> ?L"
    by (rule imageE)
  have max: "ce_seq_num y \<le> ce_seq_num e" if "y \<in> S" "same_log y x" for y
    unfolding e(1) [symmetric] by (rule Max_ge [OF fin]) (use that in simp)
  moreover have "same_log x e" using e(2) by (simp add: same_log_def)
  ultimately show ?thesis
    using assms(2) e(2) by (intro exI [of _ e]) (simp add: is_head_def same_log_def)
qed

text \<open>Whoever has the heads of unbroken logs and their dependencies has everything.\<close>

lemma heads_reach_all:
  assumes "finite S" "chained S" "\<nexists>n. forked S n"
    and "\<forall>d \<in> S. ce_operation d \<in> X \<longrightarrow> set (dependencies d) \<subseteq> X"
    and "ce_operation ` {e. is_head S e} \<subseteq> X"
  shows "ce_operation ` S \<subseteq> X"
proof
  fix h assume "h \<in> ce_operation ` S"
  then obtain x where x: "x \<in> S" "h = ce_operation x" by blast
  from log_has_head [OF assms(1) x(1)] obtain e where e: "is_head S e" "same_log x e" "ce_seq_num x \<le> ce_seq_num e"
    by blast
  with assms(5) have "ce_operation e \<in> X" "e \<in> S" by (auto simp: is_head_def)
  then show "h \<in> X" using chain_down [OF assms(2-4) _ x(1) e(2,3)] x(2) by simp
qed

section \<open>Appending a record\<close>

lemma whole_all:
  assumes "\<And>e. e \<in> S \<Longrightarrow> set (dependencies e) \<subseteq> ce_operation ` S"
  shows "missing_roots S h = {}"
proof -
  have "r \<in> ce_operation ` S" if "(r, h) \<in> (caused S)\<^sup>+" for r
    using that assms by (induction rule: converse_trancl_induct) (auto simp: caused_def)
  then show ?thesis by (auto simp: missing_roots_def)
qed

lemma run_append:
  assumes "finite S" "chained S" "\<nexists>n. forked S n" "\<forall>x \<in> S. whole S x" "\<forall>x \<in> insert e S. whole (insert e S) x"
    and "\<nexists>h. missing_roots S h = {} \<and> (h, h) \<in> (caused S)\<^sup>+"
    and "ce_operation e \<notin> ce_operation ` S" "set (dependencies e) = ce_operation ` {x. is_head S x}"
    and "causal_run S X xs" "X \<subseteq> ce_operation ` S"
    and "\<forall>d \<in> S. ce_operation d \<in> X \<longrightarrow> set (dependencies d) \<subseteq> X" "one_op_each S"
  shows "causal_run (insert e S) X (xs @ [e])"
  using assms(9-11)
proof (induction rule: causal_run.induct)
  case (run_done X)
  have "ce_operation ` S \<subseteq> X"
    using stuck_on_cycle [OF assms(1) run_done(1)] assms(4,6) by blast
  with run_done assms(7) have X: "X = ce_operation ` S" "ce_operation e \<notin> X" by auto
  then have "ready_entries (insert e S) X = {e}"
    using assms(5,8) by (auto simp: ready_entries_def is_head_def)
  moreover have "ready_entries (insert e S) (insert (ce_operation e) X) = {}"
    using X by (auto simp: ready_entries_def)
  ultimately show ?case by (auto intro!: causal_run.intros)
next
  case (run_next d X xs)
  have d: "d \<in> S" "ce_operation d \<notin> X" "set (dependencies d) \<subseteq> X"
    using run_next.hyps(1) by (auto simp: ready_entries_def)
  have "e \<notin> ready_entries (insert e S) X"
  proof
    assume "e \<in> ready_entries (insert e S) X"
    then have "ce_operation ` {x. is_head S x} \<subseteq> X" using assms(8) by (simp add: ready_entries_def)
    with heads_reach_all [OF assms(1-3) run_next.prems(2)] d(1,2) show False by blast
  qed
  then have same: "ready_entries (insert e S) X = ready_entries S X"
    using assms(4,5) by (auto simp: ready_entries_def)
  have "insert (ce_operation d) X \<subseteq> ce_operation ` S" using d(1) run_next.prems(1) by blast
  moreover have "\<forall>x \<in> S. ce_operation x \<in> insert (ce_operation d) X \<longrightarrow> set (dependencies x) \<subseteq> insert (ce_operation d) X"
  proof (intro ballI impI)
    fix x assume "x \<in> S" "ce_operation x \<in> insert (ce_operation d) X"
    then show "set (dependencies x) \<subseteq> insert (ce_operation d) X"
      using d(1,3) run_next.prems(2) inj_onD [OF assms(12) [unfolded one_op_each_def], of x d] by blast
  qed
  ultimately show ?case
    using run_next.IH run_next.hyps(1,2) same by (auto intro!: causal_run.run_next)
qed

lemma next_position_free:
  assumes "author_head es a l = Inr (n, b)" "x \<in> set es" "ce_author x = a" "ce_log_id x = l"
  shows "ce_seq_num x \<noteq> n"
proof -
  obtain e where e: "is_head (set es) e" "ce_author e = a" "ce_log_id e = l" "n = ce_seq_num e + 1" "ce_seq_num e \<noteq> - 1"
    using author_head_spec [OF assms(1)] assms(2-4) by (cases b) auto
  then have "ce_seq_num x \<le> ce_seq_num e"
    using assms(2-4) by (simp add: is_head_def same_log_def)
  moreover have "1 + ce_seq_num e \<noteq> 0"
    using e(5) by (simp add: add_eq_0_iff)
  then have "ce_seq_num e < n"
    using unatSuc [of "ce_seq_num e"] e(4) by (simp add: word_less_nat_alt add.commute)
  ultimately show ?thesis by auto
qed

lemma authored_dependencies:
  assumes "author_head es a l = Inr (n, b)" "observed_frontier es = Inr f"
    and "e = \<lparr>ce_operation = h, ce_author = a, ce_log_id = l, ce_seq_num = n, ce_backlink = b, ce_parents = f\<rparr>"
  shows "set (dependencies e) = ce_operation ` {x. is_head (set es) x}"
  using author_head_spec [OF assms(1)] observed_frontier_heads(1) [OF assms(2)] assms(3)
  by (auto simp: dependencies_def split: option.splits)

lemma authored_no_fork:
  assumes "author_head es a l = Inr (n, b)" "\<nexists>m. forked (set es) m"
    and "e = \<lparr>ce_operation = h, ce_author = a, ce_log_id = l, ce_seq_num = n, ce_backlink = b, ce_parents = f\<rparr>"
  shows "\<nexists>m. forked (insert e (set es)) m"
proof
  assume "\<exists>m. forked (insert e (set es)) m"
  then obtain m x y where xy: "x \<in> insert e (set es)" "y \<in> insert e (set es)" "ce_author x = ce_author y"
    "ce_log_id x = ce_log_id y" "ce_seq_num x = m" "ce_seq_num y = m" "ce_operation x \<noteq> ce_operation y"
    unfolding forked_def by blast
  have "\<not> (x \<in> set es \<and> y \<in> set es)" using xy assms(2) unfolding forked_def by blast
  with xy(1,2,7) have "x \<in> set es \<and> y = e \<or> x = e \<and> y \<in> set es" by auto
  then show False
  proof (elim disjE conjE)
    assume "x \<in> set es" "y = e"
    then show False using next_position_free [OF assms(1), of x] xy(3-6) assms(3) by simp
  next
    assume "x = e" "y \<in> set es"
    then show False using next_position_free [OF assms(1), of y] xy(3-6) assms(3) by simp
  qed
qed

lemma projection_from_run:
  fixes es :: "'l::linorder causal_entry list"
  assumes "\<nexists>n. forked (set es) n" "distinct (map ce_operation es)" "\<forall>x \<in> set es. whole (set es) x"
    and "causal_run (set es) {} (map ((!) es) order)" "\<forall>i \<in> set order. i < length es" "length order = length es"
  shows "causal_projection es = Some (Inr \<lparr>cp_order = order, cp_pending = []\<rparr>)"
proof -
  have one: "one_op_each (set es)" and dist: "distinct es" using assms(2) by (auto simp: one_op_each_def distinct_map)
  obtain order' q where o: "causal_run (set es) {} (map ((!) es) order')" "\<forall>i \<in> set order'. i < length es"
    "pending_entries (set es) q"
    "causal_projection es = Some (if length order' \<noteq> card {e \<in> set es. whole (set es) e} then Inl Cycle
       else Inr \<lparr>cp_order = order', cp_pending = map (root_report (set es)) q\<rparr>)"
    using projection_outcome [OF assms(1,2)] by blast
  have "order' = order"
  proof (rule map_inj_on [of "(!) es"])
    show "map ((!) es) order' = map ((!) es) order" by (rule causal_run_unique [OF o(1) assms(4) one])
    show "inj_on ((!) es) (set order' \<union> set order)"
      using o(2) assms(5) dist by (auto simp: inj_on_def nth_eq_iff_index_eq)
  qed
  moreover have "{e \<in> set es. whole (set es) e} = set es" using assms(3) by blast
  moreover have "q = []"
  proof (rule ccontr)
    assume "q \<noteq> []"
    then have "hd q \<in> {e \<in> set es. \<not> whole (set es) e}" using o(3) by (metis hd_in_set pending_entries_def)
    with assms(3) show False by blast
  qed
  ultimately show ?thesis using o(4) assms(6) dist by (simp add: distinct_card)
qed

text \<open>
  C14. A record authored on a replica whose history is complete is the latest: with the next
  position and backlink of its author's log and the observed frontier as parents, the projection
  of the extended history succeeds, keeps the order of everything before, puts the new record
  last, and leaves nothing pending.
\<close>

theorem authored_record_is_last:
  fixes es :: "'l::linorder causal_entry list"
  assumes "causal_projection es = Some (Inr p)" "cp_pending p = []" "chained (set es)"
    and "author_head es (so_verifying_key oper) l = Inr (so_seq_num oper, so_backlink oper)"
    and "observed_frontier es = Inr f" "so_hash oper \<notin> ce_operation ` set es"
  shows "causal_projection (es @ [entry_of_operation oper l f]) =
    Some (Inr \<lparr>cp_order = cp_order p @ [length es], cp_pending = []\<rparr>)"
proof -
  let ?e = "entry_of_operation oper l f" and ?S = "set es"
  note ok = projection_success [OF assms(1)]
  have forks: "\<nexists>n. forked ?S n" and ops: "distinct (map ce_operation es)" using ok(1) by simp_all
  have one: "one_op_each ?S" using ops by (simp add: one_op_each_def distinct_map)
  have all: "\<forall>x \<in> ?S. whole ?S x"
  proof -
    from ok(5) assms(2) have "pending_entries ?S []" by auto
    then show ?thesis by (auto simp: pending_entries_def)
  qed
  have deps: "set (dependencies ?e) = ce_operation ` {x. is_head ?S x}"
    by (rule authored_dependencies [OF assms(4,5)]) (simp add: entry_of_operation_def)
  have inside: "set (dependencies x) \<subseteq> ce_operation ` insert ?e ?S" if x: "x \<in> insert ?e ?S" for x
  proof (cases "x = ?e")
    case True
    then show ?thesis using deps by (auto simp: is_head_def)
  next
    case False
    then show ?thesis using x all whole_parents [of x ?S] by blast
  qed
  have all': "\<forall>x \<in> insert ?e ?S. whole (insert ?e ?S) x"
    using whole_all [OF inside] by (simp only: whole_def) blast
  have new: "ce_operation ?e \<notin> ce_operation ` ?S" using assms(6) by (simp add: entry_of_operation_def)
  have run: "causal_run (insert ?e ?S) {} (map ((!) es) (cp_order p) @ [?e])"
    by (rule run_append [OF finite_set assms(3) forks all all' _ new deps ok(2) _ _ one]) (use ok(1) in auto)
  have ops': "distinct (map ce_operation (es @ [?e]))" using ops new by simp
  have forks': "\<nexists>n. forked (set (es @ [?e])) n"
    using authored_no_fork [OF assms(4) forks, of ?e] by (simp add: entry_of_operation_def)
  have order: "set (cp_order p) = {i. i < length es \<and> missing_roots ?S (ce_operation (es ! i)) = {}}"
    by (rule order_of_whole [OF ops ok(3,4)])
  have "map ((!) (es @ [?e])) (cp_order p @ [length es]) = map ((!) es) (cp_order p) @ [?e]"
    using ok(3) by (simp add: nth_append)
  with run have run': "causal_run (set (es @ [?e])) {} (map ((!) (es @ [?e])) (cp_order p @ [length es]))"
    by (simp only: set_append set_simps Un_insert_right Un_empty_right)
  have "length (cp_order p) = length es"
  proof -
    have "set (cp_order p) = {..<length es}" using order all by (auto simp: whole_def)
    moreover have "distinct (cp_order p)" using causal_run_spec [OF ok(2)] by (simp add: distinct_map)
    ultimately show ?thesis by (metis card_lessThan distinct_card)
  qed
  then show ?thesis
    using all' ok(3) by (intro projection_from_run [OF forks' ops' _ run']) auto
qed

definition demo_authored :: signed_operation where
  "demo_authored = \<lparr>so_hash = 9, so_verifying_key = 10, so_seq_num = 2, so_backlink = Some 7, so_payload_size = 4\<rparr>"

theorem authored_record_is_last_witness:
  "causal_projection ([demo_entries ! 0, demo_entries ! 2, demo_entries ! 3] @ [entry_of_operation demo_authored 0 [7, 6]])
   = Some (Inr \<lparr>cp_order = [2, 1, 0, 3], cp_pending = []\<rparr>)"
proof -
  let ?es = "[demo_entries ! 0, demo_entries ! 2, demo_entries ! 3]"
  have "causal_projection ?es = Some (Inr \<lparr>cp_order = [2, 1, 0], cp_pending = []\<rparr>)"
    by (simp add: projection_eval demo_entries_def)
  moreover have "chained (set ?es)"
    by (simp add: chained_def same_log_def demo_entries_def)
  moreover have "author_head ?es (so_verifying_key demo_authored) 0 = Inr (so_seq_num demo_authored, so_backlink demo_authored)"
    by (simp add: author_head_def validate_sequences_def bt_get_def later_entry_def demo_entries_def demo_authored_def)
  moreover have "observed_frontier ?es = Inr [7, 6]"
    by (simp add: observed_frontier_def validate_sequences_def frontier_step_def bt_get_def bt_values_def demo_entries_def)
  moreover have "so_hash demo_authored \<notin> ce_operation ` set ?es"
    by (simp add: demo_authored_def demo_entries_def)
  ultimately show ?thesis
    using authored_record_is_last [of ?es _ demo_authored 0 "[7, 6]"] by simp
qed

end
