(* ===== verification/Stickleback_Continuity.thy ===== *)
theory Stickleback_Continuity
  imports Stickleback_Processor Stickleback_Authoring
begin

text \<open>
  What the operation store keeps true of its keys and what the processor keeps true of the logs:
  every log key holds the entry its name announces and is found again through its pointer, and
  every retained entry is linked to the one before it. Proved for any backend that keeps the
  contract of the storage interface.
\<close>

section \<open>Keys of a log\<close>

lemma log_prefix_log: "log_prefix E a l = Inr p \<Longrightarrow> prefix ''log/'' p"
  by (auto simp: log_prefix_def and_then_eq_Inr)

lemma hex_no_slash32: "codec_ok E \<Longrightarrow> CHR ''/'' \<notin> set (cd_hex32 E k)"
  using hex_no_slash by (auto simp: codec_ok_def)

lemma seq_hex_no_slash: "CHR ''/'' \<notin> set (seq_hex n)"
  using hex_no_slash [OF hex_pad_hex [of 16 "unat n"]] by (simp add: seq_hex_def)

lemma log_prefix_split:
  assumes "codec_ok E" "log_prefix E a l = Inr p"
  obtains seg where "log_seg E l = Inr seg" "p = ''log/'' @ cd_hex32 E a @ ''/'' @ seg @ ''/''"
    "\<And>r. split_on (CHR ''/'') (p @ r) = ''log'' # cd_hex32 E a # seg # split_on (CHR ''/'') r"
proof -
  obtain seg where seg: "log_seg E l = Inr seg" "p = ''log/'' @ cd_hex32 E a @ ''/'' @ seg @ ''/''"
    using assms(2) by (auto simp: log_prefix_def and_then_eq_Inr)
  have "CHR ''/'' \<notin> set seg" using hex_no_slash [OF log_seg_hex [OF assms(1) seg(1)]] .
  moreover have "p @ r = ''log'' @ CHR ''/'' # (cd_hex32 E a @ CHR ''/'' # (seg @ CHR ''/'' # r))" for r
    using seg(2) by simp
  ultimately have "split_on (CHR ''/'') (p @ r) = ''log'' # cd_hex32 E a # seg # split_on (CHR ''/'') r" for r
    using hex_no_slash32 [OF assms(1)] split_on_append [of "CHR ''/''" "''log''"]
    by (simp only: split_on_append) (simp add: split_on_append)
  with seg that show thesis by blast
qed

lemma log_key_owner:
  assumes "codec_ok E" "log_prefix E a l = Inr p" "log_prefix E a' l' = Inr p'" "prefix p (p' @ seq_hex n)"
  shows "a = a' \<and> l = l' \<and> p = p'"
proof -
  obtain r where r: "p' @ seq_hex n = p @ r" using assms(4) by (auto simp: prefix_def)
  obtain seg where seg: "log_seg E l = Inr seg" "p = ''log/'' @ cd_hex32 E a @ ''/'' @ seg @ ''/''"
    "\<And>r. split_on (CHR ''/'') (p @ r) = ''log'' # cd_hex32 E a # seg # split_on (CHR ''/'') r"
    using log_prefix_split [OF assms(1,2)] by metis
  obtain seg' where seg': "log_seg E l' = Inr seg'" "p' = ''log/'' @ cd_hex32 E a' @ ''/'' @ seg' @ ''/''"
    "\<And>r. split_on (CHR ''/'') (p' @ r) = ''log'' # cd_hex32 E a' # seg' # split_on (CHR ''/'') r"
    using log_prefix_split [OF assms(1,3)] by metis
  have "cd_hex32 E a = cd_hex32 E a'" "seg = seg'"
    using seg(3) [of r] seg'(3) [of "seq_hex n"] r by auto
  then have "p = p'" using seg(2) seg'(2) by simp
  with log_prefix_inj [OF assms(1,2)] assms(3) show ?thesis by simp
qed

lemma log_key_eq:
  assumes "codec_ok E" "log_prefix E a l = Inr p" "log_prefix E a' l' = Inr p'"
  shows "p @ seq_hex n = p' @ seq_hex m \<longleftrightarrow> a = a' \<and> l = l' \<and> n = m"
proof
  assume eq: "p @ seq_hex n = p' @ seq_hex m"
  then have "prefix p (p' @ seq_hex m)" by (metis prefixI)
  with log_key_owner [OF assms(1,2,3)] eq show "a = a' \<and> l = l' \<and> n = m" by (auto simp: seq_hex_inj)
qed (use assms in auto)

lemma log_key_ascii:
  assumes "codec_ok E" "log_prefix E a l = Inr p"
  shows "from_utf8 E' (str_bytes (p @ seq_hex n)) = Inr (p @ seq_hex n)"
proof (rule from_utf8_ascii)
  obtain seg where seg: "log_seg E l = Inr seg" "p = ''log/'' @ cd_hex32 E a @ ''/'' @ seg @ ''/''"
    using assms(2) by (auto simp: log_prefix_def and_then_eq_Inr)
  moreover have "list_all hex_char (cd_hex32 E a)" "list_all hex_char seg" "list_all hex_char (seq_hex n)"
    using assms(1) log_seg_hex [OF assms(1) seg(1)] hex_pad_hex by (auto simp: codec_ok_def seq_hex_def)
  moreover have "list_all hex_char s \<Longrightarrow> list_all (\<lambda>c. of_char c < (128 :: nat)) s" for s
    using hex_ascii by (auto simp: list_all_iff)
  ultimately show "list_all (\<lambda>c. of_char c < (128 :: nat)) (p @ seq_hex n)" by simp
qed

lemma between_prefix:
  fixes p k :: "'a::linorder list"
  shows "p \<le> k \<Longrightarrow> k < p @ [c] \<Longrightarrow> prefix p k"
proof (induction p arbitrary: k)
  case (Cons x p)
  then obtain y ys where "k = y # ys" by (cases k) auto
  with Cons show ?case by auto
qed simp

lemma append_less_append: "(xs :: 'a::linorder list) @ ys < xs @ zs \<longleftrightarrow> ys < zs"
  by (induction xs) auto

lemma seq_hex_below_g: "seq_hex n < ''g''"
proof -
  have "seq_hex n \<noteq> []" "hex_char (hd (seq_hex n))"
    using seq_hex_head [of n] hex_pad_hex [of 16 "unat n"] by (cases "seq_hex n"; simp add: seq_hex_def)+
  moreover have "\<forall>c \<in> set ''0123456789abcdef''. c < CHR ''g''" by code_simp
  ultimately show ?thesis by (cases "seq_hex n") (auto simp: hex_char_def)
qed

section \<open>What the keys say\<close>

definition log_entry ::
  "('l, 'x) store_codec \<Rightarrow> (string \<rightharpoonup> bytes) \<Rightarrow> key32 \<Rightarrow> 'l \<Rightarrow> u32 \<Rightarrow> ('x op_header \<times> bytes option) option" where
  "log_entry E v a l n =
     (case log_prefix E a l of
        Inl _ \<Rightarrow> None
      | Inr p \<Rightarrow>
          (case v (p @ seq_hex n) of
             None \<Rightarrow> None
           | Some b \<Rightarrow> (case decode_blob E b of Inl _ \<Rightarrow> None | Inr e \<Rightarrow> Some e)))"

definition log_key :: "('l, 'x) store_codec \<Rightarrow> string \<Rightarrow> bool" where
  "log_key E k \<longleftrightarrow> (\<exists>a l n p. log_prefix E a l = Inr p \<and> k = p @ seq_hex n)"

text \<open>
  Every log key holds the entry its name announces, with a pointer to it; every pointer leads to
  the operation it names; payload references name log keys.
\<close>

definition names_entry :: "('l, 'x) store_codec \<Rightarrow> (string \<rightharpoonup> bytes) \<Rightarrow> string \<Rightarrow> bytes \<Rightarrow> bool" where
  "names_entry E v k b \<longleftrightarrow>
     (\<exists>a l p h body. log_prefix E a l = Inr p \<and> k = p @ seq_hex (oh_seq_num h)
        \<and> decode_blob E b = Inr (h, body) \<and> oh_verifying_key h = a
        \<and> v (op_ptr E (cd_header_hash E h)) = Some (str_bytes k))"

definition leads_to :: "('l, 'x) store_codec \<Rightarrow> (string \<rightharpoonup> bytes) \<Rightarrow> key32 \<Rightarrow> bytes \<Rightarrow> bool" where
  "leads_to E v i b \<longleftrightarrow>
     (\<exists>k c h body. b = str_bytes k \<and> prefix ''log/'' k \<and> v k = Some c \<and> decode_blob E c = Inr (h, body)
        \<and> cd_header_hash E h = i)"

definition store_ok :: "('l, 'x) store_codec \<Rightarrow> (string \<rightharpoonup> bytes) \<Rightarrow> bool" where
  "store_ok E v \<longleftrightarrow>
     (\<forall>k b. prefix ''log/'' k \<longrightarrow> v k = Some b \<longrightarrow> names_entry E v k b)
     \<and> (\<forall>i b. v (op_ptr E i) = Some b \<longrightarrow> leads_to E v i b)
     \<and> (\<forall>k b. prefix ''payload-ref/'' k \<longrightarrow> v k = Some b \<longrightarrow> (\<exists>key. log_key E key \<and> b = str_bytes key))"

text \<open>A retained entry is the first of its log or follows the one it links back to.\<close>

definition log_header :: "('l, 'x) store_codec \<Rightarrow> (string \<rightharpoonup> bytes) \<Rightarrow> key32 \<Rightarrow> 'l \<Rightarrow> u32 \<Rightarrow> 'x op_header option" where
  "log_header E v a l n = map_option fst (log_entry E v a l n)"

definition linked :: "('l, 'x) store_codec \<Rightarrow> (string \<rightharpoonup> bytes) \<Rightarrow> bool" where
  "linked E v \<longleftrightarrow>
     (\<forall>a l n h. log_header E v a l n = Some h \<longrightarrow>
        (\<forall>m < n. log_header E v a l m = None)
        \<or> (\<exists>h'. log_header E v a l (n - 1) = Some h' \<and> oh_backlink h = Some (cd_header_hash E h')))"

lemma store_ok_names: "store_ok E v \<Longrightarrow> prefix ''log/'' k \<Longrightarrow> v k = Some b \<Longrightarrow> names_entry E v k b"
  by (simp add: store_ok_def)

lemma store_ok_leads: "store_ok E v \<Longrightarrow> v (op_ptr E i) = Some b \<Longrightarrow> leads_to E v i b"
  by (simp add: store_ok_def)

lemma store_ok_refs:
  "store_ok E v \<Longrightarrow> prefix ''payload-ref/'' k \<Longrightarrow> v k = Some b \<Longrightarrow> \<exists>key. log_key E key \<and> b = str_bytes key"
  by (simp add: store_ok_def)

lemma log_key_prefix: "log_key E k \<Longrightarrow> prefix ''log/'' k"
  using log_prefix_log by (fastforce simp: log_key_def)

lemma log_entry_at:
  assumes "store_ok E v" "log_prefix E a l = Inr p"
  shows "log_entry E v a l n \<noteq> None \<longleftrightarrow> v (p @ seq_hex n) \<noteq> None"
proof (cases "v (p @ seq_hex n)")
  case (Some b)
  moreover have "prefix ''log/'' (p @ seq_hex n)" using log_prefix_log [OF assms(2)] by simp
  ultimately have "names_entry E v (p @ seq_hex n) b" using assms(1) unfolding store_ok_def by blast
  then obtain e where "decode_blob E b = Inr e" unfolding names_entry_def by blast
  with Some assms(2) show ?thesis by (simp add: log_entry_def)
qed (simp add: log_entry_def assms(2))

lemma log_entry_names:
  assumes "codec_ok E" "store_ok E v" "log_entry E v a l n = Some (h, body)"
  shows "oh_verifying_key h = a \<and> oh_seq_num h = n \<and>
    (\<exists>p. log_prefix E a l = Inr p \<and> v (op_ptr E (cd_header_hash E h)) = Some (str_bytes (p @ seq_hex n)))"
proof -
  obtain p b where p: "log_prefix E a l = Inr p" "v (p @ seq_hex n) = Some b" "decode_blob E b = Inr (h, body)"
    using assms(3) by (auto simp: log_entry_def split: sum.splits option.splits)
  have "names_entry E v (p @ seq_hex n) b"
    using assms(2) p(2) log_prefix_log [OF p(1)] unfolding store_ok_def by (metis prefix_prefix)
  then obtain a' l' p' where n: "log_prefix E a' l' = Inr p'" "p @ seq_hex n = p' @ seq_hex (oh_seq_num h)"
    "oh_verifying_key h = a'" "v (op_ptr E (cd_header_hash E h)) = Some (str_bytes (p @ seq_hex n))"
    using p(3) by (auto simp: names_entry_def)
  with log_key_eq [OF assms(1) p(1) n(1)] p(1) show ?thesis by auto
qed

lemma log_scan:
  assumes "codec_ok E" "store_ok E v" "log_prefix E a l = Inr p"
  shows "{k \<in> dom v. p \<le> k \<and> k < scan_end p} = (\<lambda>n. p @ seq_hex n) ` {n. log_entry E v a l n \<noteq> None}"
proof (intro set_eqI iffI)
  fix k assume k: "k \<in> {k \<in> dom v. p \<le> k \<and> k < scan_end p}"
  then obtain b where b: "v k = Some b" by blast
  have pk: "prefix p k" using k between_prefix by (auto simp: scan_end_def)
  then have "prefix ''log/'' k" using log_prefix_log [OF assms(3)] prefix_order.trans by blast
  with assms(2) b have "names_entry E v k b" unfolding store_ok_def by blast
  then obtain a' l' p' n where n: "log_prefix E a' l' = Inr p'" "k = p' @ seq_hex n"
    unfolding names_entry_def by blast
  with log_key_owner [OF assms(1,3) n(1)] pk b log_entry_at [OF assms(2,3)]
  show "k \<in> (\<lambda>n. p @ seq_hex n) ` {n. log_entry E v a l n \<noteq> None}" by auto
next
  fix k assume "k \<in> (\<lambda>n. p @ seq_hex n) ` {n. log_entry E v a l n \<noteq> None}"
  then obtain n where n: "k = p @ seq_hex n" "log_entry E v a l n \<noteq> None" by blast
  then have "v k \<noteq> None" using log_entry_at [OF assms(2,3)] by simp
  moreover have "p < p @ seq_hex n" using append_less_append [of p "[]" "seq_hex n"] seq_hex_head [of n]
    by (cases "seq_hex n") auto
  moreover have "p @ seq_hex n < scan_end p"
    unfolding scan_end_def append_less_append by (rule seq_hex_below_g)
  ultimately show "k \<in> {k \<in> dom v. p \<le> k \<and> k < scan_end p}" using n(1) by auto
qed

section \<open>Batches\<close>

lemma fold_write_view:
  "fold write_view ws v k = v k \<or> (\<exists>w \<in> set ws. (\<exists>c. w = PutOp k c \<and> fold write_view ws v k = Some c)
     \<or> w = DeleteOp k \<and> fold write_view ws v k = None)"
proof (induction ws arbitrary: v)
  case (Cons w ws)
  show ?case
  proof (cases "fold write_view ws (write_view w v) k = write_view w v k")
    case True
    then show ?thesis by (cases w) auto
  next
    case False
    with Cons [of "write_view w v"] show ?thesis by auto
  qed
qed simp

lemma fold_write_untouched:
  "\<forall>w \<in> set ws. (\<forall>c. w \<noteq> PutOp k c) \<and> w \<noteq> DeleteOp k \<Longrightarrow> fold write_view ws v k = v k"
  using fold_write_view [of ws v k] by auto

lemma fold_deletes:
  "\<forall>w \<in> set ws. \<exists>k. w = DeleteOp k \<Longrightarrow> fold write_view ws v k = (if DeleteOp k \<in> set ws then None else v k)"
proof (induction ws arbitrary: v)
  case (Cons w ws)
  then obtain k' where "w = DeleteOp k'" by auto
  with Cons show ?case by auto
qed simp

lemma pointer_entry:
  assumes "store_ok E v" "v (op_ptr E i) = Some b"
  obtains a l n p h body where "log_prefix E a l = Inr p" "b = str_bytes (p @ seq_hex n)"
    "log_entry E v a l n = Some (h, body)" "cd_header_hash E h = i"
proof -
  obtain k c h body where k: "b = str_bytes k" "prefix ''log/'' k" "v k = Some c"
    "decode_blob E c = Inr (h, body)" "cd_header_hash E h = i"
    using store_ok_leads [OF assms] unfolding leads_to_def by blast
  obtain a l p m where "log_prefix E a l = Inr p" "k = p @ seq_hex m"
    using store_ok_names [OF assms(1) k(2,3)] unfolding names_entry_def by blast
  with k that [of a l p m h body] show thesis by (simp add: log_entry_def)
qed

definition replica_of :: "('l, 'x) store_codec \<Rightarrow> 'x op_header \<times> bytes option \<Rightarrow> 'x replica_op" where
  "replica_of E e = \<lparr>ro_hash = cd_header_hash E (fst e), ro_header = fst e, ro_body = snd e\<rparr>"

lemma log_entry_blob:
  assumes "log_prefix E a l = Inr p" "log_entry E v a l n = Some e"
  obtains b where "v (p @ seq_hex n) = Some b" "decode_blob E b = Inr e" "decode_op E b = Inr (replica_of E e)"
  using assms by (cases e) (auto simp: log_entry_def decode_op_def replica_of_def split: option.splits sum.splits)

definition pruned_writes :: "('l, 'x) store_codec \<Rightarrow> (string \<rightharpoonup> bytes) \<Rightarrow> key32 \<Rightarrow> 'l \<Rightarrow> string \<Rightarrow> u32 \<Rightarrow> write_op list" where
  "pruned_writes E v a l p n =
     (let h = fst (the (log_entry E v a l n)); i = cd_header_hash E h
      in DeleteOp (op_ptr E i) # header_ref_delete E h i @ [DeleteOp (p @ seq_hex n)])"

text \<open>What an erasure writes: references go, a body goes and its header stays.\<close>

definition erasure :: "('l, 'x) store_codec \<Rightarrow> (string \<rightharpoonup> bytes) \<Rightarrow> key32 set \<Rightarrow> write_op \<Rightarrow> bool" where
  "erasure E v ids w \<longleftrightarrow>
     (\<exists>k. w = DeleteOp k \<and> prefix ''payload-ref/'' k)
     \<or> (\<exists>a l n p h body c. log_prefix E a l = Inr p \<and> w = PutOp (p @ seq_hex n) c
          \<and> log_entry E v a l n = Some (h, body) \<and> cd_header_hash E h \<in> ids \<and> decode_blob E c = Inr (h, None))"

lemma header_ref_delete_erasure: "w \<in> set (header_ref_delete E h i) \<Longrightarrow> erasure E v ids w"
  by (auto simp: header_ref_delete_def erasure_def payload_ref_key_def payload_ref_prefix_def split: option.splits)

section \<open>Reading and planning over any backend\<close>

context backend_laws
begin

lemma log_key_for_entry:
  assumes "codec_ok E" "store_ok E (view s)"
  shows "log_key_for B E i s = Inr None \<and> view s (op_ptr E i) = None
    \<or> (\<exists>a l n p h body. log_key_for B E i s = Inr (Some (p @ seq_hex n)) \<and> log_prefix E a l = Inr p
        \<and> log_entry E (view s) a l n = Some (h, body) \<and> cd_header_hash E h = i)"
proof (cases "view s (op_ptr E i)")
  case (Some b)
  from pointer_entry [OF assms(2) Some] obtain a l n p h body where
    e: "log_prefix E a l = Inr p" "b = str_bytes (p @ seq_hex n)" "log_entry E (view s) a l n = Some (h, body)"
      "cd_header_hash E h = i" .
  have "log_key_for B E i s = Inr (Some (p @ seq_hex n))"
    using Some e(2) by (simp add: log_key_for_def get_view log_key_ascii [OF assms(1) e(1)])
  with e show ?thesis by blast
qed (simp add: log_key_for_def get_view)

lemma scan_log:
  assumes "codec_ok E" "store_ok E (view s)" "inv s" "log_prefix E a l = Inr p"
  shows "\<exists>ns. be_scan B p (scan_end p) s = Inr (map (\<lambda>n. p @ seq_hex n) ns) \<and> sorted_wrt (<) ns
    \<and> set ns = {n. log_entry E (view s) a l n \<noteq> None}"
proof -
  obtain ks where ks: "be_scan B p (scan_end p) s = Inr ks" "sorted_wrt (<) ks"
    "set ks = {k \<in> dom (view s). p \<le> k \<and> k < scan_end p}"
    using scan_view [OF assms(3)] by blast
  let ?f = "\<lambda>n. p @ seq_hex n"
  have set: "set ks = ?f ` {n. log_entry E (view s) a l n \<noteq> None}"
    using ks(3) log_scan [OF assms(1,2,4)] by simp
  then have "\<forall>k \<in> set ks. \<exists>n. k = ?f n" by blast
  then obtain ns where ns: "ks = map ?f ns" by (metis ex_map_conv)
  have inj: "inj ?f" by (rule injI) (simp add: seq_hex_inj)
  have "?f ` set ns = ?f ` {n. log_entry E (view s) a l n \<noteq> None}"
    using set unfolding ns by (simp only: set_map)
  then have "set ns = {n. log_entry E (view s) a l n \<noteq> None}"
    by (simp only: inj_image_eq_iff [OF inj])
  moreover have "sorted_wrt (<) ns"
    using ks(2) unfolding ns by (simp add: sorted_wrt_map append_less_append seq_hex_less)
  ultimately show ?thesis using ks(1) ns by blast
qed

lemma latest_entry:
  assumes "codec_ok E" "store_ok E (view s)" "inv s" "log_prefix E a l = Inr p"
  shows "get_latest_entry B E a l s = Inr None \<and> (\<forall>n. log_entry E (view s) a l n = None)
    \<or> (\<exists>n e. get_latest_entry B E a l s = Inr (Some (replica_of E e)) \<and> log_entry E (view s) a l n = Some e
        \<and> (\<forall>m. log_entry E (view s) a l m \<noteq> None \<longrightarrow> m \<le> n))"
proof -
  obtain ns where ns: "be_scan B p (scan_end p) s = Inr (map (\<lambda>n. p @ seq_hex n) ns)" "sorted_wrt (<) ns"
    "set ns = {n. log_entry E (view s) a l n \<noteq> None}"
    using scan_log [OF assms] by blast
  show ?thesis
  proof (cases ns rule: rev_cases)
    case Nil
    then have "log_entry E (view s) a l n = None" for n using ns(3) by fastforce
    with Nil show ?thesis using ns(1) assms(4) by (simp add: get_latest_entry_def)
  next
    case (snoc ms n)
    then have "n \<in> set ns" by simp
    then obtain e where e: "log_entry E (view s) a l n = Some e" using ns(3) by blast
    from log_entry_blob [OF assms(4) e] obtain b where
      "view s (p @ seq_hex n) = Some b" "decode_op E b = Inr (replica_of E e)" by metis
    then have "get_latest_entry B E a l s = Inr (Some (replica_of E e))"
      using ns(1) snoc assms(4) by (simp add: get_latest_entry_def get_view)
    moreover have "m \<le> n" if "log_entry E (view s) a l m \<noteq> None" for m
    proof -
      have "m \<in> set (ms @ [n])" using ns(3) snoc that by blast
      with ns(2) snoc show ?thesis by (auto simp: sorted_wrt_append)
    qed
    ultimately show ?thesis using e by blast
  qed
qed

lemma prune_writes:
  assumes "codec_ok E" "store_ok E (view s)" "inv s" "log_prefix E a l = Inr p"
  shows "\<exists>ns c. prefix_prune_writes B E a l until s = Inr (concat (map (pruned_writes E (view s) a l p) ns), c)
    \<and> set ns = {n. log_entry E (view s) a l n \<noteq> None \<and> n < until}"
proof -
  have step: "fold_result (prune_step B E p until s) (map (\<lambda>n. p @ seq_hex n) ns) (ws, c)
      = Inr (ws @ concat (map (pruned_writes E (view s) a l p) (filter (\<lambda>n. n < until) ns)),
             c + of_nat (length (filter (\<lambda>n. n < until) ns)))"
    if "\<forall>n \<in> set ns. log_entry E (view s) a l n \<noteq> None" for ns ws c
    using that
  proof (induction ns arbitrary: ws c)
    case (Cons n ns)
    then obtain h body where e: "log_entry E (view s) a l n = Some (h, body)" by auto
    from log_entry_blob [OF assms(4) e] obtain b where "view s (p @ seq_hex n) = Some b" "decode_blob E b = Inr (h, body)"
      by metis
    then have "prune_step B E p until s (p @ seq_hex n) (ws, c)
        = Inr (if n < until then (ws @ pruned_writes E (view s) a l p n, c + 1) else (ws, c))"
      using e by (simp add: prune_step_def seq_from_log_key get_view pruned_writes_def Let_def not_less not_le)
    with Cons show ?case by simp
  qed simp
  obtain ns where ns: "be_scan B p (scan_end p) s = Inr (map (\<lambda>n. p @ seq_hex n) ns)"
    "set ns = {n. log_entry E (view s) a l n \<noteq> None}"
    using scan_log [OF assms] by blast
  then have "prefix_prune_writes B E a l until s
      = Inr (concat (map (pruned_writes E (view s) a l p) (filter (\<lambda>n. n < until) ns)),
             of_nat (length (filter (\<lambda>n. n < until) ns)))"
    using step [of ns "[]" 0] assms(4) by (simp add: prefix_prune_writes_def)
  then show ?thesis
    using ns(2) by (intro exI [of _ "filter (\<lambda>n. n < until) ns"]) auto
qed

lemma erase_writes:
  assumes "codec_ok E" "store_ok E (view s)" "fold_result (erase_step B E s) ids (ws, c) = Inr (ws', c')"
  shows "\<exists>es. ws' = ws @ es \<and> (\<forall>w \<in> set es. erasure E (view s) (set ids) w)"
  using assms(3)
proof (induction ids arbitrary: ws c)
  case (Cons i ids)
  then obtain ws1 c1 where one: "erase_step B E s i (ws, c) = Inr (ws1, c1)"
    and rest: "fold_result (erase_step B E s) ids (ws1, c1) = Inr (ws', c')"
    by (auto simp: and_then_eq_Inr)
  have grow: "erasure E (view s) (set ids) w \<Longrightarrow> erasure E (view s) (set (i # ids)) w" for w
    by (auto simp: erasure_def)
  have "\<exists>es. ws1 = ws @ es \<and> (\<forall>w \<in> set es. erasure E (view s) (set (i # ids)) w)"
    using log_key_for_entry [OF assms(1,2), of i]
  proof (elim disjE exE conjE)
    assume "log_key_for B E i s = Inr None"
    with one show ?thesis by (auto simp: erase_step_def)
  next
    fix a l n p h body
    assume key: "log_key_for B E i s = Inr (Some (p @ seq_hex n))" "log_prefix E a l = Inr p"
      "log_entry E (view s) a l n = Some (h, body)" "cd_header_hash E h = i"
    from log_entry_blob [OF key(2,3)] obtain b where b: "view s (p @ seq_hex n) = Some b" "decode_blob E b = Inr (h, body)"
      by metis
    show ?thesis
    proof (cases body)
      case None
      then have "ws1 = ws @ header_ref_delete E h i"
        using one key b by (simp add: erase_step_def get_view Let_def)
      then show ?thesis using header_ref_delete_erasure by blast
    next
      case (Some x)
      then obtain c where c: "encode_blob E h None = Inr c"
        and w: "ws1 = ws @ header_ref_delete E h i @ [PutOp (p @ seq_hex n) c]"
        using one key b by (auto simp: erase_step_def get_view Let_def and_then_eq_Inr)
      have "erasure E (view s) (set (i # ids)) (PutOp (p @ seq_hex n) c)"
        unfolding erasure_def using key decode_encode_blob [OF assms(1) c] by auto
      with w header_ref_delete_erasure show ?thesis by fastforce
    qed
  qed
  with Cons.IH [OF rest] grow show ?case by fastforce
qed simp

end

end
