(* ===== verification/Stickleback_Replica.thy ===== *)
theory Stickleback_Replica
  imports Stickleback_Continuity
begin

text \<open>
  The effect of one accepted operation on the keys of the store, the invariant of the logs over any
  sequence of processed operations, and what it means for a replica that authors on top of them.
\<close>

section \<open>The stages of an insert\<close>

lemma op_ptr_inj: "codec_ok E \<Longrightarrow> op_ptr E i = op_ptr E j \<longleftrightarrow> i = j"
  by (auto simp: op_ptr_def codec_ok_def inj_def)

lemma key_kinds [simp]:
  "\<not> prefix ''log/'' (op_ptr E i)" "\<not> prefix ''payload-ref/'' (op_ptr E i)"
  "prefix ''log/'' k \<Longrightarrow> \<not> prefix ''payload-ref/'' k"
  "prefix ''topic/'' k \<Longrightarrow> \<not> prefix ''log/'' k" "prefix ''topic/'' k \<Longrightarrow> \<not> prefix ''payload-ref/'' k"
  by (auto simp: op_ptr_def prefix_def)

lemma topic_no_pointer: "prefix ''topic/'' k \<Longrightarrow> k \<noteq> op_ptr E i"
  by (auto simp: op_ptr_def prefix_def)

lemma ref_no_pointer: "prefix ''payload-ref/'' k \<Longrightarrow> k \<noteq> op_ptr E i"
  by (auto simp: op_ptr_def prefix_def)

lemma log_key_no_pointer: "log_prefix E a l = Inr p \<Longrightarrow> p @ r \<noteq> op_ptr E' j"
  by (auto simp: log_prefix_def and_then_eq_Inr op_ptr_def)

lemma payload_ref_key_prefix: "prefix ''payload-ref/'' (payload_ref_key E h i)"
  by (simp add: payload_ref_key_def payload_ref_prefix_def)

lemma payload_ref_key_kind [simp]:
  "\<not> prefix ''log/'' (payload_ref_key E h i)" "op_ptr E j \<noteq> payload_ref_key E h i"
  by (simp_all add: payload_ref_key_def payload_ref_prefix_def op_ptr_def)

lemma pruned_log:
  "prefix ''log/'' k \<Longrightarrow> DeleteOp k \<in> set (pruned_writes E v a l p m) \<longleftrightarrow> k = p @ seq_hex m"
  by (auto simp: pruned_writes_def Let_def header_ref_delete_def split: option.splits)

lemma pruned_ptr:
  assumes "codec_ok E" "prefix ''log/'' p"
  shows "DeleteOp (op_ptr E j) \<in> set (pruned_writes E v a l p m) \<longleftrightarrow> j = cd_header_hash E (fst (the (log_entry E v a l m)))"
proof -
  have "op_ptr E j \<noteq> p @ seq_hex m" using assms(2) by (auto simp: op_ptr_def prefix_def)
  then show ?thesis
    by (auto simp: pruned_writes_def Let_def header_ref_delete_def op_ptr_inj [OF assms(1)] split: option.splits)
qed

lemma pruned_writes_deletes: "w \<in> set (pruned_writes E v a l p m) \<Longrightarrow> \<exists>k. w = DeleteOp k"
  by (auto simp: pruned_writes_def Let_def header_ref_delete_def split: option.splits)

text \<open>Pruning removes the entries below the new one with their pointers, and nothing else of either kind.\<close>

lemma after_prune:
  assumes "codec_ok E" "log_prefix E a l = Inr p"
    and "set ns = {m. log_entry E v a l m \<noteq> None \<and> m < n}"
  defines "v1 \<equiv> fold write_view (concat (map (pruned_writes E v a l p) ns)) v"
  shows "prefix ''log/'' k \<Longrightarrow> v1 k = (if \<exists>m < n. log_entry E v a l m \<noteq> None \<and> k = p @ seq_hex m then None else v k)"
    "v1 (op_ptr E j) =
       (if \<exists>m < n. \<exists>h body. log_entry E v a l m = Some (h, body) \<and> cd_header_hash E h = j then None else v (op_ptr E j))"
    "v1 k = v k \<or> v1 k = None"
proof -
  let ?ws = "concat (map (pruned_writes E v a l p) ns)"
  have del: "\<forall>w \<in> set ?ws. \<exists>k. w = DeleteOp k" using pruned_writes_deletes by auto
  have v1: "v1 k = (if DeleteOp k \<in> set ?ws then None else v k)" for k
    unfolding v1_def by (rule fold_deletes [OF del])
  show "v1 k = v k \<or> v1 k = None" by (simp add: v1)
  have "DeleteOp k \<in> set ?ws \<longleftrightarrow> (\<exists>m < n. log_entry E v a l m \<noteq> None \<and> k = p @ seq_hex m)" if "prefix ''log/'' k" for k
    by (auto simp: pruned_log [OF that] assms(3))
  then show "prefix ''log/'' k \<Longrightarrow> v1 k = (if \<exists>m < n. log_entry E v a l m \<noteq> None \<and> k = p @ seq_hex m then None else v k)"
    by (simp add: v1)
  have "DeleteOp (op_ptr E j) \<in> set ?ws \<longleftrightarrow> (\<exists>m < n. \<exists>h body. log_entry E v a l m = Some (h, body) \<and> cd_header_hash E h = j)"
    using pruned_ptr [OF assms(1) log_prefix_log [OF assms(2)]] assms(3) by fastforce
  then show "v1 (op_ptr E j) =
       (if \<exists>m < n. \<exists>h body. log_entry E v a l m = Some (h, body) \<and> cd_header_hash E h = j then None else v (op_ptr E j))"
    by (simp add: v1)
qed

text \<open>Erasing keeps the pointers and the headers.\<close>

lemma after_erase:
  assumes "\<forall>w \<in> set ews. erasure E v ids w"
    and v2_def: "v2 = fold write_view ews v1"
  shows "v2 (op_ptr E j) = v1 (op_ptr E j)"
    "v2 k = v1 k \<or> prefix ''payload-ref/'' k \<and> v2 k = None
      \<or> (\<exists>a l n p h body c. log_prefix E a l = Inr p \<and> k = p @ seq_hex n \<and> log_entry E v a l n = Some (h, body)
           \<and> cd_header_hash E h \<in> ids \<and> decode_blob E c = Inr (h, None) \<and> v2 k = Some c)"
proof -
  show "v2 (op_ptr E j) = v1 (op_ptr E j)"
    unfolding v2_def
  proof (rule fold_write_untouched, rule ballI)
    fix w assume "w \<in> set ews"
    with assms(1) have "erasure E v ids w" by blast
    then show "(\<forall>c. w \<noteq> PutOp (op_ptr E j) c) \<and> w \<noteq> DeleteOp (op_ptr E j)"
      by (auto simp: erasure_def ref_no_pointer log_key_no_pointer)
  qed
  show "v2 k = v1 k \<or> prefix ''payload-ref/'' k \<and> v2 k = None
      \<or> (\<exists>a l n p h body c. log_prefix E a l = Inr p \<and> k = p @ seq_hex n \<and> log_entry E v a l n = Some (h, body)
           \<and> cd_header_hash E h \<in> ids \<and> decode_blob E c = Inr (h, None) \<and> v2 k = Some c)"
    using fold_write_view [of ews v1 k]
  proof (elim disjE bexE exE conjE)
    fix w c assume w: "w \<in> set ews" "w = PutOp k c" "fold write_view ews v1 k = Some c"
    then have "erasure E v ids (PutOp k c)" using assms(1) by blast
    then show ?thesis unfolding erasure_def v2_def w(3) by blast
  next
    fix w assume w: "w \<in> set ews" "w = DeleteOp k" "fold write_view ews v1 k = None"
    then have "erasure E v ids (DeleteOp k)" using assms(1) by blast
    then show ?thesis unfolding erasure_def v2_def w(3) by blast
  qed (simp add: v2_def)
qed

lemma after_puts:
  assumes "prefix ''topic/'' topic" "prefix ''log/'' K"
    and "\<forall>w \<in> set rws. \<exists>k. w = PutOp k (str_bytes K) \<and> prefix ''payload-ref/'' k"
    and v3_def: "v3 = fold write_view ([PutOp topic [], PutOp K blob, PutOp (op_ptr E i) (str_bytes K)] @ rws) v2"
  shows "prefix ''log/'' k \<Longrightarrow> v3 k = (if k = K then Some blob else v2 k)"
    "v3 (op_ptr E j) = (if op_ptr E j = op_ptr E i then Some (str_bytes K) else v2 (op_ptr E j))"
    "prefix ''payload-ref/'' k \<Longrightarrow> v3 k = v2 k \<or> v3 k = Some (str_bytes K)"
proof -
  let ?v = "v2(topic \<mapsto> [], K \<mapsto> blob, op_ptr E i \<mapsto> str_bytes K)"
  have v3: "v3 = fold write_view rws ?v" by (simp add: v3_def)
  have keep: "v3 k = ?v k" if "\<not> prefix ''payload-ref/'' k" for k
    unfolding v3 by (rule fold_write_untouched) (use assms(3) that in auto)
  show "prefix ''log/'' k \<Longrightarrow> v3 k = (if k = K then Some blob else v2 k)"
    using keep [of k] assms(1) by auto
  have "op_ptr E j \<noteq> K" "op_ptr E j \<noteq> topic"
    using assms(1,2) topic_no_pointer [of topic] by auto
  then show "v3 (op_ptr E j) = (if op_ptr E j = op_ptr E i then Some (str_bytes K) else v2 (op_ptr E j))"
    using keep [of "op_ptr E j"] by simp
  show "v3 k = v2 k \<or> v3 k = Some (str_bytes K)" if k: "prefix ''payload-ref/'' k"
  proof -
    have "k \<noteq> topic" "k \<noteq> K" "k \<noteq> op_ptr E i"
      using k assms(1,2) by auto
    then have "?v k = v2 k" by simp
    with fold_write_view [of rws ?v k] assms(3) show ?thesis unfolding v3 by fastforce
  qed
qed

section \<open>The effect of an insert\<close>

text \<open>
  A store \<open>v'\<close> that differs from \<open>v\<close> by one new entry, the removal of the
  entries in \<open>gone\<close> with their pointers, and the erasure of bodies.
\<close>

definition pruned_key :: "('l, 'x) store_codec \<Rightarrow> (string \<rightharpoonup> bytes) \<Rightarrow> key32 \<Rightarrow> 'l \<Rightarrow> u32 \<Rightarrow> string \<Rightarrow> bool" where
  "pruned_key E v a l n k \<longleftrightarrow>
     (\<exists>m < n. \<exists>p. log_prefix E a l = Inr p \<and> log_entry E v a l m \<noteq> None \<and> k = p @ seq_hex m)"

definition pruned_id :: "('l, 'x) store_codec \<Rightarrow> (string \<rightharpoonup> bytes) \<Rightarrow> key32 \<Rightarrow> 'l \<Rightarrow> u32 \<Rightarrow> key32 \<Rightarrow> bool" where
  "pruned_id E v a l n j \<longleftrightarrow> (\<exists>m < n. \<exists>h body. log_entry E v a l m = Some (h, body) \<and> cd_header_hash E h = j)"

definition same_header :: "('l, 'x) store_codec \<Rightarrow> bytes \<Rightarrow> bytes \<Rightarrow> bool" where
  "same_header E b c \<longleftrightarrow> (\<exists>h x y. decode_blob E b = Inr (h, x) \<and> decode_blob E c = Inr (h, y))"

definition insert_effect ::
  "('l, 'x) store_codec \<Rightarrow> (string \<rightharpoonup> bytes) \<Rightarrow> key32 \<Rightarrow> 'l \<Rightarrow> 'x op_header \<Rightarrow> bytes option \<Rightarrow> bool \<Rightarrow> (string \<rightharpoonup> bytes) \<Rightarrow> bool" where
  "insert_effect E v a l h body prune v' \<longleftrightarrow>
     (\<exists>p. log_prefix E a l = Inr p
       \<and> (\<exists>blob. v' (p @ seq_hex (oh_seq_num h)) = Some blob \<and> decode_blob E blob = Inr (h, body))
       \<and> (\<forall>k. prefix ''log/'' k \<longrightarrow> k \<noteq> p @ seq_hex (oh_seq_num h) \<longrightarrow>
            (if prune \<and> pruned_key E v a l (oh_seq_num h) k then v' k = None
             else v' k = v k \<or> (\<exists>b c. v k = Some b \<and> v' k = Some c \<and> same_header E b c)))
       \<and> v' (op_ptr E (cd_header_hash E h)) = Some (str_bytes (p @ seq_hex (oh_seq_num h)))
       \<and> (\<forall>j. j \<noteq> cd_header_hash E h \<longrightarrow>
            v' (op_ptr E j) = (if prune \<and> pruned_id E v a l (oh_seq_num h) j then None else v (op_ptr E j)))
       \<and> (\<forall>k. prefix ''payload-ref/'' k \<longrightarrow>
            v' k = v k \<or> v' k = None \<or> v' k = Some (str_bytes (p @ seq_hex (oh_seq_num h)))))"

lemma names_same_header:
  "names_entry E v k b \<Longrightarrow> same_header E b c \<Longrightarrow> names_entry E v k c"
  by (auto simp: names_entry_def same_header_def)

lemma effect_log:
  assumes "insert_effect E v a l h body prune v'" "log_prefix E a l = Inr p"
    and "prefix ''log/'' k" "k \<noteq> p @ seq_hex (oh_seq_num h)"
  shows "if prune \<and> pruned_key E v a l (oh_seq_num h) k then v' k = None
    else v' k = v k \<or> (\<exists>b c. v k = Some b \<and> v' k = Some c \<and> same_header E b c)"
proof -
  from assms(1) obtain p' where p': "log_prefix E a l = Inr p'"
    "\<forall>k. prefix ''log/'' k \<longrightarrow> k \<noteq> p' @ seq_hex (oh_seq_num h) \<longrightarrow>
       (if prune \<and> pruned_key E v a l (oh_seq_num h) k then v' k = None
        else v' k = v k \<or> (\<exists>b c. v k = Some b \<and> v' k = Some c \<and> same_header E b c))"
    unfolding insert_effect_def by blast
  then have "p' = p" using assms(2) by simp
  with p'(2) assms(3,4) show ?thesis by blast
qed

lemma effect_new:
  assumes "insert_effect E v a l h body prune v'" "log_prefix E a l = Inr p"
  obtains blob where "v' (p @ seq_hex (oh_seq_num h)) = Some blob" "decode_blob E blob = Inr (h, body)"
    "v' (op_ptr E (cd_header_hash E h)) = Some (str_bytes (p @ seq_hex (oh_seq_num h)))"
  using assms unfolding insert_effect_def by auto

lemma effect_pointer:
  assumes "insert_effect E v a l h body prune v'" "j \<noteq> cd_header_hash E h"
  shows "v' (op_ptr E j) = (if prune \<and> pruned_id E v a l (oh_seq_num h) j then None else v (op_ptr E j))"
  using assms unfolding insert_effect_def by auto

lemma pruned_together:
  assumes "codec_ok E" "store_ok E v" "prefix ''log/'' k" "v k = Some b" "decode_blob E b = Inr (g, x)"
  shows "pruned_id E v a l n (cd_header_hash E g) \<longleftrightarrow> pruned_key E v a l n k"
proof
  assume "pruned_id E v a l n (cd_header_hash E g)"
  then obtain m g' y where m: "m < n" "log_entry E v a l m = Some (g', y)" "cd_header_hash E g' = cd_header_hash E g"
    unfolding pruned_id_def by blast
  moreover have "v (op_ptr E (cd_header_hash E g)) = Some (str_bytes k)"
    using store_ok_names [OF assms(2-4)] assms(5) by (auto simp: names_entry_def)
  ultimately show "pruned_key E v a l n k"
    using log_entry_names [OF assms(1,2) m(2)] by (auto simp: str_bytes_inj pruned_key_def)
next
  assume "pruned_key E v a l n k"
  then obtain m p where "m < n" "log_prefix E a l = Inr p" "k = p @ seq_hex m"
    unfolding pruned_key_def by blast
  with assms(4,5) show "pruned_id E v a l n (cd_header_hash E g)"
    by (auto simp: pruned_id_def log_entry_def)
qed

lemma effect_names:
  assumes "codec_ok E" "store_ok E v" "insert_effect E v a l h body prune v'" "v (op_ptr E (cd_header_hash E h)) = None"
    and "oh_verifying_key h = a" "prefix ''log/'' k" "v' k = Some b"
  shows "names_entry E v' k b"
proof -
  let ?n = "oh_seq_num h"
  obtain p where p: "log_prefix E a l = Inr p" using assms(3) unfolding insert_effect_def by blast
  from effect_new [OF assms(3) p] obtain blob where
    new: "v' (p @ seq_hex ?n) = Some blob" "decode_blob E blob = Inr (h, body)"
      "v' (op_ptr E (cd_header_hash E h)) = Some (str_bytes (p @ seq_hex ?n))" .
  show ?thesis
  proof (cases "k = p @ seq_hex ?n")
    case True
    then show ?thesis using new p assms(5,7) by (auto simp: names_entry_def)
  next
    case False
    note log = effect_log [OF assms(3) p assms(6) False]
    then have kept: "\<not> (prune \<and> pruned_key E v a l ?n k)" using assms(7) by (auto split: if_splits)
    with log obtain b0 where b0: "v k = Some b0" "b0 = b \<or> same_header E b0 b"
      using assms(7) by (metis (no_types, lifting) option.inject)
    from store_ok_names [OF assms(2,6) b0(1)] obtain a' l' p' g x where
      e: "log_prefix E a' l' = Inr p'" "k = p' @ seq_hex (oh_seq_num g)" "decode_blob E b0 = Inr (g, x)"
        "oh_verifying_key g = a'" "v (op_ptr E (cd_header_hash E g)) = Some (str_bytes k)"
      unfolding names_entry_def by blast
    have "cd_header_hash E g \<noteq> cd_header_hash E h" using e(5) assms(4) by auto
    then have "v' (op_ptr E (cd_header_hash E g)) = Some (str_bytes k)"
      using effect_pointer [OF assms(3)] kept pruned_together [OF assms(1,2,6) b0(1) e(3)] e(5) by simp
    moreover obtain y where "decode_blob E b = Inr (g, y)"
      using b0(2) e(3) by (auto simp: same_header_def)
    ultimately show ?thesis using e unfolding names_entry_def by blast
  qed
qed

lemma effect_leads:
  assumes "codec_ok E" "store_ok E v" "insert_effect E v a l h body prune v'" "log_entry E v a l (oh_seq_num h) = None"
    and "v' (op_ptr E j) = Some b"
  shows "leads_to E v' j b"
proof -
  let ?n = "oh_seq_num h"
  obtain p where p: "log_prefix E a l = Inr p" using assms(3) unfolding insert_effect_def by blast
  from effect_new [OF assms(3) p] obtain blob where
    new: "v' (p @ seq_hex ?n) = Some blob" "decode_blob E blob = Inr (h, body)"
      "v' (op_ptr E (cd_header_hash E h)) = Some (str_bytes (p @ seq_hex ?n))" .
  show ?thesis
  proof (cases "j = cd_header_hash E h")
    case True
    then show ?thesis using assms(5) new log_prefix_log [OF p] unfolding leads_to_def
      by (intro exI [of _ "p @ seq_hex ?n"] exI [of _ blob] exI [of _ h] exI [of _ body]) simp
  next
    case False
    with assms(5) effect_pointer [OF assms(3) False]
    have vj: "v (op_ptr E j) = Some b" and kept: "\<not> (prune \<and> pruned_id E v a l ?n j)"
      by (auto split: if_splits)
    from store_ok_leads [OF assms(2) vj] obtain k c g y where k: "b = str_bytes k" "prefix ''log/'' k" "v k = Some c"
      "decode_blob E c = Inr (g, y)" "cd_header_hash E g = j" unfolding leads_to_def by blast
    have "k \<noteq> p @ seq_hex ?n" using log_entry_at [OF assms(2) p, of ?n] assms(4) k(3) by auto
    then have "v' k = v k \<or> (\<exists>b c. v k = Some b \<and> v' k = Some c \<and> same_header E b c)"
      using effect_log [OF assms(3) p k(2)] kept pruned_together [OF assms(1,2) k(2-4)] k(5) by auto
    with k have "\<exists>c y. v' k = Some c \<and> decode_blob E c = Inr (g, y)" by (auto simp: same_header_def)
    with k show ?thesis unfolding leads_to_def by blast
  qed
qed

lemma effect_store_ok:
  assumes "codec_ok E" "store_ok E v" "insert_effect E v a l h body prune v'"
    and "log_entry E v a l (oh_seq_num h) = None" "v (op_ptr E (cd_header_hash E h)) = None" "oh_verifying_key h = a"
  shows "store_ok E v'"
proof -
  have "\<exists>key. log_key E key \<and> b = str_bytes key" if k: "prefix ''payload-ref/'' k" "v' k = Some b" for k b
  proof -
    obtain p where p: "log_prefix E a l = Inr p"
      "v' k = v k \<or> v' k = None \<or> v' k = Some (str_bytes (p @ seq_hex (oh_seq_num h)))"
      using assms(3) k(1) unfolding insert_effect_def by blast
    then have "log_key E (p @ seq_hex (oh_seq_num h))" unfolding log_key_def by blast
    with p(2) store_ok_refs [OF assms(2) k(1)] k(2) show ?thesis by auto
  qed
  with effect_names [OF assms(1-3,5,6)] effect_leads [OF assms(1-4)] show ?thesis
    unfolding store_ok_def by blast
qed

lemma effect_header:
  assumes "codec_ok E" "store_ok E v" "insert_effect E v a l h body prune v'"
  shows "log_header E v' a' l' m =
    (if a' = a \<and> l' = l \<and> m = oh_seq_num h then Some h
     else if prune \<and> a' = a \<and> l' = l \<and> m < oh_seq_num h then None
     else log_header E v a' l' m)"
proof -
  let ?n = "oh_seq_num h"
  obtain p where p: "log_prefix E a l = Inr p" using assms(3) unfolding insert_effect_def by blast
  from effect_new [OF assms(3) p] obtain blob where
    new: "v' (p @ seq_hex ?n) = Some blob" "decode_blob E blob = Inr (h, body)" .
  show ?thesis
  proof (cases "log_prefix E a' l'")
    case (Inl e)
    then show ?thesis using p by (auto simp: log_header_def log_entry_def)
  next
    case (Inr p')
    let ?k = "p' @ seq_hex m"
    have eq: "?k = p @ seq_hex q \<longleftrightarrow> a' = a \<and> l' = l \<and> m = q" for q
      by (rule log_key_eq [OF assms(1) Inr p])
    show ?thesis
    proof (cases "?k = p @ seq_hex ?n")
      case True
      then show ?thesis using eq [of ?n] new p by (auto simp: log_header_def log_entry_def)
    next
      case False
      have pr: "pruned_key E v a l ?n ?k \<longleftrightarrow> a' = a \<and> l' = l \<and> m < ?n \<and> log_entry E v a l m \<noteq> None"
        using eq p unfolding pruned_key_def by auto
      have "prefix ''log/'' ?k" using log_prefix_log [OF Inr] by simp
      note log = effect_log [OF assms(3) p this False]
      have ne: "\<not> (a' = a \<and> l' = l \<and> m = ?n)" using eq [of ?n] False by blast
      have at: "log_header E w a' l' m = Option.bind (w ?k) (\<lambda>b. case decode_blob E b of Inl _ \<Rightarrow> None | Inr e \<Rightarrow> Some (fst e))" for w
        using Inr by (simp add: log_header_def log_entry_def split: option.splits sum.splits)
      show ?thesis
      proof (cases "prune \<and> pruned_key E v a l ?n ?k")
        case True
        with log have "v' ?k = None" by simp
        then have "log_header E v' a' l' m = None" by (simp add: at)
        with True pr ne show ?thesis by simp
      next
        case kept: False
        with log have "v' ?k = v ?k \<or> (\<exists>b c. v ?k = Some b \<and> v' ?k = Some c \<and> same_header E b c)" by simp
        then have same: "log_header E v' a' l' m = log_header E v a' l' m"
          unfolding at by (auto simp: same_header_def)
        show ?thesis
        proof (cases "prune \<and> a' = a \<and> l' = l \<and> m < ?n")
          case True
          with kept pr have "log_entry E v a l m = None" by blast
          with same True ne show ?thesis by (simp add: log_header_def)
        next
          case False
          then show ?thesis unfolding same by (simp only: ne False if_False)
        qed
      qed
    qed
  qed
qed

lemma stages_effect:
  assumes "codec_ok E" "store_ok E v" "log_prefix E a l = Inr p" "decode_blob E blob = Inr (h, body)"
    and "pws = (if prune then concat (map (pruned_writes E v a l p) ns) else [])"
    and "set ns = {m. log_entry E v a l m \<noteq> None \<and> m < oh_seq_num h}"
    and "\<forall>w \<in> set ews. erasure E v ids w" "prefix ''topic/'' topic"
    and "prune \<longrightarrow> (\<forall>j \<in> ids. \<not> pruned_id E v a l (oh_seq_num h) j)"
    and "\<forall>w \<in> set rws. \<exists>k. w = PutOp k (str_bytes (p @ seq_hex (oh_seq_num h))) \<and> prefix ''payload-ref/'' k"
    and "v' = fold write_view (pws @ ews @ [PutOp topic [], PutOp (p @ seq_hex (oh_seq_num h)) blob,
      PutOp (op_ptr E (cd_header_hash E h)) (str_bytes (p @ seq_hex (oh_seq_num h)))] @ rws) v"
  shows "insert_effect E v a l h body prune v'"
proof -
  let ?n = "oh_seq_num h" and ?K = "p @ seq_hex (oh_seq_num h)"
  define v1 where "v1 = fold write_view pws v"
  define v2 where "v2 = fold write_view ews v1"
  have K: "prefix ''log/'' ?K" using log_prefix_log [OF assms(3)] by simp
  note puts = after_puts [OF assms(8) K assms(10), of v' blob E "cd_header_hash E h" v2]
  have v': "v' = fold write_view ([PutOp topic [], PutOp ?K blob, PutOp (op_ptr E (cd_header_hash E h)) (str_bytes ?K)] @ rws) v2"
    using assms(11) by (simp add: v1_def v2_def)
  have prune1: "v1 k = (if prune \<and> pruned_key E v a l ?n k then None else v k)" if "prefix ''log/'' k" for k
    using after_prune(1) [OF assms(1,3,6) that] assms(3,5) by (auto simp: v1_def pruned_key_def)
  have prune2: "v1 (op_ptr E j) = (if prune \<and> pruned_id E v a l ?n j then None else v (op_ptr E j))" for j
    using after_prune(2) [OF assms(1,3,6)] assms(5) by (auto simp: v1_def pruned_id_def)
  have prune3: "v1 k = v k \<or> v1 k = None" for k
    using after_prune(3) [OF assms(1,3,6)] assms(5) by (auto simp: v1_def)
  have log: "if prune \<and> pruned_key E v a l ?n k then v' k = None
      else v' k = v k \<or> (\<exists>b c. v k = Some b \<and> v' k = Some c \<and> same_header E b c)"
    if k: "prefix ''log/'' k" "k \<noteq> ?K" for k
  proof -
    have "v' k = v2 k" using puts(1) [OF v' k(1)] k(2) by simp
    moreover have "v2 k = v1 k \<or> \<not> (prune \<and> pruned_key E v a l ?n k)
        \<and> (\<exists>b c. v k = Some b \<and> v2 k = Some c \<and> same_header E b c)"
      using after_erase(2) [OF assms(7) v2_def, of k]
    proof (elim disjE exE conjE)
      fix a' l' m p' g x c
      assume e: "log_prefix E a' l' = Inr p'" "k = p' @ seq_hex m" "log_entry E v a' l' m = Some (g, x)"
        "cd_header_hash E g \<in> ids" "decode_blob E c = Inr (g, None)" "v2 k = Some c"
      from log_entry_blob [OF e(1,3)] obtain b where b: "v k = Some b" "decode_blob E b = Inr (g, x)"
        unfolding e(2) by metis
      with e assms(9) pruned_together [OF assms(1,2) k(1) b] show ?thesis by (auto simp: same_header_def)
    qed (use k(1) in auto)
    ultimately show ?thesis using prune1 [OF k(1)] by auto
  qed
  have ptr: "v' (op_ptr E j) = (if prune \<and> pruned_id E v a l ?n j then None else v (op_ptr E j))"
    if "j \<noteq> cd_header_hash E h" for j
    using puts(2) [OF v'] after_erase(1) [OF assms(7) v2_def] prune2 that by (simp add: op_ptr_inj [OF assms(1)])
  have refs: "v' k = v k \<or> v' k = None \<or> v' k = Some (str_bytes ?K)" if k: "prefix ''payload-ref/'' k" for k
    using puts(3) [OF v' k] after_erase(2) [OF assms(7) v2_def, of k] prune3 [of k] k log_prefix_log
    by (metis key_kinds(3) prefix_prefix)
  have "v' ?K = Some blob" "v' (op_ptr E (cd_header_hash E h)) = Some (str_bytes ?K)"
    using puts(1) [OF v' K] puts(2) [OF v', of "cd_header_hash E h"] by simp_all
  with assms(3,4) log ptr refs show ?thesis unfolding insert_effect_def by blast
qed

lemma effect_linked:
  assumes "codec_ok E" "store_ok E v" "linked E v" "insert_effect E v a l h body prune v'"
    and below: "\<And>m. log_header E v a l m \<noteq> None \<Longrightarrow> m < oh_seq_num h"
    and start: "prune \<or> oh_seq_num h = 0
      \<or> (\<exists>h'. log_header E v a l (oh_seq_num h - 1) = Some h' \<and> oh_backlink h = Some (cd_header_hash E h'))"
  shows "linked E v'"
  unfolding linked_def
proof (intro allI impI)
  fix a' l' m g
  assume g: "log_header E v' a' l' m = Some g"
  note hdr = effect_header [OF assms(1,2,4)]
  let ?n = "oh_seq_num h"
  show "(\<forall>q < m. log_header E v' a' l' q = None)
    \<or> (\<exists>h'. log_header E v' a' l' (m - 1) = Some h' \<and> oh_backlink g = Some (cd_header_hash E h'))"
  proof (cases "a' = a \<and> l' = l \<and> m = ?n")
    case True
    then have gh: "g = h" using g hdr [of a' l' m] by simp
    show ?thesis
    proof (cases "prune \<or> ?n = 0")
      case True
      then show ?thesis using \<open>a' = a \<and> l' = l \<and> m = ?n\<close> hdr by auto
    next
      case False
      with start obtain h' where h': "log_header E v a l (?n - 1) = Some h'" "oh_backlink h = Some (cd_header_hash E h')" "\<not> prune"
        by blast
      then have "log_header E v' a l (?n - 1) = Some h'" using hdr [of a l "?n - 1"] below [of "?n - 1"] by auto
      with h'(2) True gh show ?thesis by auto
    qed
  next
    case False
    then have kept: "\<not> (prune \<and> a' = a \<and> l' = l \<and> m < ?n)" and old: "log_header E v a' l' m = Some g"
      using g hdr [of a' l' m] by (auto split: if_splits)
    have mn: "m < ?n" if "a' = a" "l' = l" using below [of m] old that by simp
    have "(\<forall>q < m. log_header E v a' l' q = None)
      \<or> (\<exists>h'. log_header E v a' l' (m - 1) = Some h' \<and> oh_backlink g = Some (cd_header_hash E h'))"
      using assms(3) old unfolding linked_def by blast
    then show ?thesis
    proof (elim disjE exE conjE)
      assume "\<forall>q < m. log_header E v a' l' q = None"
      then have "\<forall>q < m. log_header E v' a' l' q = None" using hdr mn by auto
      then show ?thesis by blast
    next
      fix h' assume h': "log_header E v a' l' (m - 1) = Some h'" "oh_backlink g = Some (cd_header_hash E h')"
      then have "log_header E v' a' l' (m - 1) = Some h'"
        using hdr [of a' l' "m - 1"] below [of "m - 1"] kept mn by auto
      with h'(2) show ?thesis by blast
    qed
  qed
qed

text \<open>Attaching bodies keeps the pointers and the headers.\<close>

definition rehouses :: "('l, 'x) store_codec \<Rightarrow> (string \<rightharpoonup> bytes) \<Rightarrow> (string \<rightharpoonup> bytes) \<Rightarrow> bool" where
  "rehouses E v v' \<longleftrightarrow>
     (\<forall>k. prefix ''log/'' k \<longrightarrow> v' k = v k \<or> (\<exists>b c. v k = Some b \<and> v' k = Some c \<and> same_header E b c))
     \<and> (\<forall>j. v' (op_ptr E j) = v (op_ptr E j))
     \<and> (\<forall>k. prefix ''payload-ref/'' k \<longrightarrow> v' k = v k \<or> v' k = None)"

definition attachment :: "('l, 'x) store_codec \<Rightarrow> (string \<rightharpoonup> bytes) \<Rightarrow> write_op \<Rightarrow> bool" where
  "attachment E v w \<longleftrightarrow>
     (\<exists>k. w = DeleteOp k \<and> prefix ''payload-ref/'' k)
     \<or> (\<exists>k b c. w = PutOp k c \<and> prefix ''log/'' k \<and> v k = Some b \<and> same_header E b c)"

lemma rehouses_refl: "rehouses E v v"
  by (simp add: rehouses_def)

lemma attachment_rehouses:
  assumes "\<forall>w \<in> set ws. attachment E v w"
  shows "rehouses E v (fold write_view ws v)"
proof -
  let ?v = "fold write_view ws v"
  have touched: "?v k = v k \<or> attachment E v (DeleteOp k) \<and> ?v k = None
      \<or> (\<exists>c. attachment E v (PutOp k c) \<and> ?v k = Some c)" for k
    using fold_write_view [of ws v k] assms by blast
  show ?thesis
    unfolding rehouses_def
  proof (intro conjI allI impI)
    fix k assume "prefix ''log/'' k"
    then show "?v k = v k \<or> (\<exists>b c. v k = Some b \<and> ?v k = Some c \<and> same_header E b c)"
      using touched [of k] by (auto simp: attachment_def)
  next
    fix j show "?v (op_ptr E j) = v (op_ptr E j)"
      using touched [of "op_ptr E j"] by (auto simp: attachment_def)
  next
    fix k assume "prefix ''payload-ref/'' k"
    then show "?v k = v k \<or> ?v k = None"
      using touched [of k] by (auto simp: attachment_def)
  qed
qed

lemma rehouses_store_ok:
  assumes "store_ok E v" "rehouses E v v'"
  shows "store_ok E v'"
  unfolding store_ok_def
proof (intro conjI allI impI)
  fix k b assume k: "prefix ''log/'' k" "v' k = Some b"
  with assms(2) obtain b0 where b0: "v k = Some b0" "b0 = b \<or> same_header E b0 b"
    unfolding rehouses_def by (metis (no_types, lifting) option.inject)
  then have "names_entry E v k b"
    using store_ok_names [OF assms(1) k(1) b0(1)] names_same_header by blast
  with assms(2) show "names_entry E v' k b" by (auto simp: names_entry_def rehouses_def)
next
  fix i b assume "v' (op_ptr E i) = Some b"
  with assms(2) have "v (op_ptr E i) = Some b" by (simp add: rehouses_def)
  from store_ok_leads [OF assms(1) this] obtain k c h x where k: "b = str_bytes k" "prefix ''log/'' k" "v k = Some c"
    "decode_blob E c = Inr (h, x)" "cd_header_hash E h = i" unfolding leads_to_def by blast
  moreover have "v' k = v k \<or> (\<exists>b c. v k = Some b \<and> v' k = Some c \<and> same_header E b c)"
    using assms(2) k(2) unfolding rehouses_def by blast
  then have "\<exists>c x. v' k = Some c \<and> decode_blob E c = Inr (h, x)" using k(3,4) by (auto simp: same_header_def)
  ultimately show "leads_to E v' i b" unfolding leads_to_def by blast
next
  fix k b assume k: "prefix ''payload-ref/'' k" "v' k = Some b"
  then have "v k = Some b" using assms(2) unfolding rehouses_def by (metis option.distinct(1))
  then show "\<exists>key. log_key E key \<and> b = str_bytes key" using store_ok_refs [OF assms(1) k(1)] by blast
qed

lemma rehouses_header:
  assumes "rehouses E v v'"
  shows "log_header E v' a l n = log_header E v a l n"
proof (cases "log_prefix E a l")
  case (Inr p)
  have "prefix ''log/'' (p @ seq_hex n)" using log_prefix_log [OF Inr] by simp
  then have "v' (p @ seq_hex n) = v (p @ seq_hex n)
      \<or> (\<exists>b c. v (p @ seq_hex n) = Some b \<and> v' (p @ seq_hex n) = Some c \<and> same_header E b c)"
    using assms unfolding rehouses_def by blast
  with Inr show ?thesis by (auto simp: log_header_def log_entry_def same_header_def)
qed (simp add: log_header_def log_entry_def)

lemma rehouses_linked: "rehouses E v v' \<Longrightarrow> linked E v \<Longrightarrow> linked E v'"
  by (simp add: linked_def rehouses_header)

section \<open>Processing over any backend\<close>

text \<open>What the log format's own check of a continued log promises.\<close>

definition backlink_ok :: "('l, 'x) store_codec \<Rightarrow> ('l, 'x) processor \<Rightarrow> bool" where
  "backlink_ok E P \<longleftrightarrow>
     (\<forall>p h. pr_backlink P (Some p) h False = None \<longrightarrow>
        oh_seq_num h = oh_seq_num p + 1 \<and> oh_backlink h = Some (cd_header_hash E p))"

text \<open>A policy must not erase the body of an operation it prunes with the same decision.\<close>

definition erases_kept :: "('l, 'x) store_codec \<Rightarrow> (string \<rightharpoonup> bytes) \<Rightarrow> 'l admission \<Rightarrow> 'x op_header \<Rightarrow> bool" where
  "erases_kept E v adm h \<longleftrightarrow>
     (prunes (ad_history adm) \<longrightarrow>
        (\<forall>j \<in> set (ad_erase_payloads adm).
           \<not> pruned_id E v (oh_verifying_key h) (st_log_id (ad_target adm)) (oh_seq_num h) j))"

lemma topic_key_prefix: "topic_key E topic a l = Inr k \<Longrightarrow> prefix ''topic/'' k"
  by (auto simp: topic_key_def and_then_eq_Inr)

lemma ref_put_refs: "\<forall>w \<in> set (ref_put E oper K). \<exists>k. w = PutOp k (str_bytes K) \<and> prefix ''payload-ref/'' k"
  by (auto simp: ref_put_def payload_ref_key_prefix split: option.splits)

lemma stored_Inr: "stored r = Inr x \<longleftrightarrow> r = Inr x"
  by (cases r) simp_all

lemma process_cases:
  assumes "process B E P oper s = (r, s')"
  obtains (same) "s' = s" "\<And>x y. r \<noteq> Inr (Inserted x y)"
    | (attach) ph b q where "attach_payload B E ph b s = (q, s')"
        "r = (case q of Inl e \<Rightarrow> Inl (StoreFailure e) | Inr n \<Rightarrow> Inr (if n > 0 then HydratedPayload else Duplicate))"
    | (insert) adm seg latest q where "preflight E P oper = Inr adm" "log_seg E (st_log_id (ad_target adm)) = Inr seg"
        "get_latest_entry B E (oh_verifying_key (ro_header oper)) (st_log_id (ad_target adm)) s = Inr latest"
        "extends_frontier P latest oper (ad_history adm) = Inr ()"
        "insert_indexed_operation_with_effects B E (st_topic (ad_target adm)) oper (st_log_id (ad_target adm))
           (prunes (ad_history adm)) (ad_erase_payloads adm) s = (q, s')"
        "r = (case q of Inl e \<Rightarrow> Inl (StoreFailure e)
               | Inr (inserted, pruned, erased) \<Rightarrow> Inr (if inserted then Inserted pruned erased else Duplicate))"
proof (cases "and_then (preflight E P oper) (\<lambda>adm.
    and_then (stored (log_seg E (st_log_id (ad_target adm)))) (\<lambda>_.
    and_then (stored (has_operation B E (ro_hash oper) s)) (\<lambda>known. Inr (adm, known))))")
  case (Inl e)
  with assms same show thesis by (auto simp: process_def)
next
  case (Inr ak)
  then obtain adm known seg where ak: "ak = (adm, known)" and pre: "preflight E P oper = Inr adm"
    "log_seg E (st_log_id (ad_target adm)) = Inr seg"
    by (auto simp: and_then_eq_Inr stored_Inr)
  show thesis
  proof (cases known)
    case True
    show thesis
    proof (cases "\<exists>ph b. oh_payload_hash (ro_header oper) = Some ph \<and> ro_body oper = Some b")
      case True
      then obtain ph b where hb: "oh_payload_hash (ro_header oper) = Some ph" "ro_body oper = Some b" by blast
      obtain q t where q: "attach_payload B E ph b s = (q, t)" by fastforce
      with assms Inr ak hb \<open>known\<close> attach [of ph b q] show thesis
        by (cases q) (simp_all add: process_def)
    next
      case False
      with assms Inr ak \<open>known\<close> same show thesis
        by (auto simp: process_def split: option.splits)
    qed
  next
    case False
    show thesis
    proof (cases "and_then (stored (get_latest_entry B E (oh_verifying_key (ro_header oper)) (st_log_id (ad_target adm)) s))
        (\<lambda>latest. extends_frontier P latest oper (ad_history adm))")
      case (Inl e)
      with assms Inr ak False same show thesis by (auto simp: process_def)
    next
      case ext: (Inr x)
      then obtain latest where latest: "get_latest_entry B E (oh_verifying_key (ro_header oper)) (st_log_id (ad_target adm)) s = Inr latest"
        "extends_frontier P latest oper (ad_history adm) = Inr ()"
        by (auto simp: and_then_eq_Inr stored_Inr)
      obtain q t where q: "insert_indexed_operation_with_effects B E (st_topic (ad_target adm)) oper (st_log_id (ad_target adm))
          (prunes (ad_history adm)) (ad_erase_payloads adm) s = (q, t)" by fastforce
      have "t = s' \<and> r = (case q of Inl e \<Rightarrow> Inl (StoreFailure e)
          | Inr (inserted, pruned, erased) \<Rightarrow> Inr (if inserted then Inserted pruned erased else Duplicate))"
        using assms Inr ak False ext q by (cases q) (auto simp: process_def split: prod.splits)
      with insert [OF pre latest] q show thesis by blast
    qed
  qed
qed

context backend_laws
begin

lemma apply_result_view:
  assumes "inv s" "apply_result B ws x s = (r, s')"
  shows "inv s' \<and> (case r of Inl _ \<Rightarrow> view s' = view s | Inr y \<Rightarrow> y = x \<and> view s' = fold write_view ws (view s))"
proof -
  obtain q t where q: "be_apply B ws s = (q, t)" by fastforce
  from apply_view [OF assms(1) q] q assms(2) show ?thesis
    by (auto simp: apply_result_def split: sum.splits)
qed

lemma insert_view:
  assumes "codec_ok E" "store_ok E (view s)" "inv s"
    and "insert_indexed_operation_with_effects B E topic oper l prune erase s = (r, s')"
    and "ro_hash oper = cd_header_hash E (ro_header oper)" "a = oh_verifying_key (ro_header oper)"
    and "prune \<longrightarrow> (\<forall>j \<in> set erase. \<not> pruned_id E (view s) a l (oh_seq_num (ro_header oper)) j)"
  shows "inv s' \<and> (view s' = view s \<and> (\<forall>x. r \<noteq> Inr (True, x))
    \<or> (\<exists>x. r = Inr (True, x)) \<and> view s (op_ptr E (ro_hash oper)) = None
      \<and> insert_effect E (view s) a l (ro_header oper) (ro_body oper) prune (view s'))"
proof (cases "view s (op_ptr E (ro_hash oper)) \<noteq> None")
  case True
  then have "r = Inr (False, 0, 0) \<and> s' = s"
    using assms(4) by (simp add: insert_indexed_operation_with_effects_def insert_plan_def Let_def get_view)
  with assms(3) show ?thesis by simp
next
  case False
  let ?n = "oh_seq_num (ro_header oper)"
  show ?thesis
  proof (cases "\<exists>e. r = Inl e \<and> s' = s")
    case True
    with assms(3) show ?thesis by auto
  next
    case go: False
    obtain tk p blob pws pc ws ec where
      k: "topic_key E topic a l = Inr tk" "log_prefix E a l = Inr p" "encode_op E oper = Inr blob"
      and pw: "(if prune then prefix_prune_writes B E a l ?n s else Inr ([], 0)) = Inr (pws, pc)"
      and ew: "fold_result (erase_step B E s) erase (pws, 0) = Inr (ws, ec)"
      and ap: "apply_result B (ws @ [PutOp tk [], PutOp (p @ seq_hex ?n) blob, PutOp (op_ptr E (ro_hash oper)) (str_bytes (p @ seq_hex ?n))]
          @ ref_put E oper (p @ seq_hex ?n)) (True, pc, ec) s = (r, s')"
    proof (cases "insert_plan B E topic oper l prune erase s")
      case (Inl e)
      with assms(4) go show ?thesis by (auto simp: insert_indexed_operation_with_effects_def)
    next
      case (Inr plan)
      with False assms(4,6) that show ?thesis
        by (auto simp: insert_indexed_operation_with_effects_def insert_plan_def Let_def get_view and_then_eq_Inr
            split: prod.splits)
    qed
    from erase_writes [OF assms(1,2) ew] obtain ews where ews: "ws = pws @ ews" "\<forall>w \<in> set ews. erasure E (view s) (set erase) w"
      by blast
    obtain ns c where ns: "prefix_prune_writes B E a l ?n s = Inr (concat (map (pruned_writes E (view s) a l p) ns), c)"
      "set ns = {m. log_entry E (view s) a l m \<noteq> None \<and> m < ?n}"
      using prune_writes [OF assms(1-3) k(2)] by blast
    have pws: "pws = (if prune then concat (map (pruned_writes E (view s) a l p) ns) else [])"
      using pw ns(1) by (auto split: if_splits)
    have "decode_blob E blob = Inr (ro_header oper, ro_body oper)"
      using decode_encode_blob [OF assms(1)] k(3) by (simp add: encode_op_def)
    note effect = stages_effect [OF assms(1,2) k(2) this pws ns(2) ews(2) topic_key_prefix [OF k(1)] assms(7) ref_put_refs refl]
    from apply_result_view [OF assms(3) ap] show ?thesis
      using effect False assms(5) ews(1) by (cases r) auto
  qed
qed

lemma attach_step:
  assumes "codec_ok E" "store_ok E (view s)" "prefix ''payload-ref/'' k"
    and "attachment_step B E ph payload s k (ws, c) = Inr (ws1, c1)" "\<forall>w \<in> set ws. attachment E (view s) w"
  shows "\<forall>w \<in> set ws1. attachment E (view s) w"
proof -
  have del: "attachment E (view s) (DeleteOp k)" using assms(3) by (simp add: attachment_def)
  show ?thesis
  proof (cases "view s k")
    case None
    with assms(4,5) del show ?thesis by (auto simp: attachment_step_def get_view)
  next
    case (Some b)
    from store_ok_refs [OF assms(2,3) Some] obtain a l n p where
      key: "log_prefix E a l = Inr p" "b = str_bytes (p @ seq_hex n)"
      unfolding log_key_def by blast
    have utf8: "from_utf8 E b = Inr (p @ seq_hex n)"
      unfolding key(2) by (rule log_key_ascii [OF assms(1) key(1)])
    have "prefix ''log/'' (p @ seq_hex n)" using log_prefix_log [OF key(1)] by simp
    then have put: "attachment E (view s) (PutOp (p @ seq_hex n) blob)"
      if "view s (p @ seq_hex n) = Some d" "decode_blob E d = Inr (h, x)" "encode_blob E h (Some payload) = Inr blob" for d h x blob
      unfolding attachment_def same_header_def using that decode_encode_blob [OF assms(1) that(3)] by blast
    show ?thesis
    proof (cases "view s (p @ seq_hex n)")
      case None
      with assms(4,5) Some utf8 del show ?thesis by (auto simp: attachment_step_def get_view)
    next
      case d: (Some d)
      with assms(4,5) Some utf8 put [OF d] show ?thesis
        by (auto simp: attachment_step_def get_view and_then_eq_Inr split: if_splits option.splits)
    qed
  qed
qed

lemma attach_writes:
  assumes "codec_ok E" "store_ok E (view s)" "inv s" "attachment_writes B E ph payload s = Inr (ws, c)"
  shows "\<forall>w \<in> set ws. attachment E (view s) w"
proof -
  have step: "\<forall>w \<in> set ws'. attachment E (view s) w"
    if "\<forall>k \<in> set ks. prefix ''payload-ref/'' k" "\<forall>w \<in> set ws. attachment E (view s) w"
      "fold_result (attachment_step B E ph payload s) ks (ws, c) = Inr (ws', c')" for ks ws c ws' c'
    using that
  proof (induction ks arbitrary: ws c)
    case (Cons k ks)
    then obtain ws1 c1 where one: "attachment_step B E ph payload s k (ws, c) = Inr (ws1, c1)"
      and rest: "fold_result (attachment_step B E ph payload s) ks (ws1, c1) = Inr (ws', c')"
      by (auto simp: and_then_eq_Inr)
    have "\<forall>w \<in> set ws1. attachment E (view s) w"
      using attach_step [OF assms(1,2) _ one Cons.prems(2)] Cons.prems(1) by simp
    with Cons.IH [OF _ _ rest] Cons.prems(1) show ?case by simp
  qed simp
  obtain ks where ks: "be_list B (payload_ref_prefix E ph) s = Inr ks"
    "set ks = {k \<in> dom (view s). prefix (payload_ref_prefix E ph) k}"
    using list_view [OF assms(3)] by blast
  have "\<forall>k \<in> set ks. prefix ''payload-ref/'' k"
  proof
    fix k assume "k \<in> set ks"
    with ks(2) have "prefix (payload_ref_prefix E ph) k" by blast
    moreover have "prefix ''payload-ref/'' (payload_ref_prefix E ph)" by (simp add: payload_ref_prefix_def)
    ultimately show "prefix ''payload-ref/'' k" by (rule prefix_order.trans [rotated])
  qed
  from step [OF this, of "[]" 0 ws c] ks(1) assms(4) show ?thesis by (simp add: attachment_writes_def)
qed

lemma attach_view:
  assumes "codec_ok E" "store_ok E (view s)" "inv s" "attach_payload B E ph payload s = (r, s')"
  shows "inv s' \<and> rehouses E (view s) (view s') \<and> (\<forall>e. r = Inl e \<longrightarrow> view s' = view s)"
proof (cases "payload_attachment_writes B E ph payload s")
  case (Inl e)
  with assms(3,4) show ?thesis by (auto simp: attach_payload_def rehouses_refl)
next
  case (Inr wc)
  obtain ws c where wc: "wc = (ws, c)" by fastforce
  have "attachment_writes B E ph payload s = Inr (ws, c)"
    using Inr wc by (simp add: payload_attachment_writes_def split: if_splits)
  from attachment_rehouses [OF attach_writes [OF assms(1-3) this]]
  have "rehouses E (view s) (fold write_view ws (view s))" .
  with apply_result_view [OF assms(3), of ws c r s'] Inr wc assms(3,4) show ?thesis
    by (auto simp: attach_payload_def rehouses_refl split: if_splits sum.splits)
qed

lemma frontier_extended:
  assumes "codec_ok E" "backlink_ok E P" "inv s" "store_ok E (view s)" "log_prefix E a l = Inr p"
    and "get_latest_entry B E a l s = Inr latest" "extends_frontier P latest oper history = Inr x"
  shows "(\<forall>m. log_header E (view s) a l m \<noteq> None \<longrightarrow> m < oh_seq_num (ro_header oper))
    \<and> (prunes history \<or> oh_seq_num (ro_header oper) = 0
       \<or> (\<exists>h'. log_header E (view s) a l (oh_seq_num (ro_header oper) - 1) = Some h'
            \<and> oh_backlink (ro_header oper) = Some (cd_header_hash E h')))"
  using latest_entry [OF assms(1,4,3,5)]
proof (elim disjE exE conjE)
  assume none: "get_latest_entry B E a l s = Inr None" "\<forall>n. log_entry E (view s) a l n = None"
  then have "prunes history \<or> oh_seq_num (ro_header oper) = 0"
    using assms(6,7) by (cases history) (auto simp: extends_frontier_def Let_def split: if_splits)
  with none(2) show ?thesis by (simp add: log_header_def)
next
  fix n e
  assume e: "get_latest_entry B E a l s = Inr (Some (replica_of E e))" "log_entry E (view s) a l n = Some e"
    "\<forall>m. log_entry E (view s) a l m \<noteq> None \<longrightarrow> m \<le> n"
  have latest: "latest = Some (replica_of E e)" using e(1) assms(6) by simp
  have seq: "oh_seq_num (fst e) = n"
    using log_entry_names [OF assms(1,4), of a l n "fst e" "snd e"] e(2) by simp
  have ext: "n < oh_seq_num (ro_header oper)" "pr_backlink P (Some (fst e)) (ro_header oper) (prunes history) = None"
    using assms(7) seq unfolding latest
    by (auto simp: extends_frontier_def replica_of_def Let_def split: if_splits option.splits)
  have "m < oh_seq_num (ro_header oper)" if "log_header E (view s) a l m \<noteq> None" for m
  proof -
    have "m \<le> n" using e(3) that by (auto simp: log_header_def)
    then show ?thesis using ext(1) by (rule le_less_trans)
  qed
  moreover have "prunes history \<or> (\<exists>h'. log_header E (view s) a l (oh_seq_num (ro_header oper) - 1) = Some h'
            \<and> oh_backlink (ro_header oper) = Some (cd_header_hash E h'))"
  proof (cases "prunes history")
    case False
    then have "oh_seq_num (ro_header oper) = n + 1" "oh_backlink (ro_header oper) = Some (cd_header_hash E (fst e))"
      using ext(2) assms(2) seq by (simp_all add: backlink_ok_def)
    with e(2) show ?thesis by (simp add: log_header_def)
  qed simp
  ultimately show ?thesis by blast
qed

text \<open>
  One processed operation: the keys stay in order and the logs linked. An operation that is
  refused changes nothing, a repeat at most attaches bodies, and an inserted one has its effect.
\<close>

lemma process_step:
  assumes "codec_ok E" "backlink_ok E P" "inv s" "store_ok E (view s)" "linked E (view s)"
    and "process B E P oper s = (r, s')"
    and "\<And>adm. pr_admit P oper = Inr adm \<Longrightarrow> erases_kept E (view s) adm (ro_header oper)"
  shows "inv s' \<and> store_ok E (view s') \<and> linked E (view s')
    \<and> (case r of
         Inl _ \<Rightarrow> view s' = view s
       | Inr (Inserted _ _) \<Rightarrow>
           \<exists>adm. pr_admit P oper = Inr adm \<and> ro_hash oper = cd_header_hash E (ro_header oper)
             \<and> insert_effect E (view s) (oh_verifying_key (ro_header oper)) (st_log_id (ad_target adm))
                 (ro_header oper) (ro_body oper) (prunes (ad_history adm)) (view s')
             \<and> (\<forall>m. log_header E (view s) (oh_verifying_key (ro_header oper)) (st_log_id (ad_target adm)) m \<noteq> None
                   \<longrightarrow> m < oh_seq_num (ro_header oper))
             \<and> (prunes (ad_history adm) \<or> oh_seq_num (ro_header oper) = 0
                 \<or> (\<exists>h'. log_header E (view s) (oh_verifying_key (ro_header oper)) (st_log_id (ad_target adm))
                          (oh_seq_num (ro_header oper) - 1) = Some h'
                      \<and> oh_backlink (ro_header oper) = Some (cd_header_hash E h')))
       | Inr _ \<Rightarrow> rehouses E (view s) (view s'))"
proof -
  let ?h = "ro_header oper"
  from assms(6) show ?thesis
  proof (cases rule: process_cases)
    case same
    with assms(3-5) show ?thesis by (auto simp: rehouses_refl split: sum.splits process_outcome.splits)
  next
    case (attach ph b q)
    note v = attach_view [OF assms(1,4,3) attach(1)]
    with rehouses_store_ok [OF assms(4)] rehouses_linked [OF _ assms(5)] attach(2) show ?thesis
      by (auto split: sum.splits)
  next
    case (insert adm seg latest q)
    let ?l = "st_log_id (ad_target adm)" and ?a = "oh_verifying_key ?h"
    have adm: "pr_admit P oper = Inr adm" "ro_hash oper = cd_header_hash E ?h"
      using insert(1) by (auto simp: preflight_def split: option.splits if_splits sum.splits)
    obtain p where p: "log_prefix E ?a ?l = Inr p" using insert(2) by (simp add: log_prefix_def)
    note front = frontier_extended [OF assms(1-4) p insert(3,4)]
    have "prunes (ad_history adm) \<longrightarrow> (\<forall>j \<in> set (ad_erase_payloads adm). \<not> pruned_id E (view s) ?a ?l (oh_seq_num ?h) j)"
      using assms(7) [OF adm(1)] by (simp add: erases_kept_def)
    note ins = insert_view [OF assms(1,4,3) insert(5) adm(2) refl this]
    show ?thesis
    proof (cases "\<exists>x. q = Inr (True, x)")
      case False
      with ins have "inv s'" "view s' = view s" by auto
      with False assms(4,5) insert(6) show ?thesis
        by (auto simp: rehouses_refl split: sum.splits)
    next
      case True
      with ins have i: "inv s'" "view s (op_ptr E (ro_hash oper)) = None"
        "insert_effect E (view s) ?a ?l ?h (ro_body oper) (prunes (ad_history adm)) (view s')" by auto
      have "log_entry E (view s) ?a ?l (oh_seq_num ?h) = None"
      proof (rule ccontr)
        assume "log_entry E (view s) ?a ?l (oh_seq_num ?h) \<noteq> None"
        then have "log_header E (view s) ?a ?l (oh_seq_num ?h) \<noteq> None" by (simp add: log_header_def)
        with front show False by blast
      qed
      then have "store_ok E (view s')"
        using effect_store_ok [OF assms(1,4) i(3)] i(2) adm(2) by simp
      moreover have "linked E (view s')"
        using effect_linked [OF assms(1,4,5) i(3)] front by blast
      ultimately show ?thesis using i adm front True insert(6) by auto
    qed
  qed
qed

end

end
