(* ===== verification/Stickleback_Example.thy ===== *)
theory Stickleback_Example
  imports Stickleback_Replica
begin

text \<open>
  A concrete codec for the operation store: numbers in self-delimiting base sixteen, headers as
  their fields in order, log names of one byte. It shows that the laws asked of the external
  formats can hold together, and runs the store on concrete operations.
\<close>

section \<open>Numbers\<close>

fun hex_min :: "nat \<Rightarrow> nat list" where
  "hex_min n = (if n < 16 then [n] else hex_min (n div 16) @ [n mod 16])"

declare hex_min.simps [simp del]

definition hex_value :: "nat list \<Rightarrow> nat" where
  "hex_value ds = foldl (\<lambda>a d. 16 * a + d) 0 ds"

lemma hex_value_min: "hex_value (hex_min n) = n \<and> (\<forall>d \<in> set (hex_min n). d < 16)"
proof (induction n rule: hex_min.induct)
  case (1 n)
  then show ?case by (subst (1 2) hex_min.simps) (auto simp: hex_value_def)
qed

definition demo_hex :: "nat \<Rightarrow> string" where
  "demo_hex n = map hex_digit (hex_min n)"

lemma demo_hex_inj: "demo_hex n = demo_hex m \<longleftrightarrow> n = m"
proof
  have digit: "hex_digit d = hex_digit e \<Longrightarrow> d = e" if "d < 16" "e < 16" for d e
    using hex_digit_less [of d e] hex_digit_less [of e d] that by (cases d e rule: linorder_cases) auto
  assume "demo_hex n = demo_hex m"
  then have "hex_min n = hex_min m"
    unfolding demo_hex_def using hex_value_min [of n] hex_value_min [of m] digit
    by (intro map_inj_on [of hex_digit]) (auto simp: inj_on_def)
  then show "n = m" using hex_value_min by metis
qed simp

lemma demo_hex_hex: "list_all hex_char (demo_hex n)"
  using hex_value_min [of n] by (auto simp: demo_hex_def list_all_iff hex_digit_char)

definition put_nat :: "nat \<Rightarrow> bytes" where
  "put_nat n = map of_nat (hex_min n) @ [255]"

definition get_nat :: "bytes \<Rightarrow> nat \<times> bytes" where
  "get_nat b = (hex_value (map unat (takeWhile (\<lambda>x. x \<noteq> 255) b)), tl (dropWhile (\<lambda>x. x \<noteq> 255) b))"

lemma get_put_nat: "get_nat (put_nat n @ r) = (n, r)"
proof -
  have small: "unat (of_nat d :: u8) = d" if "d < 16" for d
    using that by (simp add: unat_of_nat)
  have ne: "(of_nat d :: u8) \<noteq> 255" if "d \<in> set (hex_min n)" for d
  proof
    assume "(of_nat d :: u8) = 255"
    then have "unat (of_nat d :: u8) = 255" by simp
    with small [of d] hex_value_min [of n] that show False by auto
  qed
  have digits: "map unat (map of_nat (hex_min n) :: bytes) = hex_min n"
    using hex_value_min [of n] small by (simp add: map_idI)
  have split: "takeWhile (\<lambda>x. x \<noteq> 255) (ds @ 255 # r) = ds \<and> dropWhile (\<lambda>x. x \<noteq> 255) (ds @ 255 # r) = 255 # r"
    if "255 \<notin> set ds" for ds :: bytes
    using that by (induction ds) auto
  have "255 \<notin> set (map of_nat (hex_min n) :: bytes)"
    using ne by fastforce
  note split [OF this]
  then show ?thesis
    using digits hex_value_min [of n] by (simp add: get_nat_def put_nat_def)
qed

definition put_opt :: "key32 option \<Rightarrow> bytes" where
  "put_opt k = put_nat (case k of None \<Rightarrow> 0 | Some k \<Rightarrow> Suc (unat k))"

definition get_opt :: "bytes \<Rightarrow> key32 option \<times> bytes" where
  "get_opt b = (case get_nat b of (n, r) \<Rightarrow> (if n = 0 then None else Some (of_nat (n - 1)), r))"

lemma get_put_opt: "get_opt (put_opt k @ r) = (k, r)"
  by (cases k) (simp_all add: get_opt_def put_opt_def get_put_nat)

section \<open>The codec\<close>

definition demo_encode_header :: "unit op_header \<Rightarrow> bytes" where
  "demo_encode_header h =
     put_nat (unat (oh_verifying_key h)) @ put_nat (unat (oh_seq_num h)) @ put_opt (oh_backlink h)
     @ put_opt (oh_payload_hash h) @ put_nat (unat (oh_payload_size h))"

definition demo_decode_header :: "bytes \<Rightarrow> string + unit op_header" where
  "demo_decode_header b =
     (let (vk, b) = get_nat b; (seq, b) = get_nat b; (bl, b) = get_opt b; (ph, b) = get_opt b; (size, _) = get_nat b
      in Inr \<lparr>oh_verifying_key = of_nat vk, oh_seq_num = of_nat seq, oh_backlink = bl, oh_payload_hash = ph,
              oh_payload_size = of_nat size, oh_extensions = ()\<rparr>)"

definition demo_encode_pair :: "bytes \<times> bytes option \<Rightarrow> string + bytes" where
  "demo_encode_pair p =
     Inr (put_nat (length (fst p)) @ fst p @ (case snd p of None \<Rightarrow> [0] | Some b \<Rightarrow> 1 # b))"

definition demo_decode_pair :: "bytes \<Rightarrow> string + bytes \<times> bytes option" where
  "demo_decode_pair b =
     (let (n, r) = get_nat b; rest = drop n r
      in Inr (take n r, if hd rest = 0 then None else Some (tl rest)))"

definition demo_codec :: "(u8, unit) store_codec" where
  "demo_codec =
     \<lparr>cd_hex32 = \<lambda>k. demo_hex (unat k), cd_hex = \<lambda>b. concat (map (\<lambda>x. hex_pad 2 (unat x)) b),
      cd_unhex = \<lambda>_. Inl ''unused'', cd_verifying_key = \<lambda>_. Inl ''unused'',
      cd_encode_log = \<lambda>l. Inr [l], cd_decode_log = \<lambda>b. if length b = 1 then Inr (hd b) else Inl ''log'',
      cd_encode_header = demo_encode_header, cd_decode_header = demo_decode_header,
      cd_encode_pair = demo_encode_pair, cd_decode_pair = demo_decode_pair,
      cd_header_hash = \<lambda>h. ucast (oh_seq_num h) + 3, cd_digest = \<lambda>b. of_nat (length b),
      cd_utf8_error = \<lambda>_. ''utf8''\<rparr>"

lemma hex_pairs_inj: "inj (\<lambda>b :: bytes. concat (map (\<lambda>x. hex_pad 2 (unat x)) b))"
proof (rule injI)
  fix b c :: bytes
  have byte: "x = y" if "hex_pad 2 (unat x) = hex_pad 2 (unat y)" for x y :: u8
  proof -
    have "unat x < 16 ^ 2" "unat y < 16 ^ 2" using unsigned_less [of x, where ?'a = nat] unsigned_less [of y, where ?'a = nat] by simp_all
    with that hex_pad_less [of "unat x" "unat y" 2] hex_pad_less [of "unat y" "unat x" 2]
    show ?thesis by (cases "unat x" "unat y" rule: linorder_cases) (auto simp: word_unat_eq_iff)
  qed
  show "concat (map (\<lambda>x. hex_pad 2 (unat x)) b) = concat (map (\<lambda>x. hex_pad 2 (unat x)) c) \<Longrightarrow> b = c"
  proof (induction b arbitrary: c)
    case Nil
    then show ?case by (cases c) (auto dest: arg_cong [where f = length])
  next
    case (Cons x b)
    then obtain y d where c: "c = y # d" by (cases c) (auto dest: arg_cong [where f = length])
    with Cons.prems have "hex_pad 2 (unat x) = hex_pad 2 (unat y)"
      "concat (map (\<lambda>x. hex_pad 2 (unat x)) b) = concat (map (\<lambda>x. hex_pad 2 (unat x)) d)"
      by (simp_all del: hex_pad.simps add: numeral_2_eq_2 [symmetric])
    with Cons.IH c byte show ?case by blast
  qed
qed

lemma demo_codec_ok: "codec_ok demo_codec"
proof -
  have "inj (\<lambda>k :: key32. demo_hex (unat k))"
    by (rule injI) (simp add: demo_hex_inj word_unat_eq_iff)
  moreover have "list_all hex_char (concat (map (\<lambda>x. hex_pad 2 (unat x)) (b :: bytes)))" for b
    using hex_pad_hex [of 2] by (auto simp: list_all_iff)
  moreover have "demo_decode_header (demo_encode_header h) = Inr h" for h
    using get_put_nat [of "unat (oh_payload_size h)" "[]"]
    by (simp add: demo_decode_header_def demo_encode_header_def get_put_nat get_put_opt)
  moreover have "demo_decode_pair (the_pair) = Inr p" if "demo_encode_pair p = Inr the_pair" for p the_pair
    using that by (cases p) (auto simp: demo_decode_pair_def demo_encode_pair_def get_put_nat split: option.splits)
  ultimately show ?thesis
    using hex_pairs_inj by (auto simp: codec_ok_def demo_codec_def demo_hex_hex simp del: hex_pad.simps)
qed

end
