(* ===== verification/Stickleback_History.thy ===== *)
theory Stickleback_History
  imports Stickleback_Example
begin

text \<open>
  Results on the operation store and its processor: logs stay linked over any sequence of processed
  operations, an inserted operation is found again, a history that is never pruned is the unbroken
  history that authoring relies on, what authoring proposes the processor accepts, and pruning
  together with erasure leaves an entry behind.
\<close>

section \<open>Sequences of operations\<close>

text \<open>A replica that receives operations one after another, whatever each attempt returns.\<close>

definition process_all ::
  "'s backend \<Rightarrow> ('l, 'x) store_codec \<Rightarrow> ('l, 'x) processor \<Rightarrow> 'x replica_op list \<Rightarrow> 's \<Rightarrow> 's" where
  "process_all B E P ops s = fold (\<lambda>oper s. snd (process B E P oper s)) ops s"

text \<open>A policy that never prunes and erases with one decision, and one that never prunes.\<close>

definition one_effect :: "('l, 'x) processor \<Rightarrow> bool" where
  "one_effect P \<longleftrightarrow>
     (\<forall>oper adm. pr_admit P oper = Inr adm \<longrightarrow> ad_history adm = KeepHistory \<or> ad_erase_payloads adm = [])"

definition keeps_history :: "('l, 'x) processor \<Rightarrow> bool" where
  "keeps_history P \<longleftrightarrow> (\<forall>oper adm. pr_admit P oper = Inr adm \<longrightarrow> ad_history adm = KeepHistory)"

lemma keeps_one_effect: "keeps_history P \<Longrightarrow> one_effect P"
  by (simp add: keeps_history_def one_effect_def)

lemma one_effect_erases: "one_effect P \<Longrightarrow> pr_admit P oper = Inr adm \<Longrightarrow> erases_kept E v adm h"
  unfolding one_effect_def erases_kept_def by (cases "ad_history adm") force+

text \<open>Every entry is the first of its log or follows the one it links back to.\<close>

definition rooted :: "('l, 'x) store_codec \<Rightarrow> (string \<rightharpoonup> bytes) \<Rightarrow> bool" where
  "rooted E v \<longleftrightarrow>
     (\<forall>a l n h. log_header E v a l n = Some h \<longrightarrow>
        n = 0 \<or> (\<exists>h'. log_header E v a l (n - 1) = Some h' \<and> oh_backlink h = Some (cd_header_hash E h')))"

definition replica_ok :: "('l, 'x) store_codec \<Rightarrow> (string \<rightharpoonup> bytes) \<Rightarrow> bool" where
  "replica_ok E v \<longleftrightarrow> store_ok E v \<and> linked E v"

lemma log_header_empty: "log_header E Map.empty a l n = None"
  by (simp add: log_header_def log_entry_def split: sum.splits)

lemma replica_ok_empty: "replica_ok E Map.empty" "rooted E Map.empty"
  by (simp_all add: replica_ok_def store_ok_def linked_def rooted_def log_header_empty)

lemma effect_rooted:
  assumes "codec_ok E" "store_ok E v" "rooted E v" "insert_effect E v a l h body False v'"
    and "\<forall>m. log_header E v a l m \<noteq> None \<longrightarrow> m < oh_seq_num h"
    and "oh_seq_num h = 0 \<or> (\<exists>h'. log_header E v a l (oh_seq_num h - 1) = Some h' \<and> oh_backlink h = Some (cd_header_hash E h'))"
  shows "rooted E v'"
  unfolding rooted_def
proof (intro allI impI)
  note header = effect_header [OF assms(1,2,4)]
  have grows: "log_header E v' a' l' m = Some g" if "log_header E v a' l' m = Some g" for a' l' m g
    using that assms(5) header [of a' l' m] by (auto split: if_splits)
  fix a' l' m g
  assume g: "log_header E v' a' l' m = Some g"
  show "m = 0 \<or> (\<exists>h'. log_header E v' a' l' (m - 1) = Some h' \<and> oh_backlink g = Some (cd_header_hash E h'))"
  proof (cases "a' = a \<and> l' = l \<and> m = oh_seq_num h")
    case True
    with g header assms(6) grows show ?thesis by auto
  next
    case False
    with g header [of a' l' m] have "log_header E v a' l' m = Some g" by auto
    with assms(3) grows show ?thesis unfolding rooted_def by blast
  qed
qed

context backend_laws
begin

lemma process_ok:
  assumes "codec_ok E" "backlink_ok E P" "one_effect P" "inv s" "replica_ok E (view s)"
  shows "inv (snd (process B E P oper s)) \<and> replica_ok E (view (snd (process B E P oper s)))"
proof -
  obtain r s' where run: "process B E P oper s = (r, s')" by fastforce
  have ok: "store_ok E (view s)" "linked E (view s)" using assms(5) by (simp_all add: replica_ok_def)
  have "erases_kept E (view s) adm (ro_header oper)" if "pr_admit P oper = Inr adm" for adm
    using one_effect_erases [OF assms(3) that] .
  from process_step [OF assms(1,2,4) ok run this] run show ?thesis by (simp add: replica_ok_def)
qed

lemma process_all_ok:
  assumes "codec_ok E" "backlink_ok E P" "one_effect P" "inv s" "replica_ok E (view s)"
  shows "inv (process_all B E P ops s) \<and> replica_ok E (view (process_all B E P ops s))"
  using assms(4,5)
proof (induction ops arbitrary: s)
  case (Cons oper ops)
  with process_ok [OF assms(1-3) Cons.prems, of oper] show ?case by (simp add: process_all_def)
qed (simp add: process_all_def)

lemma process_rooted:
  assumes "codec_ok E" "backlink_ok E P" "keeps_history P" "inv s" "replica_ok E (view s)" "rooted E (view s)"
  shows "rooted E (view (snd (process B E P oper s)))"
proof -
  obtain r s' where run: "process B E P oper s = (r, s')" by fastforce
  have ok: "store_ok E (view s)" "linked E (view s)" using assms(5) by (simp_all add: replica_ok_def)
  have "erases_kept E (view s) adm (ro_header oper)" if "pr_admit P oper = Inr adm" for adm
    using one_effect_erases [OF keeps_one_effect [OF assms(3)] that] .
  note step = process_step [OF assms(1,2,4) ok run this]
  show ?thesis
  proof (cases "\<exists>x y. r = Inr (Inserted x y)")
    case True
    with step obtain adm where i: "pr_admit P oper = Inr adm"
      "insert_effect E (view s) (oh_verifying_key (ro_header oper)) (st_log_id (ad_target adm))
         (ro_header oper) (ro_body oper) (prunes (ad_history adm)) (view s')"
      "\<forall>m. log_header E (view s) (oh_verifying_key (ro_header oper)) (st_log_id (ad_target adm)) m \<noteq> None
         \<longrightarrow> m < oh_seq_num (ro_header oper)"
      "prunes (ad_history adm) \<or> oh_seq_num (ro_header oper) = 0
         \<or> (\<exists>h'. log_header E (view s) (oh_verifying_key (ro_header oper)) (st_log_id (ad_target adm))
                  (oh_seq_num (ro_header oper) - 1) = Some h' \<and> oh_backlink (ro_header oper) = Some (cd_header_hash E h'))"
      by auto
    have "\<not> prunes (ad_history adm)" using assms(3) i(1) by (simp add: keeps_history_def)
    then show ?thesis using effect_rooted [OF assms(1) ok(1) assms(6)] i(2-4) run by simp
  next
    case False
    with step have "view s' = view s \<or> rehouses E (view s) (view s')"
      by (cases r) (auto split: process_outcome.splits)
    then have "log_header E (view s') a l n = log_header E (view s) a l n" for a l n
      using rehouses_header by metis
    with assms(6) run show ?thesis by (simp add: rooted_def)
  qed
qed

lemma process_all_rooted:
  assumes "codec_ok E" "backlink_ok E P" "keeps_history P" "inv s" "replica_ok E (view s)" "rooted E (view s)"
  shows "rooted E (view (process_all B E P ops s))"
  using assms(4-6)
proof (induction ops arbitrary: s)
  case (Cons oper ops)
  with process_ok [OF assms(1,2) keeps_one_effect [OF assms(3)] Cons.prems(1,2), of oper]
    process_rooted [OF assms(1-3) Cons.prems, of oper] show ?case
    by (simp add: process_all_def)
qed (simp add: process_all_def)

lemma inserted_found:
  assumes "codec_ok E" "inv s" "store_ok E (view s)" "ro_hash oper = cd_header_hash E (ro_header oper)"
    and "insert_effect E v (oh_verifying_key (ro_header oper)) l (ro_header oper) (ro_body oper) prune (view s)"
    and "\<forall>m. log_header E (view s) (oh_verifying_key (ro_header oper)) l m \<noteq> None \<longrightarrow> m \<le> oh_seq_num (ro_header oper)"
  shows "get_operation B E (ro_hash oper) s = Inr (Some oper)"
    "get_latest_entry B E (oh_verifying_key (ro_header oper)) l s = Inr (Some oper)"
proof -
  let ?h = "ro_header oper"
  obtain p where p: "log_prefix E (oh_verifying_key ?h) l = Inr p" using assms(5) unfolding insert_effect_def by blast
  from effect_new [OF assms(5) p] obtain blob where
    new: "view s (p @ seq_hex (oh_seq_num ?h)) = Some blob" "decode_blob E blob = Inr (?h, ro_body oper)"
      "view s (op_ptr E (cd_header_hash E ?h)) = Some (str_bytes (p @ seq_hex (oh_seq_num ?h)))" .
  have oper: "replica_of E (?h, ro_body oper) = oper" using assms(4) by (simp add: replica_of_def)
  have entry: "log_entry E (view s) (oh_verifying_key ?h) l (oh_seq_num ?h) = Some (?h, ro_body oper)"
    using p new by (simp add: log_entry_def)
  have "decode_op E blob = Inr oper" using new(2) assms(4) by (simp add: decode_op_def)
  then show "get_operation B E (ro_hash oper) s = Inr (Some oper)"
    using new assms(4) log_key_ascii [OF assms(1) p, of E]
    by (simp add: get_operation_def log_key_for_def get_view)
  from latest_entry [OF assms(1,3,2) p] entry obtain n e where
    e: "get_latest_entry B E (oh_verifying_key ?h) l s = Inr (Some (replica_of E e))"
      "log_entry E (view s) (oh_verifying_key ?h) l n = Some e"
      "oh_seq_num ?h \<le> n" by auto
  moreover have "n \<le> oh_seq_num ?h" using assms(6) e(2) by (simp add: log_header_def)
  ultimately have "e = (?h, ro_body oper)" using entry by simp
  with e(1) oper show "get_latest_entry B E (oh_verifying_key ?h) l s = Inr (Some oper)" by simp
qed

end

section \<open>The replica as a causal history\<close>

definition signed_of :: "('l, 'x) store_codec \<Rightarrow> 'x op_header \<Rightarrow> signed_operation" where
  "signed_of E h =
     \<lparr>so_hash = cd_header_hash E h, so_verifying_key = oh_verifying_key h, so_seq_num = oh_seq_num h,
      so_backlink = oh_backlink h, so_payload_size = oh_payload_size h\<rparr>"

definition store_history ::
  "('l, 'x) store_codec \<Rightarrow> ('x op_header \<Rightarrow> key32 list) \<Rightarrow> (string \<rightharpoonup> bytes) \<Rightarrow> 'l causal_entry set" where
  "store_history E parents v =
     {entry_of_operation (signed_of E h) l (parents h) | a l n h. log_header E v a l n = Some h}"

lemma history_entry:
  assumes "codec_ok E" "store_ok E v"
  shows "e \<in> store_history E parents v \<longleftrightarrow>
    (\<exists>h. log_header E v (ce_author e) (ce_log_id e) (ce_seq_num e) = Some h
       \<and> e = entry_of_operation (signed_of E h) (ce_log_id e) (parents h))"
proof -
  have "oh_verifying_key h = a \<and> oh_seq_num h = n" if "log_header E v a l n = Some h" for a l n h
    using that log_entry_names [OF assms] by (auto simp: log_header_def)
  then show ?thesis
    unfolding store_history_def by (auto simp: entry_of_operation_def signed_of_def)
qed

lemma history_chained:
  assumes "codec_ok E" "store_ok E v" "rooted E v"
  shows "chained (store_history E parents v)"
  unfolding chained_def
proof (intro ballI impI)
  fix e assume "e \<in> store_history E parents v" "ce_seq_num e \<noteq> 0"
  then obtain h where h: "log_header E v (ce_author e) (ce_log_id e) (ce_seq_num e) = Some h"
    "e = entry_of_operation (signed_of E h) (ce_log_id e) (parents h)" "ce_seq_num e \<noteq> 0"
    using history_entry [OF assms(1,2)] by metis
  then obtain g where g: "log_header E v (ce_author e) (ce_log_id e) (ce_seq_num e - 1) = Some g"
    "oh_backlink h = Some (cd_header_hash E g)"
    using assms(3) unfolding rooted_def by metis
  have names: "oh_verifying_key g = ce_author e" "oh_seq_num g = ce_seq_num e - 1"
    using g(1) log_entry_names [OF assms(1,2)] by (auto simp: log_header_def)
  let ?p = "entry_of_operation (signed_of E g) (ce_log_id e) (parents g)"
  have "?p \<in> store_history E parents v" unfolding store_history_def using g(1) by blast
  moreover have "same_log ?p e" "ce_seq_num ?p = ce_seq_num e - 1" "ce_operation ?p = cd_header_hash E g"
    using names by (simp_all add: same_log_def entry_of_operation_def signed_of_def)
  moreover have "ce_backlink e = Some (cd_header_hash E g)"
    using g(2) by (subst h(2)) (simp add: entry_of_operation_def signed_of_def)
  ultimately show "\<exists>p \<in> store_history E parents v. same_log p e \<and> ce_seq_num p = ce_seq_num e - 1
      \<and> ce_backlink e = Some (ce_operation p)" by metis
qed

lemma history_unforked:
  assumes "codec_ok E" "store_ok E v"
  shows "\<nexists>n. forked (store_history E parents v) n"
proof
  assume "\<exists>n. forked (store_history E parents v) n"
  then obtain x y where xy: "x \<in> store_history E parents v" "y \<in> store_history E parents v"
    "ce_author x = ce_author y" "ce_log_id x = ce_log_id y" "ce_seq_num x = ce_seq_num y" "ce_operation x \<noteq> ce_operation y"
    unfolding forked_def by metis
  with history_entry [OF assms] have "x = y" by (metis option.inject)
  with xy(6) show False by simp
qed

lemma history_pointer:
  assumes "codec_ok E" "store_ok E v" "v (op_ptr E i) \<noteq> None"
  shows "i \<in> ce_operation ` store_history E parents v"
proof -
  obtain b where "v (op_ptr E i) = Some b" using assms(3) by blast
  from pointer_entry [OF assms(2) this] obtain a l n h body where
    e: "log_entry E v a l n = Some (h, body)" "cd_header_hash E h = i" by metis
  then have "entry_of_operation (signed_of E h) l (parents h) \<in> store_history E parents v"
    unfolding store_history_def log_header_def by force
  then show ?thesis using e(2) by (force simp: entry_of_operation_def signed_of_def)
qed

lemma history_insert:
  assumes "codec_ok E" "store_ok E v" "insert_effect E v (oh_verifying_key h) l h body False v'"
    and "log_header E v (oh_verifying_key h) l (oh_seq_num h) = None"
  shows "store_history E parents v' =
    insert (entry_of_operation (signed_of E h) l (parents h)) (store_history E parents v)"
proof -
  have "log_header E v' a l' n = Some g \<longleftrightarrow>
      a = oh_verifying_key h \<and> l' = l \<and> n = oh_seq_num h \<and> g = h \<or> log_header E v a l' n = Some g" for a l' n g
    using effect_header [OF assms(1-3), of a l' n] assms(4) by auto
  then show ?thesis by (auto simp: store_history_def)
qed

section \<open>Authoring against the processor\<close>

text \<open>The log format accepts exactly the next operation of the same author's log.\<close>

definition backlink_exact :: "('l, 'x) store_codec \<Rightarrow> ('l, 'x) processor \<Rightarrow> bool" where
  "backlink_exact E P \<longleftrightarrow>
     (\<forall>p h. pr_backlink P (Some p) h False = None \<longleftrightarrow>
        oh_verifying_key h = oh_verifying_key p \<and> oh_seq_num h = oh_seq_num p + 1
        \<and> oh_backlink h = Some (cd_header_hash E p))"

lemma backlink_exact_ok: "backlink_exact E P \<Longrightarrow> backlink_ok E P"
  by (simp add: backlink_exact_def backlink_ok_def)

lemma next_above: "(n :: u32) \<noteq> - 1 \<Longrightarrow> n < n + 1"
proof -
  assume "n \<noteq> - 1"
  then have "1 + n \<noteq> 0" by (simp add: add_eq_0_iff)
  then show ?thesis using unatSuc [of n] by (simp add: word_less_nat_alt add.commute)
qed

context backend_laws
begin

lemma authored_extends:
  fixes es :: "'l::linorder causal_entry list"
  assumes "codec_ok E" "backlink_exact E P" "inv s" "store_ok E (view s)"
    and "set es = store_history E parents (view s)" "log_prefix E (oh_verifying_key (ro_header oper)) l = Inr p"
    and "author_head es (oh_verifying_key (ro_header oper)) l = Inr (oh_seq_num (ro_header oper), oh_backlink (ro_header oper))"
  shows "\<exists>latest. get_latest_entry B E (oh_verifying_key (ro_header oper)) l s = Inr latest
    \<and> extends_frontier P latest oper KeepHistory = Inr ()"
proof -
  let ?h = "ro_header oper" and ?a = "oh_verifying_key (ro_header oper)"
  have stored: "entry_of_operation (signed_of E g) l (parents g) \<in> set es" if "log_header E (view s) ?a l n = Some g" for n g
    unfolding assms(5) store_history_def using that by blast
  have names: "oh_verifying_key g = ?a \<and> oh_seq_num g = n" if "log_entry E (view s) ?a l n = Some (g, x)" for n g x
    using log_entry_names [OF assms(1,4) that] by simp
  note head = author_head_spec [OF assms(7)]
  from latest_entry [OF assms(1,4,3,6)] show ?thesis
  proof (elim disjE exE conjE)
    assume none: "get_latest_entry B E ?a l s = Inr None" "\<forall>n. log_entry E (view s) ?a l n = None"
    have "oh_seq_num ?h = 0"
    proof (cases "oh_backlink ?h")
      case (Some b)
      with head obtain e where "e \<in> set es" "ce_author e = ?a" "ce_log_id e = l" by (auto simp: is_head_def)
      with history_entry [OF assms(1,4)] assms(5) none(2) show ?thesis by (auto simp: log_header_def)
    qed (use head in simp)
    with none(1) show ?thesis by (simp add: extends_frontier_def)
  next
    fix n e
    assume e: "get_latest_entry B E ?a l s = Inr (Some (replica_of E e))" "log_entry E (view s) ?a l n = Some e"
      "\<forall>m. log_entry E (view s) ?a l m \<noteq> None \<longrightarrow> m \<le> n"
    obtain g x where gx: "e = (g, x)" by fastforce
    have g: "oh_verifying_key g = ?a" "oh_seq_num g = n" using names e(2) gx by auto
    have mine: "entry_of_operation (signed_of E g) l (parents g) \<in> set es"
      using stored [of n g] e(2) gx by (simp add: log_header_def)
    then obtain d where d: "is_head (set es) d" "ce_author d = ?a" "ce_log_id d = l"
      "oh_backlink ?h = Some (ce_operation d)" "oh_seq_num ?h = ce_seq_num d + 1" "ce_seq_num d \<noteq> - 1"
      using head g(1) by (cases "oh_backlink ?h") (auto simp: entry_of_operation_def signed_of_def)
    obtain h' where h': "log_header E (view s) ?a l (ce_seq_num d) = Some h'"
      "ce_operation d = cd_header_hash E h'"
    proof -
      have "d \<in> store_history E parents (view s)" using d(1) assms(5) by (simp add: is_head_def)
      then obtain h' where "log_header E (view s) ?a l (ce_seq_num d) = Some h'"
        "d = entry_of_operation (signed_of E h') l (parents h')"
        using history_entry [OF assms(1,4)] d(2,3) by metis
      then show thesis using that by (simp add: entry_of_operation_def signed_of_def)
    qed
    have "ce_seq_num d \<le> n" using e(3) h'(1) by (auto simp: log_header_def)
    moreover have "n \<le> ce_seq_num d"
      using d(1-3) mine g by (auto simp: is_head_def same_log_def entry_of_operation_def signed_of_def)
    ultimately have seq: "ce_seq_num d = n" by simp
    then have "h' = g" using h'(1) e(2) gx by (simp add: log_header_def)
    then have "pr_backlink P (Some g) ?h False = None"
      using assms(2) d(4,5) g h'(2) seq by (simp add: backlink_exact_def)
    moreover have "n < oh_seq_num ?h" using d(5,6) seq next_above by simp
    ultimately have "extends_frontier P (Some (replica_of E e)) oper KeepHistory = Inr ()"
      using g(2) gx by (simp add: extends_frontier_def replica_of_def Let_def)
    with e(1) show ?thesis by blast
  qed
qed

lemma keep_insert_writes:
  assumes "view s (op_ptr E (ro_hash oper)) = None" "log_seg E l = Inr seg" "encode_op E oper = Inr blob"
  obtains ws where "insert_indexed_operation_with_effects B E topic oper l False [] s = apply_result B ws (True, 0, 0) s"
  using assms by (simp add: insert_indexed_operation_with_effects_def insert_plan_def get_view Let_def topic_key_def
      log_prefix_def)

lemma process_keep:
  assumes "preflight E P oper = Inr adm" "ad_history adm = KeepHistory" "ad_erase_payloads adm = []"
    and "log_seg E (st_log_id (ad_target adm)) = Inr seg" "encode_op E oper = Inr blob"
    and "view s (op_ptr E (ro_hash oper)) = None"
    and "get_latest_entry B E (oh_verifying_key (ro_header oper)) (st_log_id (ad_target adm)) s = Inr latest"
    and "extends_frontier P latest oper KeepHistory = Inr ()"
  obtains ws where "process B E P oper s =
    (case apply_result B ws (True, 0 :: u64, 0 :: u64) s of
       (Inl e, s') \<Rightarrow> (Inl (StoreFailure e), s')
     | (Inr x, s') \<Rightarrow> (Inr (if fst x then Inserted (fst (snd x)) (snd (snd x)) else Duplicate), s'))"
proof -
  from keep_insert_writes [OF assms(6,4,5)] obtain ws where
    ws: "insert_indexed_operation_with_effects B E (st_topic (ad_target adm)) oper (st_log_id (ad_target adm)) False [] s
      = apply_result B ws (True, 0, 0) s" .
  have "process B E P oper s =
    (case apply_result B ws (True, 0 :: u64, 0 :: u64) s of
       (Inl e, s') \<Rightarrow> (Inl (StoreFailure e), s')
     | (Inr x, s') \<Rightarrow> (Inr (if fst x then Inserted (fst (snd x)) (snd (snd x)) else Duplicate), s'))"
    using assms ws by (simp add: process_def has_operation_def get_view split: prod.splits sum.splits)
  with that show thesis .
qed

end

section \<open>Results\<close>

lemma replica_reached:
  assumes "codec_ok E" "backlink_ok E P" "one_effect P"
  shows "bt_inv (process_all memory_backend E P ops [])" "store_ok E (bt_get (process_all memory_backend E P ops []))"
    "linked E (bt_get (process_all memory_backend E P ops []))"
proof -
  have "bt_get ([] :: memory) = Map.empty" by (auto simp: bt_get_def)
  then have "bt_inv ([] :: memory)" "replica_ok E (bt_get [])" by (simp_all add: replica_ok_empty bt_inv_def)
  from mem.process_all_ok [OF assms this, of ops]
  show "bt_inv (process_all memory_backend E P ops [])" "store_ok E (bt_get (process_all memory_backend E P ops []))"
    "linked E (bt_get (process_all memory_backend E P ops []))" by (simp_all add: replica_ok_def)
qed

lemma replica_rooted:
  assumes "codec_ok E" "backlink_ok E P" "keeps_history P"
  shows "rooted E (bt_get (process_all memory_backend E P ops []))"
proof -
  have "bt_get ([] :: memory) = Map.empty" by (auto simp: bt_get_def)
  then have "bt_inv ([] :: memory)" "replica_ok E (bt_get [])" "rooted E (bt_get [])"
    by (simp_all add: replica_ok_empty bt_inv_def)
  from mem.process_all_rooted [OF assms this] show ?thesis .
qed

definition demo_header :: "u32 \<Rightarrow> key32 option \<Rightarrow> unit op_header" where
  "demo_header n back =
     \<lparr>oh_verifying_key = 5, oh_seq_num = n, oh_backlink = back, oh_payload_hash = Some 2, oh_payload_size = 2,
      oh_extensions = ()\<rparr>"

definition demo_op :: "u32 \<Rightarrow> key32 option \<Rightarrow> unit replica_op" where
  "demo_op n back =
     \<lparr>ro_hash = cd_header_hash demo_codec (demo_header n back), ro_header = demo_header n back, ro_body = Some [7, 8]\<rparr>"

definition demo_processor :: "u8 admission \<Rightarrow> (u8, unit) processor" where
  "demo_processor adm =
     \<lparr>pr_validate = \<lambda>_. None,
      pr_backlink = \<lambda>p h prune.
        (case p of
           None \<Rightarrow> None
         | Some p \<Rightarrow>
             if prune \<or> oh_verifying_key h = oh_verifying_key p \<and> oh_seq_num h = oh_seq_num p + 1
                  \<and> oh_backlink h = Some (cd_header_hash demo_codec p)
             then None else Some ''backlink''),
      pr_admit = \<lambda>_. Inr adm\<rparr>"

abbreviation "demo_target \<equiv> \<lparr>st_topic = 4, st_log_id = 6 :: u8\<rparr>"

abbreviation "demo_keep \<equiv> demo_processor (admission_keep demo_target)"

lemma demo_processor_exact: "backlink_exact demo_codec (demo_processor adm)"
  by (simp add: backlink_exact_def demo_processor_def)

lemmas demo_processor_ok = backlink_exact_ok [OF demo_processor_exact]

lemma demo_keep_history: "keeps_history demo_keep"
  by (simp add: keeps_history_def demo_processor_def admission_keep_def)

text \<open>
  C16. Whatever operations a replica receives, in whatever order and however each attempt ends, its
  store keeps every log key holding the entry its name announces with a pointer to it, every pointer
  leading to the operation it names, and every retained log linked: an entry is the first one kept
  or carries the hash of its stored predecessor. This holds for a policy that never prunes and erases
  in one decision, a codec that decodes what it encodes, and a backlink check that does what it
  documents.
\<close>

theorem processed_logs_stay_linked:
  assumes "codec_ok E" "backlink_ok E P" "one_effect P"
  shows "store_ok E (bt_get (process_all memory_backend E P ops []))
    \<and> linked E (bt_get (process_all memory_backend E P ops []))"
  using replica_reached [OF assms] by simp

theorem processed_logs_stay_linked_witness:
  "store_ok demo_codec (bt_get (process_all memory_backend demo_codec demo_keep [demo_op 2 None, demo_op 0 None, demo_op 1 (Some 3)] []))
   \<and> linked demo_codec (bt_get (process_all memory_backend demo_codec demo_keep [demo_op 2 None, demo_op 0 None, demo_op 1 (Some 3)] []))"
  by (rule processed_logs_stay_linked [OF demo_codec_ok demo_processor_ok keeps_one_effect [OF demo_keep_history]])

text \<open>
  C17. An operation reported as inserted is returned by its hash and is the latest entry of its log;
  exactly the entries before it are gone when its admission prunes, and nothing else changes in any
  log. An operation that is refused leaves the whole store as it was, and a repeated one
  leaves every log as it was. Here too the policy never prunes and erases in one decision.
\<close>

theorem processed_operation_effect:
  assumes "codec_ok E" "backlink_ok E P" "one_effect P" "s = process_all memory_backend E P ops []"
    and "process memory_backend E P oper s = (r, s')"
  shows "case r of
      Inl _ \<Rightarrow> bt_get s' = bt_get s
    | Inr (Inserted _ _) \<Rightarrow>
        (\<exists>adm. pr_admit P oper = Inr adm
          \<and> get_operation memory_backend E (ro_hash oper) s' = Inr (Some oper)
          \<and> get_latest_entry memory_backend E (oh_verifying_key (ro_header oper)) (st_log_id (ad_target adm)) s' = Inr (Some oper)
          \<and> (\<forall>a l m. log_header E (bt_get s') a l m =
               (if a = oh_verifying_key (ro_header oper) \<and> l = st_log_id (ad_target adm) \<and> m = oh_seq_num (ro_header oper)
                then Some (ro_header oper)
                else if prunes (ad_history adm) \<and> a = oh_verifying_key (ro_header oper) \<and> l = st_log_id (ad_target adm)
                        \<and> m < oh_seq_num (ro_header oper)
                then None
                else log_header E (bt_get s) a l m)))
    | Inr _ \<Rightarrow> (\<forall>a l m. log_header E (bt_get s') a l m = log_header E (bt_get s) a l m)"
proof -
  have ok: "bt_inv s" "store_ok E (bt_get s)" "linked E (bt_get s)"
    using replica_reached [OF assms(1-3)] assms(4) by simp_all
  have "erases_kept E (bt_get s) adm (ro_header oper)" if "pr_admit P oper = Inr adm" for adm
    using one_effect_erases [OF assms(3) that] .
  note step = mem.process_step [OF assms(1,2) ok assms(5) this]
  show ?thesis
  proof (cases "\<exists>x y. r = Inr (Inserted x y)")
    case True
    let ?a = "oh_verifying_key (ro_header oper)"
    from True step obtain adm where i: "pr_admit P oper = Inr adm" "ro_hash oper = cd_header_hash E (ro_header oper)"
      "insert_effect E (bt_get s) ?a (st_log_id (ad_target adm)) (ro_header oper) (ro_body oper) (prunes (ad_history adm)) (bt_get s')"
      "\<forall>m. log_header E (bt_get s) ?a (st_log_id (ad_target adm)) m \<noteq> None \<longrightarrow> m < oh_seq_num (ro_header oper)"
      by auto
    note header = effect_header [OF assms(1) ok(2) i(3)]
    have "\<forall>m. log_header E (bt_get s') ?a (st_log_id (ad_target adm)) m \<noteq> None \<longrightarrow> m \<le> oh_seq_num (ro_header oper)"
    proof (intro allI impI)
      fix m assume "log_header E (bt_get s') ?a (st_log_id (ad_target adm)) m \<noteq> None"
      with header i(4) show "m \<le> oh_seq_num (ro_header oper)"
        by (metis (no_types, lifting) order.refl order.strict_implies_order)
    qed
    from mem.inserted_found [OF assms(1) _ _ i(2,3) this] step True i(1) header show ?thesis by auto
  next
    case False
    with step rehouses_header [of E "bt_get s" "bt_get s'"] show ?thesis
      by (auto split: sum.splits process_outcome.splits)
  qed
qed

abbreviation "demo_first \<equiv> process_all memory_backend demo_codec demo_keep [demo_op 0 None] []"

lemma demo_second_inserted:
  "fst (process memory_backend demo_codec demo_keep (demo_op 1 (Some 3)) demo_first) = Inr (Inserted 0 0)"
  by code_simp

theorem processed_operation_effect_witness:
  "\<exists>s'. process memory_backend demo_codec demo_keep (demo_op 1 (Some 3)) demo_first = (Inr (Inserted 0 0), s')
     \<and> get_latest_entry memory_backend demo_codec 5 6 s' = Inr (Some (demo_op 1 (Some 3)))
     \<and> log_header demo_codec (bt_get s') 5 6 0 = log_header demo_codec (bt_get demo_first) 5 6 0"
proof -
  obtain s' where s': "process memory_backend demo_codec demo_keep (demo_op 1 (Some 3)) demo_first = (Inr (Inserted 0 0), s')"
    using demo_second_inserted by (metis prod.collapse)
  have "pr_admit demo_keep (demo_op 1 (Some 3)) = Inr (admission_keep demo_target)" by (simp add: demo_processor_def)
  with processed_operation_effect [OF demo_codec_ok demo_processor_ok keeps_one_effect [OF demo_keep_history] refl s']
  show ?thesis using s' by (simp add: demo_op_def demo_header_def admission_keep_def)
qed

text \<open>
  C19. Under a policy that never prunes, the operations a replica has stored form an unbroken and
  unforked causal history: every operation after the first of a log is preceded in the same log by
  the operation it links back to, and no log position carries two operations.
\<close>

theorem replicated_history_is_chained:
  assumes "codec_ok E" "backlink_ok E P" "keeps_history P"
  shows "chained (store_history E parents (bt_get (process_all memory_backend E P ops [])))
    \<and> (\<nexists>n. forked (store_history E parents (bt_get (process_all memory_backend E P ops []))) n)"
  using history_chained [OF assms(1) _ replica_rooted [OF assms]] history_unforked [OF assms(1)]
    replica_reached(2) [OF assms(1,2) keeps_one_effect [OF assms(3)]] by blast

theorem replicated_history_is_chained_witness:
  "chained (store_history demo_codec (\<lambda>_. []) (bt_get (process_all memory_backend demo_codec demo_keep [demo_op 0 None, demo_op 1 (Some 3)] [])))
   \<and> (\<nexists>n. forked (store_history demo_codec (\<lambda>_. []) (bt_get (process_all memory_backend demo_codec demo_keep [demo_op 0 None, demo_op 1 (Some 3)] []))) n)"
  by (rule replicated_history_is_chained [OF demo_codec_ok demo_processor_ok demo_keep_history])

text \<open>
  C18. What authoring proposes, the processor accepts, on a replica whose policy never prunes: for a
  history that lists what the replica has stored, an operation that is new to the history, has the
  sequence number and backlink that the author head gives, is admitted by the policy without
  erasing a payload, and can be encoded, is inserted, and the history then is the old one with this
  operation added.
\<close>

theorem authored_operation_is_inserted:
  fixes es :: "'l::linorder causal_entry list"
  assumes "codec_ok E" "backlink_exact E P" "keeps_history P" "s = process_all memory_backend E P ops []"
    and "set es = store_history E parents (bt_get s)" "ro_hash oper \<notin> ce_operation ` set es"
    and "preflight E P oper = Inr adm" "ad_erase_payloads adm = []"
    and "log_seg E (st_log_id (ad_target adm)) = Inr seg" "encode_op E oper = Inr blob"
    and "author_head es (oh_verifying_key (ro_header oper)) (st_log_id (ad_target adm)) =
      Inr (oh_seq_num (ro_header oper), oh_backlink (ro_header oper))"
  shows "\<exists>s'. process memory_backend E P oper s = (Inr (Inserted 0 0), s')
    \<and> store_history E parents (bt_get s') =
        insert (entry_of_operation (signed_of E (ro_header oper)) (st_log_id (ad_target adm)) (parents (ro_header oper))) (set es)"
proof -
  let ?h = "ro_header oper" and ?l = "st_log_id (ad_target adm)"
  note bl = backlink_exact_ok [OF assms(2)] and one = keeps_one_effect [OF assms(3)]
  have ok: "bt_inv s" "store_ok E (bt_get s)" "linked E (bt_get s)"
    using replica_reached [OF assms(1) bl one] assms(4) by simp_all
  have adm: "pr_admit P oper = Inr adm" "ad_history adm = KeepHistory"
    using assms(3,7) by (auto simp: preflight_def keeps_history_def split: option.splits if_splits sum.splits)
  have p: "log_prefix E (oh_verifying_key ?h) ?l = Inr (''log/'' @ cd_hex32 E (oh_verifying_key ?h) @ ''/'' @ seg @ ''/'')"
    using assms(9) by (simp add: log_prefix_def)
  obtain latest where latest: "get_latest_entry memory_backend E (oh_verifying_key ?h) ?l s = Inr latest"
    "extends_frontier P latest oper KeepHistory = Inr ()"
    using mem.authored_extends [OF assms(1,2) ok(1,2) assms(5) p assms(11)] by blast
  have new: "bt_get s (op_ptr E (ro_hash oper)) = None"
    using history_pointer [OF assms(1) ok(2)] assms(5,6) by metis
  from mem.process_keep [OF assms(7) adm(2) assms(8-10) new latest] obtain ws where
    "process memory_backend E P oper s = (case apply_result memory_backend ws (True, 0 :: u64, 0 :: u64) s of
       (Inl e, s') \<Rightarrow> (Inl (StoreFailure e), s')
     | (Inr x, s') \<Rightarrow> (Inr (if fst x then Inserted (fst (snd x)) (snd (snd x)) else Duplicate), s'))" .
  then obtain s' where s': "process memory_backend E P oper s = (Inr (Inserted 0 0), s')"
    by (auto simp: apply_result_def memory_backend_def memory_apply_def)
  have "erases_kept E (bt_get s) adm ?h" if "pr_admit P oper = Inr adm" for adm
    using one_effect_erases [OF one that] .
  from mem.process_step [OF assms(1) bl ok s' this] adm
  have "insert_effect E (bt_get s) (oh_verifying_key ?h) ?l ?h (ro_body oper) False (bt_get s')"
    "log_header E (bt_get s) (oh_verifying_key ?h) ?l (oh_seq_num ?h) = None" by auto
  from history_insert [OF assms(1) ok(2) this] s' assms(5) show ?thesis by simp
qed

lemma demo_ready:
  "preflight demo_codec demo_keep (demo_op n back) = Inr (admission_keep demo_target)"
  "ad_erase_payloads (admission_keep demo_target) = []"
  "log_seg demo_codec 6 = Inr ''06''"
  by (simp add: preflight_def demo_processor_def demo_op_def, simp add: admission_keep_def, code_simp)

lemma demo_encodable: "\<exists>blob. encode_op demo_codec (demo_op n back) = Inr blob"
  by (simp add: encode_op_def encode_blob_def demo_codec_def demo_encode_pair_def codec_def)

abbreviation "demo_history_entry n back \<equiv> entry_of_operation (signed_of demo_codec (demo_header n back)) (6 :: u8) []"

theorem authored_operation_is_inserted_witness:
  "\<exists>s'. process memory_backend demo_codec demo_keep (demo_op 1 (Some 3)) demo_first = (Inr (Inserted 0 0), s')
     \<and> store_history demo_codec (\<lambda>_. []) (bt_get s') = {demo_history_entry 1 (Some 3), demo_history_entry 0 None}"
proof -
  let ?p = "\<lambda>_ :: unit op_header. [] :: key32 list" and ?e = "demo_history_entry 0 None"
  have target: "st_log_id (ad_target (admission_keep demo_target)) = 6" by (simp add: admission_keep_def)
  note run = authored_operation_is_inserted [OF demo_codec_ok demo_processor_exact demo_keep_history refl,
      where parents = ?p and adm = "admission_keep demo_target", unfolded target]
  have hash: "ro_hash (demo_op 1 (Some 3)) \<noteq> ce_operation ?e"
    by (simp add: demo_op_def demo_header_def entry_of_operation_def signed_of_def demo_codec_def)
  obtain b0 b1 where enc: "encode_op demo_codec (demo_op 0 None) = Inr b0" "encode_op demo_codec (demo_op 1 (Some 3)) = Inr b1"
    using demo_encodable by blast
  have "set ([] :: u8 causal_entry list) = store_history demo_codec ?p (bt_get (process_all memory_backend demo_codec demo_keep [] []))"
    by (auto simp: process_all_def store_history_def bt_get_def log_header_def log_entry_def split: sum.splits)
  moreover have "ro_hash (demo_op 0 None) \<notin> ce_operation ` set ([] :: u8 causal_entry list)" by simp
  moreover have "author_head ([] :: u8 causal_entry list) (oh_verifying_key (ro_header (demo_op 0 None))) 6 =
      Inr (oh_seq_num (ro_header (demo_op 0 None)), oh_backlink (ro_header (demo_op 0 None)))"
    by (simp add: author_head_def validate_sequences_def demo_op_def demo_header_def)
  ultimately obtain s' where s': "process memory_backend demo_codec demo_keep (demo_op 0 None)
      (process_all memory_backend demo_codec demo_keep [] []) = (Inr (Inserted 0 0), s')"
    "store_history demo_codec ?p (bt_get s') = insert (entry_of_operation (signed_of demo_codec (ro_header (demo_op 0 None))) 6 []) (set [])"
    using run [OF _ _ demo_ready enc(1)] by blast
  have "demo_first = s'" using s'(1) by (simp add: process_all_def)
  then have first: "set [?e] = store_history demo_codec ?p (bt_get demo_first)" using s'(2) by (simp add: demo_op_def)
  have head: "author_head [?e] (oh_verifying_key (ro_header (demo_op 1 (Some 3)))) 6 =
      Inr (oh_seq_num (ro_header (demo_op 1 (Some 3))), oh_backlink (ro_header (demo_op 1 (Some 3))))"
    by (simp add: author_head_def validate_sequences_def bt_get_def later_entry_def entry_of_operation_def signed_of_def
        demo_op_def demo_header_def demo_codec_def)
  have "ro_hash (demo_op 1 (Some 3)) \<notin> ce_operation ` set [?e]" using hash by simp
  from run [OF first this demo_ready enc(2) head] show ?thesis
    by (simp only: list.set demo_op_def replica_op.simps)
qed

section \<open>Pruning together with erasure\<close>

lemma erase_one:
  assumes "codec_ok E" "store_ok E (bt_get s)" "log_prefix E a l = Inr p"
    and "log_entry E (bt_get s) a l m = Some (g, Some body)" "encode_blob E g None = Inr stripped"
  shows "fold_result (erase_step memory_backend E s) [cd_header_hash E g] (ws, c) =
    Inr (ws @ header_ref_delete E g (cd_header_hash E g) @ [PutOp (p @ seq_hex m) stripped], c + 1)"
proof -
  from log_entry_blob [OF assms(3,4)] obtain b where
    b: "bt_get s (p @ seq_hex m) = Some b" "decode_blob E b = Inr (g, Some body)" by metis
  have "bt_get s (op_ptr E (cd_header_hash E g)) = Some (str_bytes (p @ seq_hex m))"
    using log_entry_names [OF assms(1,2,4)] assms(3) by auto
  then have "log_key_for memory_backend E (cd_header_hash E g) s = Inr (Some (p @ seq_hex m))"
    using log_key_ascii [OF assms(1,3), of E] by (simp add: log_key_for_def mem.get_view)
  with b assms(5) show ?thesis by (simp add: erase_step_def mem.get_view Let_def)
qed

text \<open>The one batch that such an insert writes.\<close>

lemma prune_erase_batch:
  assumes "codec_ok E" "store_ok E (bt_get s)" "bt_inv s" "log_entry E (bt_get s) a l m = Some (g, Some body)"
    and "a = oh_verifying_key (ro_header oper)" "bt_get s (op_ptr E (ro_hash oper)) = None"
    and "encode_op E oper = Inr blob" "encode_blob E g None = Inr stripped"
    and "log_prefix E a l = Inr p" "topic_key E topic a l = Inr tk"
    and "prefix_prune_writes memory_backend E a l (oh_seq_num (ro_header oper)) s = Inr (pws, c)"
  obtains s' where "insert_indexed_operation_with_effects memory_backend E topic oper l True [cd_header_hash E g] s
      = (Inr (True, c, 1), s')"
    "bt_get s' = fold write_view
       ([PutOp tk [], PutOp (p @ seq_hex (oh_seq_num (ro_header oper))) blob,
         PutOp (op_ptr E (ro_hash oper)) (str_bytes (p @ seq_hex (oh_seq_num (ro_header oper))))]
        @ ref_put E oper (p @ seq_hex (oh_seq_num (ro_header oper))))
       (fold write_view (header_ref_delete E g (cd_header_hash E g) @ [PutOp (p @ seq_hex m) stripped])
         (fold write_view pws (bt_get s)))"
proof -
  let ?K = "p @ seq_hex (oh_seq_num (ro_header oper))"
  let ?ws = "pws @ header_ref_delete E g (cd_header_hash E g) @ [PutOp (p @ seq_hex m) stripped]
    @ [PutOp tk [], PutOp ?K blob, PutOp (op_ptr E (ro_hash oper)) (str_bytes ?K)] @ ref_put E oper ?K"
  have plan: "insert_indexed_operation_with_effects memory_backend E topic oper l True [cd_header_hash E g] s =
      apply_result memory_backend ?ws (True, c, 1 :: u64) s"
    using erase_one [OF assms(1,2,9,4,8)] assms(5-7,9-11)
    by (simp add: insert_indexed_operation_with_effects_def insert_plan_def Let_def mem.get_view del: fold_result.simps)
  obtain r t where t: "apply_result memory_backend ?ws (True, c, 1 :: u64) s = (r, t)" by fastforce
  have "\<exists>y. r = Inr y" using t by (auto simp: apply_result_def memory_backend_def memory_apply_def)
  with mem.apply_result_view [OF assms(3) t] have fin: "r = Inr (True, c, 1)" "bt_get t = fold write_view ?ws (bt_get s)" by auto
  show thesis
  proof (rule that)
    show "insert_indexed_operation_with_effects memory_backend E topic oper l True [cd_header_hash E g] s = (Inr (True, c, 1), t)"
      using plan t fin(1) by (simp only:)
  qed (use fin(2) in simp)
qed

text \<open>
  C37. When one decision both prunes a log and erases the body of an operation it prunes, the entry
  of that operation is not deleted: the insert succeeds, the log still holds the signed header at
  its position, and the operation can no longer be reached by its hash.
\<close>

theorem pruned_erased_entry_survives:
  assumes "codec_ok E" "store_ok E (bt_get s)" "bt_inv s" "log_entry E (bt_get s) a l m = Some (g, Some body)"
    and "a = oh_verifying_key (ro_header oper)" "m < oh_seq_num (ro_header oper)"
    and "bt_get s (op_ptr E (ro_hash oper)) = None" "encode_op E oper = Inr blob" "encode_blob E g None = Inr stripped"
  shows "\<exists>x s'. insert_indexed_operation_with_effects memory_backend E topic oper l True [cd_header_hash E g] s = (Inr (True, x), s')
    \<and> log_entry E (bt_get s') a l m = Some (g, None)
    \<and> get_operation memory_backend E (cd_header_hash E g) s' = Inr None"
proof -
  let ?n = "oh_seq_num (ro_header oper)" and ?i = "cd_header_hash E g" and ?v = "bt_get s"
  obtain p where p: "log_prefix E a l = Inr p" using log_entry_names [OF assms(1,2,4)] by auto
  then obtain seg where seg: "log_seg E l = Inr seg" by (auto simp: log_prefix_def and_then_eq_Inr)
  let ?K = "p @ seq_hex ?n"
  obtain tk where tk: "topic_key E topic a l = Inr tk" using seg by (simp add: topic_key_def)
  obtain ns c where ns: "prefix_prune_writes memory_backend E a l ?n s = Inr (concat (map (pruned_writes E ?v a l p) ns), c)"
    "set ns = {m. log_entry E ?v a l m \<noteq> None \<and> m < ?n}"
    using mem.prune_writes [OF assms(1-3) p] by blast
  let ?v1 = "fold write_view (concat (map (pruned_writes E ?v a l p) ns)) ?v"
  let ?v2 = "fold write_view (header_ref_delete E g ?i @ [PutOp (p @ seq_hex m) stripped]) ?v1"
  let ?rest = "[PutOp tk [], PutOp ?K blob, PutOp (op_ptr E (ro_hash oper)) (str_bytes ?K)] @ ref_put E oper ?K"
  obtain s' where run: "insert_indexed_operation_with_effects memory_backend E topic oper l True [?i] s = (Inr (True, c, 1), s')"
    "bt_get s' = fold write_view ?rest ?v2"
    using prune_erase_batch [OF assms(1-5,7-9) p tk ns(1)] by blast
  have log: "prefix ''log/'' (p @ seq_hex k)" for k using log_prefix_log [OF p] by simp
  note puts = after_puts [OF topic_key_prefix [OF tk] log ref_put_refs run(2)]
  have "p @ seq_hex m \<noteq> ?K" using assms(6) by (simp add: seq_hex_inj)
  then have "bt_get s' (p @ seq_hex m) = Some stripped"
    using puts(1) [OF log, of m] by simp
  then have "log_entry E (bt_get s') a l m = Some (g, None)"
    using p decode_encode_blob [OF assms(1,9)] by (simp add: log_entry_def)
  moreover have "bt_get s' (op_ptr E ?i) = None"
  proof -
    have "bt_get s (op_ptr E ?i) \<noteq> None" using log_entry_names [OF assms(1,2,4)] by auto
    then have "op_ptr E ?i \<noteq> op_ptr E (ro_hash oper)" using assms(7) by metis
    moreover have "?v2 (op_ptr E ?i) = ?v1 (op_ptr E ?i)"
      using log_key_no_pointer [OF p]
      by (intro fold_write_untouched) (auto simp: header_ref_delete_def payload_ref_key_kind(2) [symmetric] split: option.splits)
    moreover have "?v1 (op_ptr E ?i) = None"
      using after_prune(2) [OF assms(1) p ns(2), of ?i] assms(4,6) by auto
    ultimately show ?thesis using puts(2) [of ?i] by simp
  qed
  then have "get_operation memory_backend E ?i s' = Inr None"
    by (simp add: get_operation_def log_key_for_def mem.get_view)
  ultimately show ?thesis using run(1) by blast
qed

lemma demo_first_entry:
  "log_entry demo_codec (bt_get demo_first) 5 6 0 = Some (demo_header 0 None, Some [7, 8])"
  "bt_get demo_first (op_ptr demo_codec (ro_hash (demo_op 2 None))) = None"
  by code_simp+

theorem pruned_erased_entry_survives_witness:
  "\<exists>x s'. insert_indexed_operation_with_effects memory_backend demo_codec 4 (demo_op 2 None) 6 True [3] demo_first = (Inr (True, x), s')
    \<and> log_entry demo_codec (bt_get s') 5 6 0 = Some (demo_header 0 None, None)
    \<and> get_operation memory_backend demo_codec 3 s' = Inr None"
proof -
  have hash: "cd_header_hash demo_codec (demo_header 0 None) = 3" by (simp add: demo_codec_def demo_header_def)
  obtain blob where blob: "encode_op demo_codec (demo_op 2 None) = Inr blob" using demo_encodable by blast
  obtain stripped where stripped: "encode_blob demo_codec (demo_header 0 None) None = Inr stripped"
    by (simp add: encode_blob_def demo_codec_def demo_encode_pair_def codec_def)
  have key: "5 = oh_verifying_key (ro_header (demo_op 2 None))" "0 < oh_seq_num (ro_header (demo_op 2 None))"
    by (simp_all add: demo_op_def demo_header_def)
  note reached = replica_reached [OF demo_codec_ok demo_processor_ok keeps_one_effect [OF demo_keep_history], of "[demo_op 0 None]"]
  from pruned_erased_entry_survives [OF demo_codec_ok reached(2,1) demo_first_entry(1) key demo_first_entry(2) blob stripped, of 4]
  show ?thesis unfolding hash .
qed

end
