(* ===== verification/Spec2Isabelle.thy ===== *)
theory Spec2Isabelle
  imports Mesh_Store Muniment_Journal Mesh_Progress Mesh_Supervision Stickleback_History
begin

text \<open>
  This development verifies the replicated core of mere: the job mesh that lets the devices of a
  person lend each other work, the host that supervises the runs, the persistence floor below it,
  and the operation store, processor and causal order through which replicas exchange signed
  records. All paths are under \<^verbatim>\<open>src/\<close>.

  \<^bold>\<open>The parts and how they interact.\<close> A device signs operations. The processor checks
  each one against a domain policy and the retained log, and indexes it in the operation store, which
  is a flat key space of a muniment backend. The mesh is one such domain: its policy admits
  operations, and its job board is folded from the retained ones, so that replicas with the same
  operations see the same board. The worker reads the board and proposes an action, the host carries
  it out, supervises the run and authors what came of it, and the next fold takes it up. Other
  domains project the retained operations into a causal order and author on its frontier.

  \<^bold>\<open>Foundations.\<close>
  \<^item> \<open>Prelude\<close>: words, byte strings, saturating arithmetic, ordered maps; the interfaces
    \<open>ordered_map\<close> (interpreted by the sorted association list) and \<open>convergent_fold\<close>
    (interpreted by the gather phase of the board).
  \<^item> \<open>Rust_Str\<close>: the string operations of the standard library the sources use.
  \<^item> \<open>Proof_Types\<close>: digests, commitments and blob references
    (\<^verbatim>\<open>crates/system/proofs/src/lib.rs\<close>).
  \<^item> \<open>Attestation\<close>: derived-key attestations and the device directory
    (\<^verbatim>\<open>crates/dramatis/personae/src/provider.rs\<close>,
    \<^verbatim>\<open>crates/mesh/mesh/src/directory.rs\<close>).

  \<^bold>\<open>The mesh\<close> (\<^verbatim>\<open>crates/mesh/mesh/src\<close>).
  \<^item> \<open>Mesh_Ident\<close>, \<open>Mesh_Spec\<close>: \<^verbatim>\<open>ident.rs\<close>, \<^verbatim>\<open>spec.rs\<close>;
    manifests, their bounds, and when an output honours a manifest.
  \<^item> \<open>Mesh_Lease\<close>, \<open>Mesh_Projection\<close>: \<^verbatim>\<open>lease.rs\<close>,
    \<^verbatim>\<open>projection.rs\<close>; the chain of lease epochs and its phase at one time.
  \<^item> \<open>Mesh_Board\<close>: \<^verbatim>\<open>wire.rs\<close>, \<^verbatim>\<open>fold.rs\<close>, \<^verbatim>\<open>board.rs\<close>; the
    events and the fold. \<open>Mesh_Convergence\<close> shows that the fold depends on the set of
    operations only; \<open>Mesh_Provenance\<close> traces every fact of a board to a verified operation;
    \<open>Mesh_Guarantees\<close> draws from both that leases exclude each other, that grants rest on
    claims, and that completions and results are those of the holder and the winner.
  \<^item> \<open>Mesh_Retention\<close>, \<open>Mesh_Replay\<close>, \<open>Mesh_Store\<close>: \<^verbatim>\<open>retention.rs\<close>,
    \<^verbatim>\<open>store.rs\<close>; snapshots, checkpoints, erasure, collection and admission. An accepted
    checkpoint is sound, a built one is accepted, a snapshot replays, collectable blobs are
    unreferenced, and admitted operations are bounded.
  \<^item> \<open>Mesh_Resource\<close>, \<open>Mesh_Codec\<close>, \<open>Mesh_Registry\<close>: \<^verbatim>\<open>resource.rs\<close>,
    \<^verbatim>\<open>namespace.rs\<close>, \<^verbatim>\<open>registry.rs\<close>, \<^verbatim>\<open>resources/\<close>; control of a run, the
    namespace it is confined to, the adapters and the rerun that verifies an output. An adapter is
    arbitrary code: it prepares by a program over the calls of its namespace view
    (\<open>view_prog\<close>), and whatever else it may consult is a stream of answers each run gets
    anew. A run is shown to depend on the blob space through the granted inputs alone, and an
    output of the built-in adapters to be reproduced by a rerun elsewhere.
  \<^item> \<open>Mesh_Worker\<close>, \<open>Mesh_Progress\<close>: \<^verbatim>\<open>policy.rs\<close>, \<^verbatim>\<open>worker.rs\<close>; the
    decision, which is due and of the highest rank among those that are (\<open>action_due\<close>),
    and that what it proposes the fold accepts, up to the execution of a posted job.
  \<^item> \<open>Mesh_Host\<close>, \<open>Mesh_Supervision\<close>: \<^verbatim>\<open>crates/mesh/host/src\<close>
    (\<^verbatim>\<open>host.rs\<close>, \<^verbatim>\<open>inflight.rs\<close>, \<^verbatim>\<open>courier.rs\<close>); the tick of the
    supervisor, what one tick authors, and invariants over every interleaving of ticks with the
    runs.

  \<^bold>\<open>Persistence\<close> (\<^verbatim>\<open>crates/eidetic/muniment/src\<close>).
  \<^item> \<open>Muniment\<close>: \<^verbatim>\<open>backend.rs\<close>, \<^verbatim>\<open>zip_backend.rs\<close>, \<^verbatim>\<open>blob.rs\<close>,
    \<^verbatim>\<open>slot.rs\<close>. The contract of a backend is the locale \<open>backend_laws\<close>, which the memory
    and the zip store interpret; the zip store refines the memory store and survives reopening.
  \<^item> \<open>Muniment_Journal\<close>: \<^verbatim>\<open>journal/\<close>; the append-only journal, its causal queries
    and its round trip through storage.

  \<^bold>\<open>Replication\<close> (\<^verbatim>\<open>crates/stickleback/src\<close>).
  \<^item> \<open>Stickleback_Causal\<close>: \<^verbatim>\<open>causal.rs\<close>. \<open>Stickleback_Order\<close> and
    \<open>Stickleback_Projection\<close> give the specification of the projection and prove the code
    against it; \<open>Stickleback_Convergence\<close> and \<open>Stickleback_Authoring\<close> hold the results:
    the projection is exact and convergent, and an authored record comes last.
  \<^item> \<open>Stickleback_Keys\<close>, \<open>Stickleback_Store\<close>: \<^verbatim>\<open>store.rs\<close>; the key schema
    and every operation of the store, over any backend, with the state of the backend passed along.
  \<^item> \<open>Stickleback_Admission\<close>, \<open>Stickleback_Processor\<close>: \<^verbatim>\<open>processor.rs\<close> and
    the batch plan of \<^verbatim>\<open>store.rs\<close>.
  \<^item> \<open>Stickleback_Continuity\<close>, \<open>Stickleback_Replica\<close>: the invariant of the keys
    (\<open>store_ok\<close>) and of the logs (\<open>linked\<close>), and that one processed operation keeps
    both, proved in \<open>backend_laws\<close>.
  \<^item> \<open>Stickleback_Example\<close>: a codec for which the assumed laws hold.
    \<open>Stickleback_History\<close>: the results. Logs stay linked over any sequence of operations; an
    inserted operation is found again; an unpruned replica is the unbroken history that
    \<open>Stickleback_Authoring\<close> asks for; what authoring proposes the processor inserts.

  \<^bold>\<open>State, errors and termination.\<close> Structs are records, enums are datatypes, and stateful
  calls take and return their state. A fallible call returns a sum whose left side is the error of the
  source; where the source could panic on an index or an underflow (the causal projection) the value
  is \<^const>\<open>None\<close>, and the results show that it never is. Integers keep their width. No
  definition takes fuel: the loops that are not structural (\<open>causes_loop\<close>,
  \<open>block_loop\<close>, \<open>ready_loop\<close>, \<open>before_loop\<close>) have termination proofs. A shared
  control word or lock is modelled by the order of the calls on it.

  \<^bold>\<open>Parameters.\<close> BLAKE3, Ed25519, CBOR, hex, the operation and header format of p2panda and
  its signature and backlink checks, the zip format, the answers of the file system, the embedding
  provider, the clock, the conditions of a device, what an adapter sees of the outside, and the synced
  mesh are arguments. What a result
  needs of them is a named hypothesis, such as \<open>codec_ok\<close> (decoding inverts encoding, hex
  tells its inputs apart) and \<open>backlink_ok\<close> (a continued log carries the next number and the
  hash of its predecessor), and each such result has an instance on concrete functions.

  \<^bold>\<open>Where the code falls short.\<close> Theorems of kind error exhibit behaviour that differs from
  what the sources document: in \<open>Mesh_Replay\<close>, \<open>Mesh_Store\<close> and
  \<open>Mesh_Convergence\<close> for committed outputs, checkpoints and repeated results, in \<open>Mesh_Worker\<close> and \<open>Mesh_Supervision\<close> for decisions
  and reports, and in \<open>Stickleback_History\<close> for pruning together with erasure.

  \<^bold>\<open>Not modelled.\<close> The graphical shells, canvas, physics and rendering crates (floating
  point and external engines); crawling, networking, group encryption, file drops and space sessions
  (external protocols); the redb and IndexedDB backends (adapters to a database); the calls through
  which the mesh store reads and writes its backing store; the maintenance calls of the host; key
  storage of personas. Of the operation store, the table of in-process locks is not a state: the
  model runs one call at a time. The atomic batch is modelled in full, but the results on logs are
  about operations processed one by one.
\<close>

end
